(* ===== verification/Prelude.thy ===== *)
theory Prelude
  imports Main
begin

text \<open>
  Shared vocabulary of the development: instants and counts of the TypeScript sources as
  integers, the extended number \<open>jsnum\<close> for the code's \<open>Number.POSITIVE_INFINITY\<close>,
  the truncating remainder of JavaScript, tables of the database as finite maps with the
  reading \<open>row?.n ?? 0\<close>, and the generic lemmas and fact collections the component
  theories share.
\<close>

section \<open>Fact collections\<close>

named_theorems consts_defs "numeric constants of the sources, unfolded on demand"
named_theorems frame_simps "what an operation leaves unchanged"
named_theorems invar_intros "operations that keep an invariant"

section \<open>Instants, counts, identifiers\<close>

text \<open>
  A \<open>Date\<close> is the number of milliseconds since the epoch (\<open>getTime()\<close>); an invalid
  \<open>Date\<close> is outside the model. Counts are integers: the code's numbers stay far below
  \<open>2 ^ 53\<close>, where a double is exact on integers.
\<close>

type_synonym instant = int
type_synonym ident = string

section \<open>Numbers with infinity\<close>

datatype jsnum = Fin int | PInf

instantiation jsnum :: linorder
begin

fun less_eq_jsnum :: "jsnum \<Rightarrow> jsnum \<Rightarrow> bool" where
  "less_eq_jsnum (Fin a) (Fin b) = (a \<le> b)"
| "less_eq_jsnum (Fin a) PInf = True"
| "less_eq_jsnum PInf (Fin b) = False"
| "less_eq_jsnum PInf PInf = True"

definition less_jsnum :: "jsnum \<Rightarrow> jsnum \<Rightarrow> bool" where
  "less_jsnum a b \<longleftrightarrow> a \<le> b \<and> \<not> b \<le> a"

instance
proof
  fix x y z :: jsnum
  show "(x < y) = (x \<le> y \<and> \<not> y \<le> x)" by (simp add: less_jsnum_def)
  show "x \<le> x" by (cases x) auto
  show "x \<le> y \<Longrightarrow> y \<le> z \<Longrightarrow> x \<le> z" by (cases x; cases y; cases z) auto
  show "x \<le> y \<Longrightarrow> y \<le> x \<Longrightarrow> x = y" by (cases x; cases y) auto
  show "x \<le> y \<or> y \<le> x" by (cases x; cases y) auto
qed

end

lemma less_jsnum_simps [simp]:
  "Fin a < Fin b \<longleftrightarrow> a < b"
  "Fin a < PInf"
  "\<not> PInf < x"
  by (cases x; auto simp: less_jsnum_def)+

lemma le_PInf [simp]: "x \<le> PInf"
  by (cases x) auto

lemma PInf_le_iff [simp]: "PInf \<le> x \<longleftrightarrow> x = PInf"
  by (cases x) auto

fun jsnum_of :: "int option \<Rightarrow> jsnum" where
  "jsnum_of None = PInf"
| "jsnum_of (Some n) = Fin n"

fun jsnum_minus :: "jsnum \<Rightarrow> int \<Rightarrow> jsnum" where
  "jsnum_minus (Fin a) n = Fin (a - n)"
| "jsnum_minus PInf n = PInf"

lemma jsnum_minus_mono: "x \<le> y \<Longrightarrow> jsnum_minus x n \<le> jsnum_minus y n"
  by (cases x; cases y) auto

section \<open>JavaScript arithmetic\<close>

text \<open>\<open>%\<close> keeps the sign of the dividend; \<open>Math.ceil(a / b)\<close> on integers.\<close>

definition js_rem :: "int \<Rightarrow> int \<Rightarrow> int" where
  "js_rem a b = (if a < 0 then - ((- a) mod b) else a mod b)"

definition ceil_div :: "int \<Rightarrow> int \<Rightarrow> int" where
  "ceil_div a b = - ((- a) div b)"

lemma js_rem_nonneg [simp]: "0 \<le> a \<Longrightarrow> js_rem a b = a mod b"
  by (simp add: js_rem_def)

lemma div_bounds:
  fixes x k :: int
  assumes "0 < k"
  shows "k * (x div k) \<le> x" and "x < k * (x div k) + k"
proof -
  have e: "x = k * (x div k) + x mod k" by simp
  from assms have "0 \<le> x mod k" "x mod k < k" by simp_all
  with e show "k * (x div k) \<le> x" "x < k * (x div k) + k" by linarith+
qed

lemma div_eqI:
  fixes x k q :: int
  assumes "k * q \<le> x" and "x < k * q + k"
  shows "x div k = q"
proof -
  have "x = (x - k * q) + q * k" by simp
  moreover have "(x - k * q) div k = 0" using assms by (simp add: div_pos_pos_trivial)
  moreover have "k \<noteq> 0" using assms by auto
  ultimately show ?thesis by (metis div_mult_self1 add.right_neutral)
qed

text \<open>Adding 1 either carries into the quotient or bumps the remainder.\<close>

lemma div_mod_succ:
  fixes y k :: int
  assumes "0 < k"
  shows "(y + 1) div k = (if y mod k = k - 1 then y div k + 1 else y div k)"
    and "(y + 1) mod k = (if y mod k = k - 1 then 0 else y mod k + 1)"
proof -
  have y: "y = k * (y div k) + y mod k" by simp
  have r: "0 \<le> y mod k" "y mod k < k" using assms by simp_all
  show d: "(y + 1) div k = (if y mod k = k - 1 then y div k + 1 else y div k)"
  proof (cases "y mod k = k - 1")
    case True
    with y have "y + 1 = k * (y div k + 1)" by (simp add: algebra_simps)
    then show ?thesis using True assms by simp
  next
    case False
    with r have "y mod k + 1 < k" by linarith
    with y r have "k * (y div k) \<le> y + 1" "y + 1 < k * (y div k) + k" by linarith+
    then show ?thesis using False by (simp add: div_eqI)
  qed
  have e: "(y + 1) mod k = y + 1 - k * ((y + 1) div k)" by (simp only: minus_mult_div_eq_mod)
  show "(y + 1) mod k = (if y mod k = k - 1 then 0 else y mod k + 1)"
  proof (cases "y mod k = k - 1")
    case True
    with d have "(y + 1) div k = y div k + 1" by presburger
    with e have "(y + 1) mod k = y + 1 - (k * (y div k) + k)" by (simp only: distrib_left mult_1_right)
    with y True have "(y + 1) mod k = 0" by linarith
    with True show ?thesis by presburger
  next
    case False
    with d have "(y + 1) div k = y div k" by presburger
    with e have "(y + 1) mod k = y + 1 - k * (y div k)" by (simp only:)
    with y have "(y + 1) mod k = y mod k + 1" by linarith
    with False show ?thesis by presburger
  qed
qed

lemma ceil_div_bounds:
  assumes "0 < b"
  shows "a \<le> b * ceil_div a b" and "b * ceil_div a b < a + b"
  using div_bounds [OF assms, of "- a"] by (simp_all add: ceil_div_def)

section \<open>Tables as finite maps\<close>

text \<open>\<open>row?.accepted ?? 0\<close>: the value of a counter row, 0 where the row is missing.\<close>

definition cnt :: "('k \<rightharpoonup> int) \<Rightarrow> 'k \<Rightarrow> int" where
  "cnt m k = (case m k of None \<Rightarrow> 0 | Some n \<Rightarrow> n)"

lemma cnt_empty [simp]: "cnt Map.empty k = 0"
  by (simp add: cnt_def)

lemma cnt_upd [simp]: "cnt (m(k \<mapsto> n)) j = (if j = k then n else cnt m j)"
  by (simp add: cnt_def)

lemma cnt_Some [simp]: "m k = Some n \<Longrightarrow> cnt m k = n"
  by (simp add: cnt_def)

lemma cnt_None [simp]: "m k = None \<Longrightarrow> cnt m k = 0"
  by (simp add: cnt_def)

text \<open>An \<open>update ... where key = k\<close> that rewrites one column of the row, if there is one.\<close>

definition map_upd :: "('v \<Rightarrow> 'v) \<Rightarrow> 'k \<Rightarrow> ('k \<rightharpoonup> 'v) \<Rightarrow> ('k \<rightharpoonup> 'v)" where
  "map_upd f k m = (case m k of None \<Rightarrow> m | Some v \<Rightarrow> m(k \<mapsto> f v))"

lemma map_upd_same: "map_upd f k m k = map_option f (m k)"
  by (simp add: map_upd_def split: option.split)

lemma map_upd_other [simp]: "j \<noteq> k \<Longrightarrow> map_upd f k m j = m j"
  by (simp add: map_upd_def split: option.split)

lemma cnt_map_upd_other [simp]: "j \<noteq> k \<Longrightarrow> cnt (map_upd f k m) j = cnt m j"
  by (simp add: cnt_def)

lemma cnt_map_upd_same: "cnt (map_upd f k m) k = (if m k = None then 0 else f (cnt m k))"
  by (auto simp: cnt_def map_upd_same)

text \<open>
  \<open>insert ... on conflict (key) do update set ... where ... returning\<close>: one atomic
  statement that inserts the row \<open>ins\<close> where the key is free, else replaces the row by
  \<open>upd row\<close>. A false \<open>where\<close> of the update is \<open>upd row = None\<close>: no row changes and
  none is returned.
\<close>

definition upsert :: "'k \<Rightarrow> 'v \<Rightarrow> ('v \<Rightarrow> 'v option) \<Rightarrow> ('k \<rightharpoonup> 'v) \<Rightarrow> (('k \<rightharpoonup> 'v) \<times> 'v) option" where
  "upsert k ins upd m =
     (case m k of
        None \<Rightarrow> Some (m(k \<mapsto> ins), ins)
      | Some v \<Rightarrow> (case upd v of None \<Rightarrow> None | Some v' \<Rightarrow> Some (m(k \<mapsto> v'), v')))"

lemma upsert_SomeD:
  "upsert k ins upd m = Some (m', v') \<Longrightarrow>
     m' = m(k \<mapsto> v') \<and> (m k = None \<and> v' = ins \<or> (\<exists>v. m k = Some v \<and> upd v = Some v'))"
  by (auto simp: upsert_def split: option.splits)

lemma upsert_None_iff: "upsert k ins upd m = None \<longleftrightarrow> (\<exists>v. m k = Some v \<and> upd v = None)"
  by (auto simp: upsert_def split: option.splits)

lemma upsert_frame: "upsert k ins upd m = Some (m', v') \<Longrightarrow> j \<noteq> k \<Longrightarrow> m' j = m j"
  by (auto dest: upsert_SomeD)

text \<open>All counters of a table at or above a floor.\<close>

definition nonneg_table :: "('k \<rightharpoonup> int) \<Rightarrow> bool" where
  "nonneg_table m \<longleftrightarrow> (\<forall>k. 0 \<le> cnt m k)"

lemma nonneg_tableD: "nonneg_table m \<Longrightarrow> 0 \<le> cnt m k"
  by (simp add: nonneg_table_def)

lemma nonneg_table_empty [simp]: "nonneg_table Map.empty"
  by (simp add: nonneg_table_def)

lemma nonneg_table_upd [invar_intros]:
  "nonneg_table m \<Longrightarrow> 0 \<le> n \<Longrightarrow> nonneg_table (m(k \<mapsto> n))"
  by (simp add: nonneg_table_def)

lemma nonneg_table_map_upd [invar_intros]:
  "nonneg_table m \<Longrightarrow> (\<And>n. 0 \<le> f n) \<Longrightarrow> nonneg_table (map_upd f k m)"
  by (auto simp: nonneg_table_def map_upd_def split: option.split)

section \<open>Lists\<close>

lemma find_Some_set: "List.find P xs = Some x \<Longrightarrow> x \<in> set xs \<and> P x"
  by (auto simp: find_Some_iff)

text \<open>
  A table read row by row is a list of rows. \<open>update ... set ... where ... returning\<close>:
  the table after, and the updated rows.
\<close>

definition update_rows :: "('r \<Rightarrow> bool) \<Rightarrow> ('r \<Rightarrow> 'r) \<Rightarrow> 'r list \<Rightarrow> 'r list" where
  "update_rows P f rows = map (\<lambda>r. if P r then f r else r) rows"

definition returning :: "('r \<Rightarrow> bool) \<Rightarrow> ('r \<Rightarrow> 'r) \<Rightarrow> 'r list \<Rightarrow> 'r list" where
  "returning P f rows = map f (filter P rows)"

lemma length_update_rows [simp]: "length (update_rows P f rows) = length rows"
  by (simp add: update_rows_def)

lemma nth_update_rows [simp]:
  "i < length rows \<Longrightarrow> update_rows P f rows ! i = (if P (rows ! i) then f (rows ! i) else rows ! i)"
  by (simp add: update_rows_def)

lemma update_rows_none: "(\<And>r. r \<in> set rows \<Longrightarrow> \<not> P r) \<Longrightarrow> update_rows P f rows = rows"
  by (auto simp: update_rows_def intro: map_idI)

lemma returning_Nil_iff: "returning P f rows = [] \<longleftrightarrow> (\<forall>r \<in> set rows. \<not> P r)"
  by (auto simp: returning_def filter_empty_conv)

lemma map_update_rows: "(\<And>r. P r \<Longrightarrow> g (f r) = g r) \<Longrightarrow> map g (update_rows P f rows) = map g rows"
  by (simp add: update_rows_def)

lemma set_update_rows: "set (update_rows P f rows) = {if P r then f r else r | r. r \<in> set rows}"
  by (auto simp: update_rows_def)

text \<open>
  Values grouped by key in order of first appearance, as the sources fill a \<open>Map\<close> of
  arrays (\<open>byKey.get(k) ?? []\<close>, push, \<open>set\<close>).
\<close>

fun push_group :: "'k \<Rightarrow> 'v \<Rightarrow> ('k \<times> 'v list) list \<Rightarrow> ('k \<times> 'v list) list" where
  "push_group k v [] = [(k, [v])]"
| "push_group k v (g # gs) = (if fst g = k then (k, snd g @ [v]) # gs else g # push_group k v gs)"

definition group_pairs :: "('k \<times> 'v) list \<Rightarrow> ('k \<times> 'v list) list" where
  "group_pairs kvs = fold (\<lambda>(k, v). push_group k v) kvs []"

lemma keys_push_group: "set (map fst (push_group k v gs)) = insert k (set (map fst gs))"
  by (induction gs) auto

lemma distinct_push_group: "distinct (map fst gs) \<Longrightarrow> distinct (map fst (push_group k v gs))"
proof (induction gs)
  case (Cons g gs)
  then show ?case using keys_push_group [of k v gs] by auto
qed simp

lemma in_push_groupD:
  "(j, vs) \<in> set (push_group k v gs) \<Longrightarrow> distinct (map fst gs) \<Longrightarrow>
     (j \<noteq> k \<and> (j, vs) \<in> set gs) \<or> (j = k \<and> k \<notin> fst ` set gs \<and> vs = [v])
     \<or> (j = k \<and> (\<exists>us. (k, us) \<in> set gs \<and> vs = us @ [v]))"
proof (induction gs)
  case (Cons g gs)
  obtain a us where g: "g = (a, us)" by (cases g)
  show ?case
  proof (cases "a = k")
    case True
    then show ?thesis using Cons.prems unfolding g by force
  next
    case False
    then show ?thesis using Cons unfolding g by auto
  qed
qed simp

lemma group_pairs_spec:
  "distinct (map fst (group_pairs kvs))
   \<and> fst ` set (group_pairs kvs) = fst ` set kvs
   \<and> (\<forall>k vs. (k, vs) \<in> set (group_pairs kvs) \<longrightarrow> vs = map snd (filter (\<lambda>p. fst p = k) kvs))"
proof (induction kvs rule: rev_induct)
  case Nil
  then show ?case by (simp add: group_pairs_def)
next
  case (snoc p kvs)
  obtain k v where p: "p = (k, v)" by (cases p)
  let ?g = "group_pairs kvs"
  have e: "group_pairs (kvs @ [p]) = push_group k v ?g" by (simp add: group_pairs_def p)
  have d: "distinct (map fst ?g)" and ks: "fst ` set ?g = fst ` set kvs"
    and vs: "\<And>j us. (j, us) \<in> set ?g \<Longrightarrow> us = map snd (filter (\<lambda>p. fst p = j) kvs)"
    using snoc.IH by auto
  have "filter (\<lambda>p. fst p = k) kvs = []" if "k \<notin> fst ` set kvs"
    using that by (auto simp: filter_empty_conv)
  then have "us = map snd (filter (\<lambda>q. fst q = j) (kvs @ [p]))"
    if "(j, us) \<in> set (push_group k v ?g)" for j us
    using in_push_groupD [OF that d] vs by (auto simp: ks p)
  then show ?case unfolding e
    using distinct_push_group [OF d] keys_push_group [of k v ?g] ks by (auto simp: p)
qed

text \<open>\<open>String.trim\<close> on Latin-1 characters, the characters of this model.\<close>

definition js_space :: "char \<Rightarrow> bool" where
  "js_space c \<longleftrightarrow> (let n = of_char c :: nat in 9 \<le> n \<and> n \<le> 13 \<or> n = 32 \<or> n = 160)"

definition js_trim :: "string \<Rightarrow> string" where
  "js_trim s = rev (dropWhile js_space (rev (dropWhile js_space s)))"

lemma dropWhile_hd: "xs \<noteq> [] \<Longrightarrow> \<not> P (hd xs) \<Longrightarrow> dropWhile P xs = xs"
  by (cases xs) auto

lemma js_trim_id: "s \<noteq> [] \<Longrightarrow> \<not> js_space (hd s) \<Longrightarrow> \<not> js_space (last s) \<Longrightarrow> js_trim s = s"
  using dropWhile_hd [of s js_space] dropWhile_hd [of "rev s" js_space] by (simp add: js_trim_def hd_rev)

lemma js_trim_ends: "js_trim s \<noteq> [] \<Longrightarrow> \<not> js_space (hd (js_trim s)) \<and> \<not> js_space (last (js_trim s))"
proof -
  assume ne: "js_trim s \<noteq> []"
  let ?d = "dropWhile js_space s"
  have e: "js_trim s = rev (dropWhile js_space (rev ?d))" by (simp add: js_trim_def)
  have "\<not> js_space (last (js_trim s))" using ne hd_dropWhile [of js_space "rev ?d"] by (simp add: e last_rev)
  moreover have "\<not> js_space (hd (js_trim s))"
  proof -
    have "rev (takeWhile js_space (rev ?d) @ dropWhile js_space (rev ?d)) = rev (rev ?d)"
      by (simp only: takeWhile_dropWhile_id)
    then have ys: "js_trim s @ rev (takeWhile js_space (rev ?d)) = ?d" by (simp only: e rev_append rev_rev_ident)
    then have "?d \<noteq> []" using ne by (metis append_is_Nil_conv)
    moreover have "hd (js_trim s) = hd ?d" using ne ys hd_append2 [of "js_trim s"] by metis
    ultimately show ?thesis using hd_dropWhile [of js_space s] by simp
  qed
  ultimately show ?thesis by blast
qed

lemma js_trim_space: "js_trim p = p \<Longrightarrow> js_space c \<Longrightarrow> js_trim (p @ [c]) = p"
proof -
  assume p: "js_trim p = p" and c: "js_space c"
  show ?thesis
  proof (cases "p = []")
    case True
    then show ?thesis using c by (simp add: js_trim_def)
  next
    case False
    then have h: "\<not> js_space (hd p)" "\<not> js_space (last p)" using js_trim_ends [of p] p by simp_all
    have "dropWhile js_space (p @ [c]) = p @ [c]" by (rule dropWhile_hd) (use False h in simp_all)
    moreover have "dropWhile js_space (rev p) = rev p" by (rule dropWhile_hd) (use False h in \<open>simp_all add: hd_rev\<close>)
    ultimately show ?thesis using c by (simp add: js_trim_def)
  qed
qed

lemma js_trim_Nil [simp]: "js_trim [] = []"
  by (simp add: js_trim_def)

lemma js_trim_idem [simp]: "js_trim (js_trim s) = js_trim s"
  using js_trim_id js_trim_ends by (cases "js_trim s = []") auto

lemma set_js_trim: "set (js_trim s) \<subseteq> set s"
  by (auto simp: js_trim_def dest!: set_dropWhileD)

text \<open>SQL's three-valued conditions: \<open>None\<close> is unknown, and a row passes on true only.\<close>

definition sql_lt :: "int option \<Rightarrow> int \<Rightarrow> bool option" where
  "sql_lt a b = map_option (\<lambda>x. x < b) a"

definition sql_and :: "bool option \<Rightarrow> bool option \<Rightarrow> bool option" where
  "sql_and a b = (if a = Some False \<or> b = Some False then Some False
                  else if a = None \<or> b = None then None else Some True)"

definition sql_or :: "bool option \<Rightarrow> bool option \<Rightarrow> bool option" where
  "sql_or a b = (if a = Some True \<or> b = Some True then Some True
                 else if a = None \<or> b = None then None else Some False)"

definition sql_holds :: "bool option \<Rightarrow> bool" where
  "sql_holds a \<longleftrightarrow> a = Some True"

lemma sql_holds_simps [simp]:
  "sql_holds (Some t) = t" "\<not> sql_holds None"
  "sql_holds (sql_and a b) \<longleftrightarrow> sql_holds a \<and> sql_holds b"
  "sql_holds (sql_or a b) \<longleftrightarrow> sql_holds a \<or> sql_holds b"
  "sql_holds (sql_lt x y) \<longleftrightarrow> (\<exists>v. x = Some v \<and> v < y)"
  by (auto simp: sql_holds_def sql_and_def sql_or_def sql_lt_def)

text \<open>\<open>order by f limit 1\<close>: the first row with the least key.\<close>

fun first_by :: "('a \<Rightarrow> 'k::linorder) \<Rightarrow> 'a list \<Rightarrow> 'a option" where
  "first_by f [] = None"
| "first_by f (x # xs) =
     (case first_by f xs of None \<Rightarrow> Some x | Some y \<Rightarrow> if f y < f x then Some y else Some x)"

lemma first_by_None_iff [simp]: "first_by f xs = None \<longleftrightarrow> xs = []"
  by (cases xs) (auto split: option.splits)

lemma first_by_SomeD: "first_by f xs = Some x \<Longrightarrow> x \<in> set xs \<and> (\<forall>y \<in> set xs. f x \<le> f y)"
proof (induction xs arbitrary: x)
  case (Cons a xs)
  then show ?case
    by (cases "first_by f xs") (fastforce split: if_splits)+
qed simp

end
