(* ===== verification/JsDate.thy ===== *)
theory JsDate
  imports Prelude
begin

text \<open>
  The parts of JavaScript's \<open>Date\<close> the sources use, on the proleptic Gregorian calendar:
  the UTC fields of an instant and \<open>setUTCMonth\<close>, and the helpers of
  \<open>packages/core/src/utc-day.ts\<close> (\<open>utcDay\<close>, \<open>windowStartDay\<close>, \<open>nextUtcDayStart\<close>,
  \<open>secondsUntil\<close>) with \<open>utcHour\<close> of \<open>usage-hourly.ts\<close>. Months are numbered from
  March of year 0, so that the leap day is the last day of a year and adding a month is
  adding 1. A UTC day string \<open>YYYY-MM-DD\<close> is modelled by the day it names, counted from
  the epoch: the database column it is compared with has type \<open>date\<close>.
\<close>

section \<open>Days and hours\<close>

definition DAY_MS :: int where [consts_defs]: "DAY_MS = 86400000"
definition HOUR_MS :: int where [consts_defs]: "HOUR_MS = 3600000"

definition utcDay :: "instant \<Rightarrow> int" where
  "utcDay at = at div DAY_MS"

definition windowStartDay :: "int \<Rightarrow> instant \<Rightarrow> int" where
  "windowStartDay days at = utcDay (at - (days - 1) * DAY_MS)"

definition nextUtcDayStart :: "instant \<Rightarrow> instant" where
  "nextUtcDayStart at = at - at mod DAY_MS + DAY_MS"

definition secondsUntil :: "instant \<Rightarrow> instant \<Rightarrow> int" where
  "secondsUntil at now = max 1 (ceil_div (at - now) 1000)"

definition utcHour :: "instant \<Rightarrow> instant" where
  "utcHour at = at - at mod HOUR_MS"

text \<open>Noon of a day, the instant a reservation takes when only its day is known.\<close>

definition noon_of :: "int \<Rightarrow> instant" where
  "noon_of day = day * DAY_MS + 12 * HOUR_MS"

lemma windowStartDay_eq: "windowStartDay days at = utcDay at - (days - 1)"
proof -
  have "at - (days - 1) * DAY_MS = at + (- (days - 1)) * DAY_MS" by (simp add: algebra_simps)
  then show ?thesis
    unfolding windowStartDay_def utcDay_def by (simp add: DAY_MS_def)
qed

lemma utcDay_bounds: "utcDay at * DAY_MS \<le> at" "at < (utcDay at + 1) * DAY_MS"
proof -
  have "at = utcDay at * DAY_MS + at mod DAY_MS" by (simp add: utcDay_def)
  moreover have "0 \<le> at mod DAY_MS" "at mod DAY_MS < DAY_MS" by (simp_all add: DAY_MS_def)
  ultimately show "utcDay at * DAY_MS \<le> at" "at < (utcDay at + 1) * DAY_MS"
    by (simp_all add: distrib_right)
qed

lemma nextUtcDayStart_eq: "nextUtcDayStart at = (utcDay at + 1) * DAY_MS"
  using mult_div_mod_eq [of DAY_MS at]
  by (simp add: nextUtcDayStart_def utcDay_def algebra_simps)

lemma utcDay_nextUtcDayStart: "utcDay (nextUtcDayStart at) = utcDay at + 1"
  by (simp add: nextUtcDayStart_eq utcDay_def DAY_MS_def)

lemma utcDay_mono: "a \<le> b \<Longrightarrow> utcDay a \<le> utcDay b"
  by (simp add: utcDay_def DAY_MS_def zdiv_mono1)

lemma utcDay_noon_of [simp]: "utcDay (noon_of d) = d"
proof -
  have "noon_of d = 43200000 + d * DAY_MS" by (simp add: noon_of_def HOUR_MS_def)
  then show ?thesis unfolding utcDay_def by (simp add: DAY_MS_def)
qed

lemma secondsUntil_pos: "1 \<le> secondsUntil at now"
  by (simp add: secondsUntil_def)

text \<open>A client that waits the announced seconds is past the instant, and no second longer than needed.\<close>

lemma secondsUntil_covers: "at \<le> now + 1000 * secondsUntil at now"
  using ceil_div_bounds(1) [of 1000 "at - now"] by (simp add: secondsUntil_def max_def)

lemma secondsUntil_tight: "now < at \<Longrightarrow> 1000 * secondsUntil at now < at - now + 1000"
  using ceil_div_bounds(2) [of 1000 "at - now"] by (simp add: secondsUntil_def max_def)

section \<open>The Gregorian calendar\<close>

text \<open>Days before the first of the month with index \<open>M\<close> (\<open>12 * year + month\<close>, from March of year 0).\<close>

definition year_start :: "int \<Rightarrow> int" where
  "year_start y = 365 * y + y div 4 - y div 100 + y div 400 - 719468"

definition month_offset :: "int \<Rightarrow> int" where
  "month_offset m = (153 * m + 2) div 5"

definition month_start :: "int \<Rightarrow> int" where
  "month_start M = year_start (M div 12) + month_offset (M mod 12)"

text \<open>The year of a day, by 400-, 100-, 4- and 1-year cycles.\<close>

definition year_of_day :: "int \<Rightarrow> int" where
  "year_of_day n =
     (let z = n + 719468;
          era = z div 146097; doe = z mod 146097;
          c = min 3 (doe div 36524); doc = doe - c * 36524;
          q = doc div 1461; doq = doc mod 1461;
          a = min 3 (doq div 365)
      in 400 * era + 100 * c + 4 * q + a)"

definition month_of_day :: "int \<Rightarrow> int" where
  "month_of_day n =
     (let y = year_of_day n in 12 * y + (5 * (n - year_start y) + 2) div 153)"

definition getUTCFullYear :: "instant \<Rightarrow> int" where
  "getUTCFullYear t = (month_of_day (utcDay t) + 2) div 12"

definition getUTCMonth :: "instant \<Rightarrow> int" where
  "getUTCMonth t = (month_of_day (utcDay t) + 2) mod 12"

definition getUTCDate :: "instant \<Rightarrow> int" where
  "getUTCDate t = utcDay t - month_start (month_of_day (utcDay t)) + 1"

text \<open>
  \<open>Date.UTC(year, month, date)\<close> and \<open>setUTCMonth\<close>: a month past 11 carries into the
  year, a date past the end of the month carries into the next month.
\<close>

definition make_day :: "int \<Rightarrow> int \<Rightarrow> int \<Rightarrow> int" where
  "make_day y m d = month_start (12 * y + m - 2) + d - 1"

definition date_UTC :: "int \<Rightarrow> int \<Rightarrow> int \<Rightarrow> instant" where
  "date_UTC y m d = make_day y m d * DAY_MS"

definition setUTCMonth :: "instant \<Rightarrow> int \<Rightarrow> instant" where
  "setUTCMonth t m = make_day (getUTCFullYear t) m (getUTCDate t) * DAY_MS + t mod DAY_MS"

lemma clamped_quotient:
  fixes x k :: int
  assumes "0 < k" "0 \<le> x" "x \<le> 4 * k"
  shows "0 \<le> min 3 (x div k)" and "min 3 (x div k) \<le> 3"
    and "0 \<le> x - k * min 3 (x div k)" and "x - k * min 3 (x div k) \<le> k"
    and "min 3 (x div k) < 3 \<longrightarrow> x - k * min 3 (x div k) < k"
proof -
  define d where "d = x div k"
  have b: "k * d \<le> x" "x < k * d + k" using div_bounds [OF assms(1), of x] by (simp_all add: d_def)
  have d: "0 \<le> d" using assms by (simp add: d_def pos_imp_zdiv_nonneg_iff)
  have m: "3 \<le> d \<Longrightarrow> k * 3 \<le> k * d" using assms(1) by (simp add: mult_left_mono)
  show "0 \<le> min 3 (x div k)" "min 3 (x div k) \<le> 3" using d by (simp_all add: d_def)
  show "0 \<le> x - k * min 3 (x div k)" "x - k * min 3 (x div k) \<le> k"
    "min 3 (x div k) < 3 \<longrightarrow> x - k * min 3 (x div k) < k"
    using b m assms unfolding d_def [symmetric] by (cases "d < 3"; simp add: min_def; linarith)+
qed

lemma year_of_day_bounds:
  "year_start (year_of_day n) \<le> n \<and> n < year_start (year_of_day n + 1)"
proof -
  define z where "z = n + 719468"
  define era where "era = z div 146097"
  define doe where "doe = z mod 146097"
  define c where "c = min 3 (doe div 36524)"
  define doc where "doc = doe - c * 36524"
  define q where "q = doc div 1461"
  define doq where "doq = doc mod 1461"
  define a where "a = min 3 (doq div 365)"
  define r where "r = 100 * c + 4 * q + a"
  have y: "year_of_day n = 400 * era + r"
    unfolding r_def a_def doq_def q_def doc_def c_def doe_def era_def z_def year_of_day_def Let_def
    by (simp only: add.assoc)
  have doe: "0 \<le> doe" "doe < 146097" by (simp_all add: doe_def)
  then have c: "0 \<le> c" "c \<le> 3" "0 \<le> doc" "doc \<le> 36524" "c < 3 \<longrightarrow> doc < 36524"
    using clamped_quotient [of 36524 doe] by (simp_all add: c_def doc_def mult.commute)
  have doc: "doc = 1461 * q + doq" and doq0: "0 \<le> doq" "doq < 1461"
    by (simp_all add: q_def doq_def)
  then have doq0': "doq \<le> 4 * 365" by simp
  have q: "0 \<le> q" "q \<le> 24" and doq: "c < 3 \<and> q = 24 \<longrightarrow> doq < 1460"
    using c doc doq0 by linarith+
  have a: "0 \<le> a" "a \<le> 3" "365 * a \<le> doq" "doq \<le> 365 * a + 365" "a < 3 \<longrightarrow> doq < 365 * a + 365"
    using clamped_quotient [OF _ _ doq0', folded a_def] doq0(1) by linarith+
  have "z = 146097 * era + doe" by (simp add: era_def doe_def)
  then have n: "n = 146097 * era + 36524 * c + 1461 * q + doq - 719468"
    using doc by (simp add: z_def doc_def)
  have r: "0 \<le> r" "r \<le> 399" "r = 399 \<longleftrightarrow> a = 3 \<and> q = 24 \<and> c = 3"
    using a c q by (simp_all add: r_def) linarith+
  have d4: "(400 * era + r) div 4 = 100 * era + 25 * c + q"
    and d100: "(400 * era + r) div 100 = 4 * era + c"
    and d400: "(400 * era + r) div 400 = era"
    using a c q by (intro div_eqI; simp add: r_def)+
  have m4: "(400 * era + r) mod 4 = a"
    and m100: "(400 * era + r) mod 100 = 4 * q + a"
    and m400: "(400 * era + r) mod 400 = r"
    unfolding minus_mult_div_eq_mod [symmetric] d4 d100 d400 by (simp_all add: r_def)
  have s: "year_start (400 * era + r) = 146097 * era + 36524 * c + 1461 * q + 365 * a - 719468"
    unfolding year_start_def d4 d100 d400 by (simp add: r_def)
  define N where "N = 400 * era + r"
  have "4 * q + a = 99 \<longleftrightarrow> a = 3 \<and> q = 24" using a q by linarith
  then have e: "(N + 1) div 4 = N div 4 + (if a = 3 then 1 else 0)"
    "(N + 1) div 100 = N div 100 + (if a = 3 \<and> q = 24 then 1 else 0)"
    "(N + 1) div 400 = N div 400 + (if a = 3 \<and> q = 24 \<and> c = 3 then 1 else 0)"
    using div_mod_succ(1) [of 4 N] div_mod_succ(1) [of 100 N] div_mod_succ(1) [of 400 N]
    unfolding N_def m4 m100 m400 using r(3) by presburger+
  have t: "year_start (N + 1) = year_start N + 365 + (if a = 3 \<and> (q < 24 \<or> c = 3) then 1 else 0)"
  proof -
    define D4 D100 D400 where "D4 = N div 4" and "D100 = N div 100" and "D400 = N div 400"
    show ?thesis
      unfolding year_start_def e D4_def [symmetric] D100_def [symmetric] D400_def [symmetric]
      using q(2) by (cases "a = 3"; cases "q = 24"; cases "c = 3") simp_all
  qed
  have off: "n - year_start N = doq - 365 * a" using s n unfolding N_def by linarith
  have "doq - 365 * a < 365 \<or> a = 3 \<and> (q < 24 \<or> c = 3)" using a q c doq by linarith
  then have "doq - 365 * a < year_start (N + 1) - year_start N"
    unfolding t using a(4) by (smt (verit))
  with off a(3) show ?thesis unfolding y N_def [symmetric] by linarith
qed

text \<open>A year has 365 or 366 days, the lengths of its months follow the table of the calendar.\<close>

lemma year_length: "year_start (y + 1) - year_start y \<in> {365, 366}"
proof -
  define D4 D100 D400 where "D4 = y div 4" and "D100 = y div 100" and "D400 = y div 400"
  define m4 m100 m400 where "m4 = y mod 4" and "m100 = y mod 100" and "m400 = y mod 400"
  have "m4 = m100 mod 4" "m100 = m400 mod 100"
    unfolding m4_def m100_def m400_def by (rule mod_mod_cancel [symmetric], simp)+
  then have m: "m100 = 99 \<Longrightarrow> m4 = 3" "m400 = 399 \<Longrightarrow> m100 = 99" by simp_all
  have d: "(y + 1) div 4 = (if m4 = 3 then D4 + 1 else D4)"
    "(y + 1) div 100 = (if m100 = 99 then D100 + 1 else D100)"
    "(y + 1) div 400 = (if m400 = 399 then D400 + 1 else D400)"
    unfolding m4_def m100_def m400_def D4_def D100_def D400_def
    using div_mod_succ(1) [of 4 y] div_mod_succ(1) [of 100 y] div_mod_succ(1) [of 400 y]
    by presburger+
  show ?thesis
    unfolding year_start_def d D4_def [symmetric] D100_def [symmetric] D400_def [symmetric]
    using m by (cases "m4 = 3"; cases "m100 = 99"; cases "m400 = 399") auto
qed

lemma month_offset_step:
  assumes "0 \<le> m" "m < 11"
  shows "month_offset (m + 1) - month_offset m \<in> {30, 31}"
proof -
  have "m = 0 \<or> m = 1 \<or> m = 2 \<or> m = 3 \<or> m = 4 \<or> m = 5 \<or> m = 6 \<or> m = 7 \<or> m = 8 \<or> m = 9 \<or> m = 10"
    using assms by arith
  then show ?thesis by (elim disjE) (simp_all add: month_offset_def)
qed

lemma month_length: "month_start (M + 1) - month_start M \<in> {28, 29, 30, 31}"
proof (cases "M mod 12 = 11")
  case True
  then show ?thesis
    using year_length [of "M div 12"] div_mod_succ [of 12 M]
    by (auto simp: month_start_def month_offset_def)
next
  case False
  have "0 \<le> M mod 12" "M mod 12 < 12" by simp_all
  with False have "0 \<le> M mod 12" "M mod 12 < 11" by linarith+
  then show ?thesis
    using month_offset_step [of "M mod 12"] div_mod_succ [of 12 M] False
    by (auto simp: month_start_def)
qed

lemma month_of_day_bounds:
  "month_start (month_of_day n) \<le> n \<and> n < month_start (month_of_day n + 1)"
proof -
  define y where "y = year_of_day n"
  define doy where "doy = n - year_start y"
  define m where "m = (5 * doy + 2) div 153"
  have doy: "0 \<le> doy" "doy < year_start (y + 1) - year_start y" "doy \<le> 365"
    using year_of_day_bounds [of n] year_length [of y] by (auto simp: doy_def y_def)
  have m: "0 \<le> m" "m \<le> 11" "153 * m \<le> 5 * doy + 2" "5 * doy + 2 < 153 * m + 153"
    using div_bounds [of 153 "5 * doy + 2"] doy by (auto simp: m_def)
  have M: "month_of_day n = 12 * y + m"
    by (simp add: month_of_day_def Let_def y_def doy_def m_def)
  have lo: "month_start (12 * y + m) = year_start y + month_offset m"
    using m by (simp add: month_start_def)
  have off: "month_offset m \<le> doy" "m < 11 \<longrightarrow> doy < month_offset (m + 1)"
    using m div_bounds [of 5 "153 * m + 2"] div_bounds [of 5 "153 * (m + 1) + 2"]
    unfolding month_offset_def by (auto simp: algebra_simps)
  show ?thesis
  proof (cases "m = 11")
    case True
    have "month_start (12 * y + m + 1) = year_start (y + 1)"
      using div_mod_succ [of 12 "12 * y + m"] True
      by (simp add: month_start_def month_offset_def add.commute)
    then show ?thesis using lo off doy M by (simp add: doy_def)
  next
    case False
    have "month_start (12 * y + m + 1) = year_start y + month_offset (m + 1)"
      using div_mod_succ [of 12 "12 * y + m"] False m by (simp add: month_start_def)
    then show ?thesis using lo off doy M False m by (simp add: doy_def)
  qed
qed

lemma getUTCDate_bounds: "1 \<le> getUTCDate t \<and> getUTCDate t \<le> 31"
  using month_of_day_bounds [of "utcDay t"] month_length [of "month_of_day (utcDay t)"]
  by (auto simp: getUTCDate_def)

lemma getUTC_month_index: "12 * getUTCFullYear t + getUTCMonth t - 2 = month_of_day (utcDay t)"
  by (simp add: getUTCFullYear_def getUTCMonth_def)

text \<open>\<open>Date.UTC\<close> of the fields of an instant gives its day back.\<close>

lemma make_day_fields: "make_day (getUTCFullYear t) (getUTCMonth t) (getUTCDate t) = utcDay t"
  unfolding make_day_def getUTC_month_index by (simp add: getUTCDate_def)

lemma date_UTC_first_le: "date_UTC (getUTCFullYear t) (getUTCMonth t) 1 \<le> t"
proof -
  have "make_day (getUTCFullYear t) (getUTCMonth t) 1 \<le> utcDay t"
    unfolding make_day_def getUTC_month_index using month_of_day_bounds by simp
  then show ?thesis using utcDay_bounds(1) [of t] by (simp add: date_UTC_def DAY_MS_def)
qed

text \<open>Adding a month moves an instant by the length of the month it is in: 28 to 31 days.\<close>

lemma setUTCMonth_next:
  "setUTCMonth t (getUTCMonth t + 1) - t
   = (month_start (month_of_day (utcDay t) + 1) - month_start (month_of_day (utcDay t))) * DAY_MS"
proof -
  have "12 * getUTCFullYear t + (getUTCMonth t + 1) - 2 = month_of_day (utcDay t) + 1"
    using getUTC_month_index [of t] by simp
  then have "make_day (getUTCFullYear t) (getUTCMonth t + 1) (getUTCDate t)
      = month_start (month_of_day (utcDay t) + 1) + utcDay t - month_start (month_of_day (utcDay t))"
    unfolding make_day_def getUTCDate_def by (simp only:)
  then have "setUTCMonth t (getUTCMonth t + 1)
      = (month_start (month_of_day (utcDay t) + 1) + utcDay t
          - month_start (month_of_day (utcDay t))) * DAY_MS + t mod DAY_MS"
    by (simp only: setUTCMonth_def)
  moreover have "utcDay t * DAY_MS = t - t mod DAY_MS"
    by (simp add: utcDay_def minus_mod_eq_div_mult)
  ultimately show ?thesis by (simp only: left_diff_distrib distrib_right)
qed

lemma setUTCMonth_next_bounds:
  "t + 28 * DAY_MS \<le> setUTCMonth t (getUTCMonth t + 1)"
  "setUTCMonth t (getUTCMonth t + 1) \<le> t + 31 * DAY_MS"
  using month_length [of "month_of_day (utcDay t)"] setUTCMonth_next [of t]
  by (auto simp: DAY_MS_def)

text \<open>The first of a month plus one month is the first of the next month.\<close>

lemma month_of_day_start [simp]: "month_of_day (month_start M) = M"
proof (rule ccontr)
  define M' where "M' = month_of_day (month_start M)"
  have mono: "month_start K \<le> month_start (K + d)" if "0 \<le> d" for K d
    using that
  proof (induction d rule: int_ge_induct)
    case base show ?case by simp
  next
    case (step i)
    then show ?case using month_length [of "K + i"] by (auto simp: add.assoc)
  qed
  assume "month_of_day (month_start M) \<noteq> M"
  then have "M' \<noteq> M" by (simp add: M'_def)
  have b: "month_start M' \<le> month_start M" "month_start M < month_start (M' + 1)"
    using month_of_day_bounds [of "month_start M"] by (simp_all add: M'_def)
  show False
  proof (cases "M' < M")
    case True
    then show ?thesis using b mono [of "M - (M' + 1)" "M' + 1"] by simp
  next
    case False
    with \<open>M' \<noteq> M\<close> have "M < M'" by simp
    then show ?thesis using b mono [of "M' - (M + 1)" "M + 1"] month_length [of M] by auto
  qed
qed

lemma first_of_month_next:
  assumes "s = date_UTC (getUTCFullYear t) (getUTCMonth t) 1"
  shows "t < setUTCMonth s (getUTCMonth s + 1)"
proof -
  let ?M = "month_of_day (utcDay t)"
  have s: "s = month_start ?M * DAY_MS"
    unfolding assms date_UTC_def make_day_def getUTC_month_index by simp
  then have "utcDay s = month_start ?M" by (simp add: utcDay_def DAY_MS_def)
  then have "setUTCMonth s (getUTCMonth s + 1) = month_start (?M + 1) * DAY_MS"
    using setUTCMonth_next [of s] s by (simp add: algebra_simps)
  moreover have "utcDay t + 1 \<le> month_start (?M + 1)"
    using month_of_day_bounds [of "utcDay t"] by simp
  then have "(utcDay t + 1) * DAY_MS \<le> month_start (?M + 1) * DAY_MS"
    by (simp add: DAY_MS_def)
  ultimately show ?thesis using utcDay_bounds(2) [of t] by simp
qed

end
