(* ===== verification/Plans.thy ===== *)
theory Plans
  imports JsDate
begin

text \<open>
  \<open>packages/core/src/plans.ts\<close>: the plan ladder, the plan in force (\<open>effectivePlan\<close>),
  the billing period, and \<open>teamQuota\<close>, the cap every send surface derives from a team row.
  A \<open>throw\<close> is \<open>None\<close>. \<open>null\<close> and \<open>undefined\<close> of an optional column are both
  \<open>None\<close>: the code treats them alike (\<open>?? null\<close>, \<open>== null\<close>). The price labels
  (\<open>formatVolume\<close>, \<open>planLabel\<close>, \<open>monthlyQuotaMessage\<close>) are display text and not modelled.
\<close>

section \<open>Plans and the ladder\<close>

datatype plan = FreePlan | Starter | Pro | Scale | System

datatype plan_status =
  SNone | SActive | STrialing | SPastDue | SUnpaid | SCanceled | SIncomplete

definition PLAN_GRACE_DAYS :: int where [consts_defs]: "PLAN_GRACE_DAYS = 7"

definition effectivePlan :: "plan \<Rightarrow> instant option \<Rightarrow> instant \<Rightarrow> plan" where
  "effectivePlan plan currentPeriodEnd now =
     (case currentPeriodEnd of
        None \<Rightarrow> plan
      | Some e \<Rightarrow>
          if plan = FreePlan \<or> plan = System then plan
          else if e + PLAN_GRACE_DAYS * DAY_MS < now then FreePlan else plan)"

definition paidPlan :: "plan \<Rightarrow> bool \<Rightarrow> bool" where
  "paidPlan plan isCloud \<longleftrightarrow> \<not> isCloud \<or> plan \<noteq> FreePlan"

definition planCanHidePoweredBy :: "plan \<Rightarrow> bool" where
  "planCanHidePoweredBy plan \<longleftrightarrow> plan \<noteq> FreePlan"

datatype rung_period = PDay | PMonth

record rung =
  rung_key :: string
  rung_plan :: plan
  rung_included :: int
  rung_period :: rung_period
  rung_priceCents :: int
  rung_overageCentsPer1k :: "int option"

definition mk_rung :: "string \<Rightarrow> plan \<Rightarrow> int \<Rightarrow> rung_period \<Rightarrow> int \<Rightarrow> int option \<Rightarrow> rung" where
  "mk_rung k p i d c ov = \<lparr>rung_key = k, rung_plan = p, rung_included = i, rung_period = d,
     rung_priceCents = c, rung_overageCentsPer1k = ov\<rparr>"

definition PLAN_RUNGS :: "rung list" where
  "PLAN_RUNGS =
     [mk_rung ''free'' FreePlan 100 PDay 0 None,
      mk_rung ''starter'' Starter 1500 PDay 900 None,
      mk_rung ''pro_100k'' Pro 100000 PMonth 2000 (Some 30),
      mk_rung ''pro_200k'' Pro 200000 PMonth 3500 (Some 30),
      mk_rung ''scale_500k'' Scale 500000 PMonth 7500 (Some 25),
      mk_rung ''scale_1m'' Scale 1000000 PMonth 14000 (Some 20),
      mk_rung ''scale_1_5m'' Scale 1500000 PMonth 20000 (Some 18),
      mk_rung ''scale_2_5m'' Scale 2500000 PMonth 33000 (Some 16)]"

definition PLAN_RUNG_KEYS :: "string list" where
  "PLAN_RUNG_KEYS = map rung_key PLAN_RUNGS"

definition PAID_RUNGS :: "rung list" where
  "PAID_RUNGS = filter (\<lambda>r. 0 < rung_priceCents r) PLAN_RUNGS"

definition isPlanRungKey :: "string \<Rightarrow> bool" where
  "isPlanRungKey v \<longleftrightarrow> v \<in> set PLAN_RUNG_KEYS"

definition rungByKey :: "string \<Rightarrow> rung option" where
  "rungByKey key = List.find (\<lambda>r. rung_key r = key) PLAN_RUNGS"

definition teamRung :: "plan \<Rightarrow> int option \<Rightarrow> rung option" where
  "teamRung plan planQuota =
     (case filter (\<lambda>r. rung_plan r = plan) PLAN_RUNGS of
        [] \<Rightarrow> None
      | first # rest \<Rightarrow>
          (case List.find (\<lambda>r. rung_period r = PMonth \<and> Some (rung_included r) = planQuota)
             (first # rest) of
             Some r \<Rightarrow> Some r
           | None \<Rightarrow> Some first))"

section \<open>The cap of a team\<close>

text \<open>\<open>QUOTA_TOLERANCE\<close> is one half, kept as a fraction so that the arithmetic is exact.\<close>

definition QUOTA_TOLERANCE_num :: int where [consts_defs]: "QUOTA_TOLERANCE_num = 1"
definition QUOTA_TOLERANCE_den :: int where [consts_defs]: "QUOTA_TOLERANCE_den = 2"
definition FREE_BURST :: int where [consts_defs]: "FREE_BURST = 10"
definition FREE_BURST_REFILL_MS :: int where [consts_defs]: "FREE_BURST_REFILL_MS = 6 * 60000"
definition FREE_BURST_WINDOW_MS :: int where
  [consts_defs]: "FREE_BURST_WINDOW_MS = FREE_BURST * FREE_BURST_REFILL_MS"
definition OVERAGE_HARD_CAP :: int where [consts_defs]: "OVERAGE_HARD_CAP = 5"

record team_row =
  tr_plan :: plan
  tr_planQuota :: "int option"
  tr_planStatus :: plan_status
  tr_currentPeriodStart :: "instant option"
  tr_currentPeriodEnd :: "instant option"
  tr_overageEnabled :: bool
  tr_dailySendCeiling :: "int option"
  tr_poolOwnerId :: "ident option"

text \<open>\<open>team.poolOwnerId && ...\<close>: an empty owner id is falsy and counts as none.\<close>

definition freePoolOwner :: "team_row \<Rightarrow> instant \<Rightarrow> ident option" where
  "freePoolOwner team now =
     (case tr_poolOwnerId team of
        None \<Rightarrow> None
      | Some owner \<Rightarrow>
          if owner \<noteq> [] \<and> effectivePlan (tr_plan team) (tr_currentPeriodEnd team) now = FreePlan
          then Some owner else None)"

record daily_pool =
  dp_ownerId :: ident
  dp_limit :: int

datatype team_quota =
  QNone
| QDay (qd_plan: plan) (qd_limit: int) (qd_ceiling: "int option") (qd_pool: "daily_pool option")
| QMonth (qm_plan: plan) (qm_included: int) (qm_periodStart: instant) (qm_periodEnd: instant)
    (qm_overage: bool) (qm_overagePaused: bool) (qm_overageCentsPer1k: int)
    (qm_ceiling: "int option")

definition addUtcMonth :: "instant \<Rightarrow> instant" where
  "addUtcMonth date = setUTCMonth date (getUTCMonth date + 1)"

definition quotaPeriod :: "instant option \<Rightarrow> instant option \<Rightarrow> instant \<Rightarrow> instant \<times> instant" where
  "quotaPeriod start end now =
     (case end of
        Some e \<Rightarrow>
          if e \<le> now then (e, addUtcMonth e)
          else (case start of Some s \<Rightarrow> (s, e)
                | None \<Rightarrow> (let m = date_UTC (getUTCFullYear now) (getUTCMonth now) 1
                          in (m, addUtcMonth m)))
      | None \<Rightarrow>
          (case start of Some s \<Rightarrow> (s, addUtcMonth s)
           | None \<Rightarrow> (let m = date_UTC (getUTCFullYear now) (getUTCMonth now) 1
                     in (m, addUtcMonth m))))"

definition planQuota :: "team_row \<Rightarrow> bool \<Rightarrow> instant \<Rightarrow> team_quota option" where
  "planQuota team isCloud now =
     (if \<not> isCloud then Some QNone
      else
        let plan = effectivePlan (tr_plan team) (tr_currentPeriodEnd team) now in
        if plan = System then Some QNone
        else (case teamRung plan (if plan = tr_plan team then tr_planQuota team else None) of
                None \<Rightarrow> None
              | Some rung \<Rightarrow>
                  if rung_period rung = PDay then
                    Some (QDay plan (rung_included rung) None
                      (case freePoolOwner team now of
                         None \<Rightarrow> None
                       | Some ownerId \<Rightarrow> Some \<lparr>dp_ownerId = ownerId, dp_limit = rung_included rung\<rparr>))
                  else
                    let period = quotaPeriod (tr_currentPeriodStart team) (tr_currentPeriodEnd team) now;
                        paused = tr_overageEnabled team \<and> tr_planStatus team = SPastDue
                    in Some (QMonth plan (rung_included rung) (fst period) (snd period)
                         (tr_overageEnabled team \<and> \<not> paused) paused
                         (case rung_overageCentsPer1k rung of None \<Rightarrow> 0 | Some c \<Rightarrow> c) None)))"

definition withCeiling :: "team_quota \<Rightarrow> plan \<Rightarrow> int option \<Rightarrow> team_quota" where
  "withCeiling quota plan ceiling =
     (case ceiling of
        None \<Rightarrow> quota
      | Some c \<Rightarrow>
          if plan = System then quota
          else (case quota of
                  QNone \<Rightarrow> QDay plan c (Some c) None
                | QDay p l _ pool \<Rightarrow> QDay p (min l c) (Some c) pool
                | QMonth p i s e ov paused cents _ \<Rightarrow> QMonth p i s e ov paused cents (Some c)))"

definition teamQuota :: "team_row \<Rightarrow> bool \<Rightarrow> instant \<Rightarrow> team_quota option" where
  "teamQuota team isCloud now =
     map_option (\<lambda>q. withCeiling q (tr_plan team) (tr_dailySendCeiling team))
       (planQuota team isCloud now)"

definition monthlyCapacity :: "team_quota \<Rightarrow> jsnum" where
  "monthlyCapacity quota =
     (case quota of
        QNone \<Rightarrow> PInf
      | QDay _ limit _ _ \<Rightarrow> Fin (limit * 30)
      | QMonth _ included _ _ overage _ _ ceiling \<Rightarrow>
          (let period = (if overage then included * OVERAGE_HARD_CAP else included)
           in case ceiling of None \<Rightarrow> Fin period | Some c \<Rightarrow> Fin (min period (c * 30))))"

definition raisesQuota :: "team_quota \<Rightarrow> team_quota \<Rightarrow> bool" where
  "raisesQuota before after \<longleftrightarrow> monthlyCapacity before < monthlyCapacity after"

fun PLAN_TEAM_LIMIT :: "plan \<Rightarrow> jsnum" where
  "PLAN_TEAM_LIMIT FreePlan = Fin 3"
| "PLAN_TEAM_LIMIT Starter = Fin 5"
| "PLAN_TEAM_LIMIT Pro = Fin 10"
| "PLAN_TEAM_LIMIT Scale = Fin 15"
| "PLAN_TEAM_LIMIT System = PInf"

fun PLAN_DOMAIN_LIMIT :: "plan \<Rightarrow> int option" where
  "PLAN_DOMAIN_LIMIT FreePlan = Some 3"
| "PLAN_DOMAIN_LIMIT Starter = Some 10"
| "PLAN_DOMAIN_LIMIT Pro = None"
| "PLAN_DOMAIN_LIMIT Scale = None"
| "PLAN_DOMAIN_LIMIT System = None"

fun DOMAIN_CREATES_PER_HOUR :: "plan \<Rightarrow> int" where
  "DOMAIN_CREATES_PER_HOUR Scale = 100"
| "DOMAIN_CREATES_PER_HOUR _ = 10"

fun PLAN_CONTACT_LIMIT :: "plan \<Rightarrow> int option" where
  "PLAN_CONTACT_LIMIT FreePlan = Some 1000"
| "PLAN_CONTACT_LIMIT _ = None"

section \<open>Lemmas\<close>

lemmas rung_table = PLAN_RUNGS_def mk_rung_def

lemma PLAN_RUNGS_distinct_keys: "distinct PLAN_RUNG_KEYS"
  by (simp add: PLAN_RUNG_KEYS_def rung_table)

lemma teamRung_None_iff: "teamRung plan q = None \<longleftrightarrow> plan = System"
  by (cases plan) (auto simp: teamRung_def rung_table split: option.splits)

lemma teamRung_in_ladder:
  "teamRung plan q = Some r \<Longrightarrow> r \<in> set PLAN_RUNGS \<and> rung_plan r = plan"
proof (cases "filter (\<lambda>r. rung_plan r = plan) PLAN_RUNGS")
  case Nil
  then show "teamRung plan q = Some r \<Longrightarrow> ?thesis" by (simp add: teamRung_def)
next
  case (Cons f rest)
  assume "teamRung plan q = Some r"
  with Cons have "r = f \<or> List.find (\<lambda>r. rung_period r = PMonth \<and> Some (rung_included r) = q) (f # rest) = Some r"
    by (simp add: teamRung_def del: find.simps split: option.splits)
  then have "r \<in> set (f # rest)" by (auto simp del: find.simps dest: find_Some_set)
  then have "r \<in> set (filter (\<lambda>r. rung_plan r = plan) PLAN_RUNGS)" by (simp only: Cons)
  then show ?thesis by simp
qed

lemma effectivePlan_cases:
  "effectivePlan plan e now = plan \<or> effectivePlan plan e now = FreePlan"
  by (auto simp: effectivePlan_def split: option.splits)

lemma effectivePlan_System [simp]: "effectivePlan plan e now = System \<longleftrightarrow> plan = System"
  by (auto simp: effectivePlan_def split: option.splits)

lemma addUtcMonth_bounds: "d + 28 * DAY_MS \<le> addUtcMonth d" "addUtcMonth d \<le> d + 31 * DAY_MS"
  using setUTCMonth_next_bounds [of d] by (simp_all add: addUtcMonth_def)

lemma calendar_month_contains:
  "date_UTC (getUTCFullYear now) (getUTCMonth now) 1 \<le> now
   \<and> now < addUtcMonth (date_UTC (getUTCFullYear now) (getUTCMonth now) 1)"
  using date_UTC_first_le [of now] first_of_month_next [OF refl, of now]
  by (simp add: addUtcMonth_def)

lemma rung_bounds:
  "r \<in> set PLAN_RUNGS \<Longrightarrow> 100 \<le> rung_included r \<and> (rung_period r = PMonth \<longleftrightarrow> rung_overageCentsPer1k r \<noteq> None)"
  by (auto simp: rung_table)

lemma rung_period_of_plan:
  "r \<in> set PLAN_RUNGS \<Longrightarrow> rung_period r = PDay \<longleftrightarrow> rung_plan r \<in> {FreePlan, Starter}"
  by (auto simp: rung_table)

lemma planQuota_cases:
  assumes "planQuota team isCloud now = Some q"
  obtains "q = QNone" "\<not> isCloud \<or> tr_plan team = System"
  | p l pool where "q = QDay p l None pool" "isCloud" "tr_plan team \<noteq> System"
      "p = effectivePlan (tr_plan team) (tr_currentPeriodEnd team) now" "100 \<le> l"
      "pool = map_option (\<lambda>ow. \<lparr>dp_ownerId = ow, dp_limit = l\<rparr>) (freePoolOwner team now)"
  | p i s e ov pa c where "q = QMonth p i s e ov pa c None" "isCloud" "tr_plan team \<noteq> System"
      "p = effectivePlan (tr_plan team) (tr_currentPeriodEnd team) now" "p \<noteq> FreePlan" "100 \<le> i"
      "(s, e) = quotaPeriod (tr_currentPeriodStart team) (tr_currentPeriodEnd team) now"
proof -
  let ?p = "effectivePlan (tr_plan team) (tr_currentPeriodEnd team) now"
  consider "\<not> isCloud" | "?p = System" | r where "isCloud" "?p \<noteq> System"
      "teamRung ?p (if ?p = tr_plan team then tr_planQuota team else None) = Some r"
    using teamRung_None_iff by fastforce
  then show thesis
  proof cases
    case 1
    then show thesis using assms that(1) by (simp add: planQuota_def)
  next
    case 2
    then show thesis using assms that(1) by (auto simp: planQuota_def split: if_splits)
  next
    case 3
    note r = teamRung_in_ladder [OF 3(3)]
    have ns: "tr_plan team \<noteq> System" using 3(2) by simp
    note b = rung_bounds [OF r [THEN conjunct1]] rung_period_of_plan [OF r [THEN conjunct1]]
    show thesis
    proof (cases "rung_period r = PDay")
      case True
      then have q: "q = QDay ?p (rung_included r) None
          (map_option (\<lambda>ow. \<lparr>dp_ownerId = ow, dp_limit = rung_included r\<rparr>) (freePoolOwner team now))"
        using assms 3 ns by (simp add: planQuota_def Let_def map_option_case)
      show thesis by (rule that(2) [OF q 3(1) ns refl _ refl]) (use b in simp)
    next
      case False
      have pf: "?p \<noteq> FreePlan" using False b r by auto
      let ?per = "quotaPeriod (tr_currentPeriodStart team) (tr_currentPeriodEnd team) now"
      let ?paused = "tr_overageEnabled team \<and> tr_planStatus team = SPastDue"
      have q: "q = QMonth ?p (rung_included r) (fst ?per) (snd ?per)
          (tr_overageEnabled team \<and> \<not> ?paused) ?paused
          (case rung_overageCentsPer1k r of None \<Rightarrow> 0 | Some c \<Rightarrow> c) None"
        using assms 3 ns False by (simp add: planQuota_def Let_def)
      show thesis by (rule that(3) [OF q 3(1) ns refl pf]) (use b in simp_all)
    qed
  qed
qed

lemma planQuota_total: "\<exists>q. planQuota team isCloud now = Some q"
  using teamRung_None_iff by (auto simp: planQuota_def Let_def split: option.splits)

fun quota_ceiling :: "team_quota \<Rightarrow> int option" where
  "quota_ceiling QNone = None"
| "quota_ceiling (QDay _ _ c _) = c"
| "quota_ceiling (QMonth _ _ _ _ _ _ _ c) = c"

lemma planQuota_no_ceiling: "planQuota team isCloud now = Some q \<Longrightarrow> quota_ceiling q = None"
  by (erule planQuota_cases) simp_all

lemma monthlyCapacity_withCeiling:
  "quota_ceiling q = None \<Longrightarrow> monthlyCapacity (withCeiling q plan c) \<le> monthlyCapacity q"
  by (cases q) (auto simp: monthlyCapacity_def withCeiling_def Let_def split: option.splits)

lemma monthlyCapacity_ceiling:
  "plan \<noteq> System \<Longrightarrow> monthlyCapacity (withCeiling q plan (Some c)) \<le> Fin (c * 30)"
  by (cases q) (auto simp: monthlyCapacity_def withCeiling_def Let_def)

section \<open>Properties\<close>

text \<open>
  Every team row has a cap (the \<open>throw\<close> of \<open>teamRung\<close> is never reached from
  \<open>teamQuota\<close>), and a send is uncapped only for the instance's own team or on
  self-host with no operator ceiling.
\<close>

theorem teamQuota_total:
  "\<exists>q. teamQuota team isCloud now = Some q
     \<and> (q = QNone \<longleftrightarrow> tr_plan team = System \<or> (\<not> isCloud \<and> tr_dailySendCeiling team = None))"
proof -
  obtain q where q: "planQuota team isCloud now = Some q" using planQuota_total by blast
  then have "q = QNone \<longleftrightarrow> \<not> isCloud \<or> tr_plan team = System"
    by (auto elim!: planQuota_cases)
  then show ?thesis
    using q by (cases q) (auto simp: teamQuota_def withCeiling_def split: option.splits)
qed

text \<open>
  A monthly plan's sends are counted in the billing period that contains the send:
  the recorded period, the one after it once it has ended (a paid plan outlives its
  period by the grace window, less than a month), or the UTC calendar month.
\<close>

theorem quota_period_contains_now:
  assumes "teamQuota team isCloud now = Some (QMonth p i s e ov pa c cl)"
    and "\<And>b. tr_currentPeriodStart team = Some b \<Longrightarrow> b \<le> now \<and> tr_currentPeriodEnd team \<noteq> None"
  shows "s \<le> now \<and> now < e"
proof -
  from assms(1) obtain q where q: "planQuota team isCloud now = Some q"
    and w: "withCeiling q (tr_plan team) (tr_dailySendCeiling team) = QMonth p i s e ov pa c cl"
    by (auto simp: teamQuota_def)
  from w obtain cl' where "q = QMonth p i s e ov pa c cl'"
    by (cases q) (auto simp: withCeiling_def split: option.splits if_splits)
  with q have per: "(s, e) = quotaPeriod (tr_currentPeriodStart team) (tr_currentPeriodEnd team) now"
    and p: "effectivePlan (tr_plan team) (tr_currentPeriodEnd team) now \<noteq> FreePlan"
    by (auto elim: planQuota_cases)
  show ?thesis
  proof (cases "tr_currentPeriodEnd team")
    case None
    then show ?thesis using assms(2) per calendar_month_contains [of now]
      by (auto simp: quotaPeriod_def Let_def split: option.splits)
  next
    case (Some e0)
    have "e0 + 7 * DAY_MS \<ge> now"
      using p Some effectivePlan_System [of "tr_plan team" "Some e0" now] q \<open>q = _\<close>
      by (auto simp: effectivePlan_def PLAN_GRACE_DAYS_def elim!: planQuota_cases split: if_splits)
    then have "now < addUtcMonth e0" using addUtcMonth_bounds(1) [of e0] by (simp add: DAY_MS_def)
    then show ?thesis using per Some assms(2) calendar_month_contains [of now]
      by (auto simp: quotaPeriod_def Let_def split: option.splits if_splits)
  qed
qed

definition example_pro_row :: team_row where
  "example_pro_row = \<lparr>tr_plan = Pro, tr_planQuota = Some 200000, tr_planStatus = SActive,
     tr_currentPeriodStart = Some 1767225600000, tr_currentPeriodEnd = Some 1769904000000,
     tr_overageEnabled = True, tr_dailySendCeiling = Some 5000, tr_poolOwnerId = None\<rparr>"

theorem quota_period_contains_now_witness:
  "\<exists>q. teamQuota example_pro_row True 1770000000000 = Some q
     \<and> qm_periodStart q \<le> 1770000000000 \<and> 1770000000000 < qm_periodEnd q"
proof -
  have q: "teamQuota example_pro_row True 1770000000000
      = Some (QMonth Pro 200000 1769904000000 (addUtcMonth 1769904000000) True False 30 (Some 5000))"
    by (simp add: teamQuota_def planQuota_def example_pro_row_def effectivePlan_def PLAN_GRACE_DAYS_def
        DAY_MS_def teamRung_def rung_table quotaPeriod_def withCeiling_def)
  show ?thesis
    using quota_period_contains_now [OF q] q by (auto simp: example_pro_row_def)
qed

text \<open>
  An operator ceiling never lets more mail through than the plan alone, and a team
  that has one sends at most the ceiling times 30 in a month.
\<close>

theorem operator_ceiling_binds:
  assumes "tr_plan team \<noteq> System"
    and "tr_dailySendCeiling team = Some c"
    and "teamQuota team isCloud now = Some q"
    and "teamQuota (team\<lparr>tr_dailySendCeiling := None\<rparr>) isCloud now = Some q0"
  shows "monthlyCapacity q \<le> min (monthlyCapacity q0) (Fin (c * 30))"
proof -
  have "planQuota (team\<lparr>tr_dailySendCeiling := None\<rparr>) isCloud now = planQuota team isCloud now"
    by (simp add: planQuota_def freePoolOwner_def Let_def cong: if_cong option.case_cong)
  then have q0: "planQuota team isCloud now = Some q0"
    using assms(4) by (simp add: teamQuota_def withCeiling_def)
  with assms(2,3) have "q = withCeiling q0 (tr_plan team) (Some c)" by (simp add: teamQuota_def)
  then show ?thesis
    using monthlyCapacity_withCeiling [OF planQuota_no_ceiling [OF q0]] monthlyCapacity_ceiling [OF assms(1)]
    by simp
qed

theorem operator_ceiling_binds_witness:
  "\<exists>q q0. teamQuota example_pro_row True 1769000000000 = Some q
     \<and> teamQuota (example_pro_row\<lparr>tr_dailySendCeiling := None\<rparr>) True 1769000000000 = Some q0
     \<and> monthlyCapacity q \<le> min (monthlyCapacity q0) (Fin (5000 * 30))"
proof -
  have q: "teamQuota example_pro_row True 1769000000000
      = Some (QMonth Pro 200000 1767225600000 1769904000000 True False 30 (Some 5000))"
    and q0: "teamQuota (example_pro_row\<lparr>tr_dailySendCeiling := None\<rparr>) True 1769000000000
      = Some (QMonth Pro 200000 1767225600000 1769904000000 True False 30 None)"
    by (simp_all add: teamQuota_def planQuota_def example_pro_row_def effectivePlan_def PLAN_GRACE_DAYS_def
        DAY_MS_def teamRung_def rung_table quotaPeriod_def withCeiling_def)
  show ?thesis
    using operator_ceiling_binds [OF _ _ q q0] q q0 by (auto simp: example_pro_row_def)
qed

end
