(* ===== verification/Quota.thy ===== *)
theory Quota
  imports Plans
begin

text \<open>
  \<open>packages/core/src/quota.ts\<close> and \<open>usage-hourly.ts\<close>: reserving and releasing sends
  against a team's caps. The tables are finite maps: the accepted column of
  \<open>usage_counters\<close> by team and day, \<open>free_pool_usage\<close> rows by owner and day,
  \<open>usage_periods\<close> rows by team and period start, \<open>usage_counters_hourly\<close> rows by
  team and hour, \<open>free_pool_bursts\<close> by owner. Each SQL upsert is one atomic \<open>upsert\<close>.
  A thrown error is \<open>None\<close>. The default arguments \<open>new Date()\<close> and \<open>utcDay()\<close> read
  the clock, an argument \<open>now\<close> here.
\<close>

section \<open>Tables\<close>

datatype usage_counter =
  UAccepted | USent | UDelivered | UBounced | UHardBounced | UComplained | UOpened | UClicked
| UPrefetched | UReceived

definition USAGE_COUNTERS :: "usage_counter list" where
  "USAGE_COUNTERS = [UAccepted, USent, UDelivered, UBounced, UHardBounced, UComplained, UOpened,
     UClicked, UPrefetched, UReceived]"

record pool_row =
  pr_accepted :: int
  pr_sent :: int
  pr_sentNoFeedback :: int
  pr_hardBounced :: int
  pr_complained :: int

definition empty_pool_row :: pool_row where
  "empty_pool_row = \<lparr>pr_accepted = 0, pr_sent = 0, pr_sentNoFeedback = 0, pr_hardBounced = 0,
     pr_complained = 0\<rparr>"

record period_row =
  per_accepted :: int
  per_reportedOverage :: int

record usage_db =
  ud_counters :: "ident \<times> int \<rightharpoonup> int"
  ud_pool :: "ident \<times> int \<rightharpoonup> pool_row"
  ud_periods :: "ident \<times> instant \<rightharpoonup> period_row"
  ud_hourly :: "ident \<times> instant \<rightharpoonup> (usage_counter \<Rightarrow> int)"
  ud_bursts :: "ident \<rightharpoonup> instant"

definition pool_accepted :: "usage_db \<Rightarrow> ident \<times> int \<Rightarrow> int" where
  "pool_accepted db k = (case ud_pool db k of None \<Rightarrow> 0 | Some r \<Rightarrow> pr_accepted r)"

definition period_accepted :: "usage_db \<Rightarrow> ident \<times> instant \<Rightarrow> int" where
  "period_accepted db k = (case ud_periods db k of None \<Rightarrow> 0 | Some r \<Rightarrow> per_accepted r)"

section \<open>Hourly counters\<close>

definition count_entries :: "'c list \<Rightarrow> ('c \<rightharpoonup> int) \<Rightarrow> ('c \<times> int) list" where
  "count_entries cs counts =
     concat (map (\<lambda>c. case counts c of None \<Rightarrow> [] | Some n \<Rightarrow> if n = 0 then [] else [(c, n)]) cs)"

definition add_entries :: "('c \<times> int) list \<Rightarrow> ('c \<Rightarrow> int) \<Rightarrow> ('c \<Rightarrow> int)" where
  "add_entries es row = fold (\<lambda>(c, n) r. r(c := r c + n)) es row"

definition bumpHourlyUsage ::
    "ident \<Rightarrow> instant \<Rightarrow> (usage_counter \<rightharpoonup> int) \<Rightarrow> usage_db \<Rightarrow> usage_db" where
  "bumpHourlyUsage teamId at counts db =
     (let entries = count_entries USAGE_COUNTERS counts in
      if entries = [] then db
      else case upsert (teamId, utcHour at) (add_entries entries (\<lambda>_. 0))
                  (\<lambda>row. Some (add_entries entries row)) (ud_hourly db) of
             None \<Rightarrow> db
           | Some (h, _) \<Rightarrow> db\<lparr>ud_hourly := h\<rparr>)"

section \<open>Reservations\<close>

record counted =
  c_accepted :: int
  c_ceiling :: "int option"

definition room :: "counted \<Rightarrow> jsnum" where
  "room c = jsnum_minus (jsnum_of (c_ceiling c)) (c_accepted c)"

fun tightest :: "counted \<Rightarrow> counted list \<Rightarrow> counted" where
  "tightest a [] = a"
| "tightest a (b # bs) = tightest (if room b < room a then b else a) bs"

datatype quota_result =
  Reserved (qr_accepted: int) (qr_ceiling: "int option")
| Refused (qr_accepted: int) (qr_ceiling: "int option") (qr_capDay: bool)

fun is_reserved :: "quota_result \<Rightarrow> bool" where
  "is_reserved (Reserved _ _) = True"
| "is_reserved (Refused _ _ _) = False"

definition quotaChargeAt :: "instant option \<Rightarrow> instant \<Rightarrow> instant" where
  "quotaChargeAt scheduledAt now =
     (case scheduledAt of Some s \<Rightarrow> if now < s then s else now | None \<Rightarrow> now)"

text \<open>\<open>Math.floor(limit * (1 + QUOTA_TOLERANCE))\<close>, exact on integers.\<close>

definition dailyCeiling :: "int \<Rightarrow> int" where
  "dailyCeiling limit = limit * (QUOTA_TOLERANCE_den + QUOTA_TOLERANCE_num) div QUOTA_TOLERANCE_den"

definition min_ceiling :: "int option \<Rightarrow> int option \<Rightarrow> int option" where
  "min_ceiling soft hard =
     (case soft of None \<Rightarrow> hard
      | Some s \<Rightarrow> (case hard of None \<Rightarrow> Some s | Some h \<Rightarrow> Some (min s h)))"

definition exceeds :: "int \<Rightarrow> int option \<Rightarrow> bool" where
  "exceeds count c = (case c of None \<Rightarrow> False | Some c \<Rightarrow> c < count)"

text \<open>When a call charges: the day and the instant it was given, else the clock.\<close>

definition charge_day :: "int option \<Rightarrow> instant \<Rightarrow> int" where
  "charge_day day now = (case day of Some d \<Rightarrow> d | None \<Rightarrow> utcDay now)"

definition charge_at :: "int option \<Rightarrow> instant option \<Rightarrow> instant \<Rightarrow> instant" where
  "charge_at day at now =
     (case at of Some a \<Rightarrow> a | None \<Rightarrow> (case day of Some d \<Rightarrow> noon_of d | None \<Rightarrow> now))"

text \<open>The two guarded upserts and the answer of a refusal.\<close>

definition take_team ::
    "ident \<times> int \<Rightarrow> int \<Rightarrow> int option \<Rightarrow> usage_db \<Rightarrow> (usage_db \<times> int) option" where
  "take_team k count ceiling db =
     map_option (\<lambda>(m, n). (db\<lparr>ud_counters := m\<rparr>, n))
       (upsert k count
          (\<lambda>a. if \<not> exceeds (a + count) ceiling then Some (a + count) else None) (ud_counters db))"

definition take_pool ::
    "ident \<times> int \<Rightarrow> int \<Rightarrow> int \<Rightarrow> usage_db \<Rightarrow> (usage_db \<times> int) option" where
  "take_pool k count ceiling db =
     map_option (\<lambda>(m, r). (db\<lparr>ud_pool := m\<rparr>, pr_accepted r))
       (upsert k (empty_pool_row\<lparr>pr_accepted := count\<rparr>)
          (\<lambda>r. if pr_accepted r + count \<le> ceiling
               then Some (r\<lparr>pr_accepted := pr_accepted r + count\<rparr>) else None) (ud_pool db))"

definition daily_refused ::
    "ident \<Rightarrow> int \<Rightarrow> int option \<Rightarrow> daily_pool option \<Rightarrow> usage_db \<Rightarrow> quota_result" where
  "daily_refused teamId day ceiling pool db =
     (let team = \<lparr>c_accepted = cnt (ud_counters db) (teamId, day), c_ceiling = ceiling\<rparr>;
          t = tightest team
                (case pool of None \<Rightarrow> []
                 | Some p \<Rightarrow> [\<lparr>c_accepted = pool_accepted db (dp_ownerId p, day),
                               c_ceiling = Some (dailyCeiling (dp_limit p))\<rparr>])
      in Refused (c_accepted t) (c_ceiling t) False)"

definition daily_cap :: "int option \<Rightarrow> int option \<Rightarrow> int option" where
  "daily_cap limit hardLimit = min_ceiling (map_option dailyCeiling limit) hardLimit"

definition reserveDailyQuota ::
    "ident \<Rightarrow> int \<Rightarrow> int option \<Rightarrow> int option \<Rightarrow> daily_pool option \<Rightarrow> int option \<Rightarrow> instant option
     \<Rightarrow> instant \<Rightarrow> usage_db \<Rightarrow> (usage_db \<times> quota_result) option" where
  "reserveDailyQuota teamId count limit hardLimit pool day' at' now db =
     (if count \<le> 0 then None
      else
        let day = charge_day day' now;
            at = charge_at day' at' now;
            ceiling = daily_cap limit hardLimit;
            refused = daily_refused teamId day ceiling pool
        in if exceeds count ceiling
              \<or> (case pool of None \<Rightarrow> False | Some p \<Rightarrow> exceeds count (Some (dailyCeiling (dp_limit p))))
           then Some (db, refused db)
           else case take_team (teamId, day) count ceiling db of
             None \<Rightarrow> Some (db, refused db)
           | Some (db1, accepted) \<Rightarrow>
               (let team = \<lparr>c_accepted = accepted, c_ceiling = ceiling\<rparr> in
                case pool of
                  None \<Rightarrow>
                    Some (bumpHourlyUsage teamId at [UAccepted \<mapsto> count] db1,
                          Reserved accepted ceiling)
                | Some p \<Rightarrow>
                    let pc = dailyCeiling (dp_limit p) in
                    (case take_pool (dp_ownerId p, day) count pc db1 of
                       None \<Rightarrow>
                         let db2 = db1\<lparr>ud_counters :=
                                     map_upd (\<lambda>a. a - count) (teamId, day) (ud_counters db1)\<rparr>
                         in Some (db2, refused db2)
                     | Some (db2, shared) \<Rightarrow>
                         let t = tightest team [\<lparr>c_accepted = shared, c_ceiling = Some pc\<rparr>]
                         in Some (bumpHourlyUsage teamId at [UAccepted \<mapsto> count] db2,
                                  Reserved (c_accepted t) (c_ceiling t)))))"

definition floor_sub :: "int \<Rightarrow> int \<Rightarrow> int" where
  "floor_sub count a = max (a - count) 0"

definition release_pool_row :: "int \<Rightarrow> pool_row \<Rightarrow> pool_row" where
  "release_pool_row count r = r\<lparr>pr_accepted := floor_sub count (pr_accepted r)\<rparr>"

definition releaseDailyQuota ::
    "ident \<Rightarrow> int \<Rightarrow> daily_pool option \<Rightarrow> int option \<Rightarrow> instant option \<Rightarrow> instant
     \<Rightarrow> usage_db \<Rightarrow> usage_db option" where
  "releaseDailyQuota teamId count pool day' at' now db =
     (if count \<le> 0 then None
      else
        let day = charge_day day' now;
            at = charge_at day' at' now;
            db1 = db\<lparr>ud_counters := map_upd (floor_sub count) (teamId, day) (ud_counters db)\<rparr>;
            db2 = (case pool of None \<Rightarrow> db1
                   | Some p \<Rightarrow> db1\<lparr>ud_pool :=
                       map_upd (release_pool_row count) (dp_ownerId p, day) (ud_pool db1)\<rparr>)
        in Some (bumpHourlyUsage teamId at [UAccepted \<mapsto> - count] db2))"

definition release_period_row :: "int \<Rightarrow> period_row \<Rightarrow> period_row" where
  "release_period_row count r = r\<lparr>per_accepted := floor_sub count (per_accepted r)\<rparr>"

definition releasePeriodCount :: "ident \<Rightarrow> int \<Rightarrow> instant \<Rightarrow> usage_db \<Rightarrow> usage_db" where
  "releasePeriodCount teamId count periodStart db =
     db\<lparr>ud_periods := map_upd (release_period_row count) (teamId, periodStart) (ud_periods db)\<rparr>"

definition take_period ::
    "ident \<times> instant \<Rightarrow> int \<Rightarrow> int \<Rightarrow> usage_db \<Rightarrow> (usage_db \<times> int) option" where
  "take_period k count ceiling db =
     map_option (\<lambda>(m, r). (db\<lparr>ud_periods := m\<rparr>, per_accepted r))
       (upsert k \<lparr>per_accepted = count, per_reportedOverage = 0\<rparr>
          (\<lambda>r. if per_accepted r + count \<le> ceiling
               then Some (r\<lparr>per_accepted := per_accepted r + count\<rparr>) else None) (ud_periods db))"

definition period_ceiling :: "int \<Rightarrow> bool \<Rightarrow> int" where
  "period_ceiling included overage = (if overage then included * OVERAGE_HARD_CAP else included)"

definition reservePeriodQuota ::
    "ident \<Rightarrow> int \<Rightarrow> int \<Rightarrow> instant \<Rightarrow> bool \<Rightarrow> int option \<Rightarrow> int option \<Rightarrow> instant option
     \<Rightarrow> instant \<Rightarrow> usage_db \<Rightarrow> (usage_db \<times> quota_result) option" where
  "reservePeriodQuota teamId count included periodStart overage dayCeiling day' at' now db =
     (if count \<le> 0 then None
      else
        let ceiling = period_ceiling included overage;
            refused = Refused (period_accepted db (teamId, periodStart)) (Some ceiling) False
        in if ceiling < count then Some (db, refused)
           else case take_period (teamId, periodStart) count ceiling db of
             None \<Rightarrow> Some (db, refused)
           | Some (db1, accepted) \<Rightarrow>
               (case reserveDailyQuota teamId count None dayCeiling None day' at' now db1 of
                  None \<Rightarrow> None
                | Some (db2, daily) \<Rightarrow>
                    if is_reserved daily then Some (db2, Reserved accepted (Some ceiling))
                    else Some (releasePeriodCount teamId count periodStart db2,
                               Refused (qr_accepted daily) (qr_ceiling daily) True)))"

definition releasePeriodQuota ::
    "ident \<Rightarrow> int \<Rightarrow> instant \<Rightarrow> int option \<Rightarrow> instant option \<Rightarrow> instant \<Rightarrow> usage_db \<Rightarrow> usage_db option" where
  "releasePeriodQuota teamId count periodStart day' at' now db =
     (if count \<le> 0 then None
      else releaseDailyQuota teamId count None day' at' now
             (releasePeriodCount teamId count periodStart db))"

definition reserveQuota ::
    "ident \<Rightarrow> int \<Rightarrow> team_quota \<Rightarrow> int option \<Rightarrow> instant option \<Rightarrow> instant \<Rightarrow> usage_db
     \<Rightarrow> (usage_db \<times> quota_result) option" where
  "reserveQuota teamId count quota day' at' now db =
     (case quota of
        QMonth _ included periodStart _ overage _ _ ceiling \<Rightarrow>
          reservePeriodQuota teamId count included periodStart overage ceiling day' at' now db
      | QDay _ limit ceiling pool \<Rightarrow>
          reserveDailyQuota teamId count (Some limit) ceiling pool day' at' now db
      | QNone \<Rightarrow> reserveDailyQuota teamId count None None None day' at' now db)"

definition releaseQuota ::
    "ident \<Rightarrow> int \<Rightarrow> team_quota \<Rightarrow> int option \<Rightarrow> instant option \<Rightarrow> instant \<Rightarrow> usage_db \<Rightarrow> usage_db option" where
  "releaseQuota teamId count quota day' at' now db =
     (case quota of
        QMonth _ _ periodStart _ _ _ _ _ \<Rightarrow> releasePeriodQuota teamId count periodStart day' at' now db
      | QDay _ _ _ pool \<Rightarrow> releaseDailyQuota teamId count pool day' at' now db
      | QNone \<Rightarrow> releaseDailyQuota teamId count None day' at' now db)"

definition readDailyUsage :: "ident \<Rightarrow> team_quota \<Rightarrow> int \<Rightarrow> usage_db \<Rightarrow> int" where
  "readDailyUsage teamId quota day db =
     (case quota of
        QDay _ _ _ (Some p) \<Rightarrow> pool_accepted db (dp_ownerId p, day)
      | _ \<Rightarrow> cnt (ud_counters db) (teamId, day))"

definition readPeriodUsage :: "ident \<Rightarrow> instant \<Rightarrow> usage_db \<Rightarrow> period_row" where
  "readPeriodUsage teamId periodStart db =
     (case ud_periods db (teamId, periodStart) of
        None \<Rightarrow> \<lparr>per_accepted = 0, per_reportedOverage = 0\<rparr> | Some r \<Rightarrow> r)"

definition quotaRoom :: "quota_result \<Rightarrow> int option" where
  "quotaRoom result = map_option (\<lambda>c. max 0 (c - qr_accepted result)) (qr_ceiling result)"

section \<open>The Free pool\<close>

datatype pool_counter = PSent | PSentNoFeedback | PHardBounced | PComplained

definition FREE_POOL_COUNTERS :: "pool_counter list" where
  "FREE_POOL_COUNTERS = [PSent, PSentNoFeedback, PHardBounced, PComplained]"

fun add_pool_counter :: "pool_counter \<times> int \<Rightarrow> pool_row \<Rightarrow> pool_row" where
  "add_pool_counter (PSent, n) r = r\<lparr>pr_sent := pr_sent r + n\<rparr>"
| "add_pool_counter (PSentNoFeedback, n) r = r\<lparr>pr_sentNoFeedback := pr_sentNoFeedback r + n\<rparr>"
| "add_pool_counter (PHardBounced, n) r = r\<lparr>pr_hardBounced := pr_hardBounced r + n\<rparr>"
| "add_pool_counter (PComplained, n) r = r\<lparr>pr_complained := pr_complained r + n\<rparr>"

text \<open>The pool is named by its owner, or by a team whose row says which pool it is in now.\<close>

datatype pool_ref = ByOwner ident | ByTeam ident

definition bumpFreePoolUsage ::
    "(ident \<rightharpoonup> team_row) \<Rightarrow> pool_ref \<Rightarrow> int \<Rightarrow> (pool_counter \<rightharpoonup> int) \<Rightarrow> instant \<Rightarrow> usage_db \<Rightarrow> usage_db" where
  "bumpFreePoolUsage teams ref day counts now db =
     (let entries = count_entries FREE_POOL_COUNTERS counts in
      if entries = [] then db
      else
        let ownerId = (case ref of
                ByOwner ow \<Rightarrow> if ow = [] then None else Some ow
              | ByTeam t \<Rightarrow> (case teams t of None \<Rightarrow> None | Some row \<Rightarrow> freePoolOwner row now))
        in case ownerId of
             None \<Rightarrow> db
           | Some ow \<Rightarrow>
               (case upsert (ow, day) (fold add_pool_counter entries empty_pool_row)
                       (\<lambda>r. Some (fold add_pool_counter entries r)) (ud_pool db) of
                  None \<Rightarrow> db
                | Some (m, _) \<Rightarrow> db\<lparr>ud_pool := m\<rparr>))"

text \<open>
  \<open>bookFreeBurst\<close>: a generic cell rate algorithm. The row holds the theoretical arrival
  time \<open>tat\<close>; a booking returns the instant its recipients may go.
\<close>

definition bookFreeBurst :: "ident \<Rightarrow> int \<Rightarrow> instant \<Rightarrow> usage_db \<Rightarrow> usage_db \<times> instant" where
  "bookFreeBurst ownerId n now db =
     (let step = n * FREE_BURST_REFILL_MS in
      case upsert ownerId (now + step) (\<lambda>tat. Some (max tat now + step)) (ud_bursts db) of
        None \<Rightarrow> (db, now)
      | Some (m, tat) \<Rightarrow> (db\<lparr>ud_bursts := m\<rparr>, max now (tat - FREE_BURST_WINDOW_MS)))"

end
