(* ===== verification/QuotaProps.thy ===== *)
theory QuotaProps
  imports Quota
begin

text \<open>
  What the reservations promise. The interface \<open>capped_counter\<close> is the contract of one
  guarded counter row; the team's day, the pool's day and the billing period interpret it.
  Above it an abstract view of the tables (three total functions to counts) specifies a
  reservation as one test and one addition, and \<open>reserveQuota\<close> refines it.
\<close>

section \<open>One guarded counter\<close>

locale capped_take =
  fixes take :: "int \<Rightarrow> 's \<Rightarrow> 's option"
    and used :: "'s \<Rightarrow> int"
    and cap :: "int option"
  assumes take_Some: "\<lbrakk> 0 < n; \<not> exceeds n cap; take n s = Some s' \<rbrakk>
      \<Longrightarrow> used s' = used s + n \<and> \<not> exceeds (used s') cap"
    and take_None: "take n s = None \<Longrightarrow> exceeds (used s + n) cap"
begin

text \<open>The guard is exact: a taking that fits is granted.\<close>

lemma take_iff:
  assumes "0 < n" "\<not> exceeds n cap"
  shows "(\<exists>s'. take n s = Some s') \<longleftrightarrow> \<not> exceeds (used s + n) cap"
  using take_Some [OF assms] take_None by (metis option.exhaust option.simps(3))

end

locale capped_counter = capped_take take used cap
  for take :: "int \<Rightarrow> 's \<Rightarrow> 's option" and used :: "'s \<Rightarrow> int" and cap :: "int option" +
  fixes give :: "int \<Rightarrow> 's \<Rightarrow> 's"
  assumes give_used: "\<lbrakk> 0 < n; 0 \<le> used s \<rbrakk> \<Longrightarrow> used (give n s) = max (used s - n) 0"
begin

text \<open>A call: a taking that checks its own size first, or a giving back.\<close>

fun call :: "'s \<Rightarrow> int \<times> bool \<Rightarrow> 's" where
  "call s (n, False) = give n s"
| "call s (n, True) =
     (if exceeds n cap then s else case take n s of None \<Rightarrow> s | Some s' \<Rightarrow> s')"

lemma call_within:
  assumes "0 \<le> used s" "\<not> exceeds (used s) cap" "0 < fst e"
  shows "0 \<le> used (call s e) \<and> \<not> exceeds (used (call s e)) cap"
proof (cases e)
  case (Pair n b)
  with assms have n: "0 < n" by simp
  show ?thesis
  proof (cases b)
    case True
    then show ?thesis using Pair assms n take_Some [of n s]
      by (auto split: option.splits)
  next
    case False
    then show ?thesis using Pair assms n give_used [of n s]
      by (auto simp: exceeds_def split: option.splits)
  qed
qed

lemma run_within:
  assumes "0 \<le> used s" "\<not> exceeds (used s) cap" "\<forall>e \<in> set es. 0 < fst e"
  shows "0 \<le> used (foldl call s es) \<and> \<not> exceeds (used (foldl call s es)) cap"
  using assms
proof (induction es arbitrary: s)
  case Nil
  then show ?case by simp
next
  case (Cons e es)
  then have "0 \<le> used (call s e) \<and> \<not> exceeds (used (call s e)) cap"
    using call_within [of s e] by simp
  with Cons show ?case by simp
qed

end

section \<open>The three counters\<close>

lemma exceeds_None [simp]: "\<not> exceeds n None"
  by (simp add: exceeds_def)

lemma exceeds_Some [simp]: "exceeds n (Some c) \<longleftrightarrow> c < n"
  by (simp add: exceeds_def)

lemma exceeds_mono: "exceeds m c \<Longrightarrow> m \<le> n \<Longrightarrow> exceeds n c"
  by (auto simp: exceeds_def split: option.splits)

lemma floor_sub_bounds [simp]: "0 \<le> floor_sub n a"
  by (simp add: floor_sub_def)

lemma take_team_Some:
  assumes "take_team k n c db = Some (db', a)" "\<not> exceeds n c"
  shows "db' = db\<lparr>ud_counters := (ud_counters db)(k \<mapsto> cnt (ud_counters db) k + n)\<rparr>"
    and "a = cnt (ud_counters db) k + n" and "\<not> exceeds a c"
  using assms by (auto simp: take_team_def upsert_def split: option.splits if_splits)

lemma take_team_None: "take_team k n c db = None \<longleftrightarrow> ud_counters db k \<noteq> None \<and> exceeds (cnt (ud_counters db) k + n) c"
  by (auto simp: take_team_def upsert_def split: option.splits if_splits)

lemma pool_accepted_simps [simp]:
  "ud_pool db k = None \<Longrightarrow> pool_accepted db k = 0"
  "ud_pool db k = Some r \<Longrightarrow> pool_accepted db k = pr_accepted r"
  by (simp_all add: pool_accepted_def)

lemma period_accepted_simps [simp]:
  "ud_periods db k = None \<Longrightarrow> period_accepted db k = 0"
  "ud_periods db k = Some r \<Longrightarrow> period_accepted db k = per_accepted r"
  by (simp_all add: period_accepted_def)

lemma pool_accepted_upd [simp]:
  "pool_accepted (db\<lparr>ud_pool := (ud_pool db)(k \<mapsto> r)\<rparr>) = (pool_accepted db)(k := pr_accepted r)"
  by (rule ext) (simp add: pool_accepted_def)

lemma period_accepted_upd [simp]:
  "period_accepted (db\<lparr>ud_periods := (ud_periods db)(k \<mapsto> r)\<rparr>)
     = (period_accepted db)(k := per_accepted r)"
  by (rule ext) (simp add: period_accepted_def)

lemma take_pool_Some:
  assumes "take_pool k n c db = Some (db', a)" "n \<le> c"
  shows "pool_accepted db' = (pool_accepted db)(k := pool_accepted db k + n)"
    and "a = pool_accepted db k + n" and "a \<le> c"
    and "db' = db\<lparr>ud_pool := ud_pool db'\<rparr>"
  using assms
  by (auto simp: take_pool_def upsert_def empty_pool_row_def split: option.splits if_splits)

lemma take_pool_None:
  "take_pool k n c db = None \<longleftrightarrow> ud_pool db k \<noteq> None \<and> c < pool_accepted db k + n"
  by (auto simp: take_pool_def upsert_def split: option.splits if_splits)

lemma take_period_Some:
  assumes "take_period k n c db = Some (db', a)" "n \<le> c"
  shows "period_accepted db' = (period_accepted db)(k := period_accepted db k + n)"
    and "a = period_accepted db k + n" and "a \<le> c"
    and "db' = db\<lparr>ud_periods := ud_periods db'\<rparr>"
  using assms
  by (auto simp: take_period_def upsert_def split: option.splits if_splits)

lemma take_period_None:
  "take_period k n c db = None \<longleftrightarrow> ud_periods db k \<noteq> None \<and> c < period_accepted db k + n"
  by (auto simp: take_period_def upsert_def split: option.splits if_splits)

lemma take_used:
  "take_team k n cc db = Some (db', a) \<Longrightarrow> \<not> exceeds n cc \<Longrightarrow>
     cnt (ud_counters db') k = cnt (ud_counters db) k + n \<and> \<not> exceeds (cnt (ud_counters db') k) cc"
  "take_pool k n c db = Some (db', a) \<Longrightarrow> n \<le> c \<Longrightarrow>
     pool_accepted db' k = pool_accepted db k + n \<and> pool_accepted db' k \<le> c"
  "take_period p n c db = Some (db', a) \<Longrightarrow> n \<le> c \<Longrightarrow>
     period_accepted db' p = period_accepted db p + n \<and> period_accepted db' p \<le> c"
  using take_team_Some [of k n cc db db' a] take_pool_Some [of k n c db db' a]
    take_period_Some [of p n c db db' a] by simp_all

definition give_team :: "ident \<times> int \<Rightarrow> int \<Rightarrow> usage_db \<Rightarrow> usage_db" where
  "give_team k n db = db\<lparr>ud_counters := map_upd (floor_sub n) k (ud_counters db)\<rparr>"

definition give_pool :: "ident \<times> int \<Rightarrow> int \<Rightarrow> usage_db \<Rightarrow> usage_db" where
  "give_pool k n db = db\<lparr>ud_pool := map_upd (release_pool_row n) k (ud_pool db)\<rparr>"

lemma cnt_give_team:
  "0 < n \<Longrightarrow> 0 \<le> cnt m k \<Longrightarrow> cnt (map_upd (floor_sub n) k m) k = max (cnt m k - n) 0"
  by (cases "m k") (simp_all add: cnt_map_upd_same floor_sub_def)

interpretation team_day: capped_counter
  "\<lambda>n db. map_option fst (take_team k n c db)" "\<lambda>db. cnt (ud_counters db) k" c "give_team k"
  for k c
  by unfold_locales
    (auto simp: take_team_None give_team_def cnt_give_team dest: take_used)

lemma pool_accepted_give:
  "0 < n \<Longrightarrow> 0 \<le> pool_accepted db k \<Longrightarrow>
     pool_accepted (give_pool k n db) = (pool_accepted db)(k := max (pool_accepted db k - n) 0)"
  by (auto simp: give_pool_def pool_accepted_def map_upd_def release_pool_row_def floor_sub_def
      fun_eq_iff split: option.splits)

interpretation pool_day: capped_counter
  "\<lambda>n db. map_option fst (take_pool k n c db)" "\<lambda>db. pool_accepted db k" "Some c" "give_pool k"
  for k c
  by unfold_locales (auto simp: take_pool_None pool_accepted_give dest: take_used)

lemma period_accepted_give:
  "0 < n \<Longrightarrow> 0 \<le> period_accepted db (t, p) \<Longrightarrow>
     period_accepted (releasePeriodCount t n p db)
       = (period_accepted db)((t, p) := max (period_accepted db (t, p) - n) 0)"
  by (auto simp: releasePeriodCount_def period_accepted_def map_upd_def release_period_row_def
      floor_sub_def fun_eq_iff split: option.splits)

interpretation period: capped_counter
  "\<lambda>n db. map_option fst (take_period (t, p) n c db)"
  "\<lambda>db. period_accepted db (t, p)" "Some c" "\<lambda>n. releasePeriodCount t n p"
  for t p c
  by unfold_locales (auto simp: take_period_None period_accepted_give dest: take_used)

section \<open>The abstract view\<close>

text \<open>
  A view forgets which rows exist: a count is a total function. \<open>v_hour\<close> is the accepted
  column of the hourly table.
\<close>

record usage_view =
  v_day :: "ident \<times> int \<Rightarrow> int"
  v_pool :: "ident \<times> int \<Rightarrow> int"
  v_period :: "ident \<times> instant \<Rightarrow> int"
  v_hour :: "ident \<times> instant \<Rightarrow> int"

definition hourly_accepted :: "usage_db \<Rightarrow> ident \<times> instant \<Rightarrow> int" where
  "hourly_accepted db k = (case ud_hourly db k of None \<Rightarrow> 0 | Some r \<Rightarrow> r UAccepted)"

definition view_of :: "usage_db \<Rightarrow> usage_view" where
  "view_of db = \<lparr>v_day = cnt (ud_counters db), v_pool = pool_accepted db,
     v_period = period_accepted db, v_hour = hourly_accepted db\<rparr>"

definition counts_nonneg :: "usage_db \<Rightarrow> bool" where
  "counts_nonneg db \<longleftrightarrow> (\<forall>k. 0 \<le> cnt (ud_counters db) k) \<and> (\<forall>k. 0 \<le> pool_accepted db k)
     \<and> (\<forall>k. 0 \<le> period_accepted db k)"

definition add_at :: "'k \<Rightarrow> int \<Rightarrow> ('k \<Rightarrow> int) \<Rightarrow> 'k \<Rightarrow> int" where
  "add_at k n f = f(k := f k + n)"

lemma add_at_cancel [simp]: "add_at k (- n) (add_at k n f) = f" "add_at k n (add_at k (- n) f) = f"
  by (simp_all add: add_at_def)

text \<open>The rows a quota charges, each with its cap: the specification of a reservation.\<close>

fun quota_fits :: "team_quota \<Rightarrow> ident \<Rightarrow> int \<Rightarrow> int \<Rightarrow> usage_view \<Rightarrow> bool" where
  "quota_fits QNone t day n v = True"
| "quota_fits (QDay _ limit c pool) t day n v =
     (\<not> exceeds (v_day v (t, day) + n) (daily_cap (Some limit) c)
      \<and> (case pool of None \<Rightarrow> True
         | Some p \<Rightarrow> v_pool v (dp_ownerId p, day) + n \<le> dailyCeiling (dp_limit p)))"
| "quota_fits (QMonth _ included start _ overage _ _ c) t day n v =
     (v_period v (t, start) + n \<le> period_ceiling included overage
      \<and> \<not> exceeds (v_day v (t, day) + n) c)"

fun quota_charge :: "team_quota \<Rightarrow> ident \<Rightarrow> int \<Rightarrow> instant \<Rightarrow> int \<Rightarrow> usage_view \<Rightarrow> usage_view" where
  "quota_charge q t day at n v =
     v\<lparr>v_day := add_at (t, day) n (v_day v),
       v_pool := (case q of QDay _ _ _ (Some p) \<Rightarrow> add_at (dp_ownerId p, day) n (v_pool v)
                  | _ \<Rightarrow> v_pool v),
       v_period := (case q of QMonth _ _ start _ _ _ _ _ \<Rightarrow> add_at (t, start) n (v_period v)
                    | _ \<Rightarrow> v_period v),
       v_hour := add_at (t, utcHour at) n (v_hour v)\<rparr>"

section \<open>Refinement\<close>

lemma count_entries_single [simp]:
  "n \<noteq> 0 \<Longrightarrow> count_entries USAGE_COUNTERS [UAccepted \<mapsto> n] = [(UAccepted, n)]"
  by (simp add: count_entries_def USAGE_COUNTERS_def)

lemma bump_hourly_frame [simp]:
  "ud_counters (bumpHourlyUsage t at c db) = ud_counters db"
  "ud_pool (bumpHourlyUsage t at c db) = ud_pool db"
  "ud_periods (bumpHourlyUsage t at c db) = ud_periods db"
  "ud_bursts (bumpHourlyUsage t at c db) = ud_bursts db"
  by (auto simp: bumpHourlyUsage_def Let_def split: option.splits)

lemma bump_hourly_accepted:
  "n \<noteq> 0 \<Longrightarrow> hourly_accepted (bumpHourlyUsage t at [UAccepted \<mapsto> n] db)
     = add_at (t, utcHour at) n (hourly_accepted db)"
  by (rule ext) (auto simp: bumpHourlyUsage_def hourly_accepted_def upsert_def add_entries_def
      add_at_def split: option.splits)

lemma pool_period_frames [simp]:
  "pool_accepted (bumpHourlyUsage t at c db) = pool_accepted db"
  "period_accepted (bumpHourlyUsage t at c db) = period_accepted db"
  "pool_accepted (db\<lparr>ud_counters := m\<rparr>) = pool_accepted db"
  "period_accepted (db\<lparr>ud_counters := m\<rparr>) = period_accepted db"
  "hourly_accepted (db\<lparr>ud_counters := m\<rparr>) = hourly_accepted db"
  "period_accepted (db\<lparr>ud_pool := pm\<rparr>) = period_accepted db"
  "hourly_accepted (db\<lparr>ud_pool := pm\<rparr>) = hourly_accepted db"
  "pool_accepted (db\<lparr>ud_periods := rm\<rparr>) = pool_accepted db"
  "hourly_accepted (db\<lparr>ud_periods := rm\<rparr>) = hourly_accepted db"
  by (rule ext, simp add: pool_accepted_def period_accepted_def hourly_accepted_def)+

lemma is_reserved_daily_refused [simp]: "\<not> is_reserved (daily_refused t d c p db)"
  by (simp add: daily_refused_def Let_def)

lemma cnt_fun_upd: "cnt (m(k \<mapsto> n)) = (cnt m)(k := n)"
  by (rule ext) simp

lemma undo_team:
  "map_upd (\<lambda>a. a - n) k (m(k \<mapsto> cnt m k + n)) = m(k \<mapsto> cnt m k)"
  by (simp add: map_upd_def)

text \<open>The pool arguments as a quota: what a daily reservation tests and charges.\<close>

lemma reserveDaily_correct:
  fixes limit hardLimit :: "int option"
  defines "ceiling \<equiv> daily_cap limit hardLimit"
  assumes n: "0 < n" and nn: "counts_nonneg db"
    and d: "day = charge_day day' now" and a: "at = charge_at day' at' now"
    and fits: "fits \<longleftrightarrow> \<not> exceeds (cnt (ud_counters db) (t, day) + n) ceiling
      \<and> (case pool of None \<Rightarrow> True
         | Some p \<Rightarrow> pool_accepted db (dp_ownerId p, day) + n \<le> dailyCeiling (dp_limit p))"
  shows "\<exists>db' r. reserveDailyQuota t n limit hardLimit pool day' at' now db = Some (db', r)
     \<and> is_reserved r = fits
     \<and> view_of db' = (if fits then quota_charge (QDay FreePlan 0 None pool) t day at n (view_of db)
                      else view_of db)"
proof -
  have nn1: "0 \<le> cnt (ud_counters db) k" "0 \<le> pool_accepted db k'" for k k'
    using nn unfolding counts_nonneg_def by blast+
  have eq: "daily_cap limit hardLimit = ceiling" by (simp add: ceiling_def)
  note unf = reserveDailyQuota_def Let_def eq d [symmetric] a [symmetric]
  let ?big = "exceeds n ceiling
    \<or> (case pool of None \<Rightarrow> False | Some p \<Rightarrow> exceeds n (Some (dailyCeiling (dp_limit p))))"
  show ?thesis
  proof (cases ?big)
    case True
    then have "\<not> fits"
    proof
      assume "exceeds n ceiling"
      then show "\<not> fits" using fits exceeds_mono [of n ceiling] nn1(1) [of "(t, day)"] by simp
    next
      assume "case pool of None \<Rightarrow> False | Some p \<Rightarrow> exceeds n (Some (dailyCeiling (dp_limit p)))"
      then obtain p where "pool = Some p" "dailyCeiling (dp_limit p) < n"
        by (auto split: option.splits)
      then show "\<not> fits" using fits nn1(2) [of "(dp_ownerId p, day)"] by simp
    qed
    then show ?thesis using n True by (simp add: unf)
  next
    case False
    then have cn: "\<not> exceeds n ceiling" by simp
    show ?thesis
    proof (cases "take_team (t, day) n ceiling db")
      case None
      then have "\<not> fits" using fits by (simp add: take_team_None)
      then show ?thesis using n False None by (simp add: unf)
    next
      case (Some res)
      then obtain db1 acc where T: "take_team (t, day) n ceiling db = Some (db1, acc)"
        by (cases res) simp
      note t1 = take_team_Some [OF T cn]
      show ?thesis
      proof (cases pool)
        case None
        have "fits" using t1 fits None by simp
        then show ?thesis using n False T t1 None
          by (simp add: unf view_of_def bump_hourly_accepted cnt_fun_upd add_at_def)
      next
        case (Some p)
        then have pn: "n \<le> dailyCeiling (dp_limit p)" using False by simp
        have same: "pool_accepted db1 = pool_accepted db" using t1(1) by simp
        show ?thesis
        proof (cases "take_pool (dp_ownerId p, day) n (dailyCeiling (dp_limit p)) db1")
          case None
          then have "\<not> fits" using fits Some same by (simp add: take_pool_None)
          then show ?thesis using n False T t1 Some None
            by (simp add: unf view_of_def undo_team cnt_fun_upd)
        next
          case P: (Some res2)
          then obtain db2 sh where P: "take_pool (dp_ownerId p, day) n (dailyCeiling (dp_limit p)) db1
              = Some (db2, sh)" by (cases res2) simp
          note t2 = take_pool_Some [OF P pn]
          have "fits" using t1 t2 fits Some same by simp
          moreover have "ud_counters db2 = ud_counters db1" "hourly_accepted db2 = hourly_accepted db1"
            "period_accepted db2 = period_accepted db1"
            by (subst t2(4); simp)+
          ultimately show ?thesis using n False T t1(1) t2(1) Some P
            by (simp add: unf view_of_def bump_hourly_accepted cnt_fun_upd add_at_def)
        qed
      qed
    qed
  qed
qed

lemma view_of_sel [simp]:
  "v_day (view_of db) = cnt (ud_counters db)" "v_pool (view_of db) = pool_accepted db"
  "v_period (view_of db) = period_accepted db" "v_hour (view_of db) = hourly_accepted db"
  by (simp_all add: view_of_def)

lemma release_period_frame [simp]:
  "ud_counters (releasePeriodCount t n s db) = ud_counters db"
  "pool_accepted (releasePeriodCount t n s db) = pool_accepted db"
  "hourly_accepted (releasePeriodCount t n s db) = hourly_accepted db"
  by (simp_all add: releasePeriodCount_def)

lemma counts_nonneg_view:
  "counts_nonneg db \<longleftrightarrow> (\<forall>k. 0 \<le> v_day (view_of db) k) \<and> (\<forall>k. 0 \<le> v_pool (view_of db) k)
     \<and> (\<forall>k. 0 \<le> v_period (view_of db) k)"
  by (simp add: counts_nonneg_def)

lemma min_ceiling_None [simp]: "daily_cap None c = c"
  by (simp add: daily_cap_def min_ceiling_def)

lemma view_eqI:
  "v_day v = v_day w \<Longrightarrow> v_pool v = v_pool w \<Longrightarrow> v_period v = v_period w \<Longrightarrow> v_hour v = v_hour w
     \<Longrightarrow> v = (w :: usage_view)"
  by simp

lemma reservePeriod_correct:
  assumes n: "0 < n" and nn: "counts_nonneg db"
    and d: "day = charge_day day' now" and a: "at = charge_at day' at' now"
    and q: "q = QMonth p i s e ov pa c cl"
  shows "\<exists>db' r. reservePeriodQuota t n i s ov cl day' at' now db = Some (db', r)
     \<and> is_reserved r = quota_fits q t day n (view_of db)
     \<and> view_of db' = (if quota_fits q t day n (view_of db) then quota_charge q t day at n (view_of db)
                      else view_of db)"
proof -
  let ?c = "period_ceiling i ov"
  have nn3: "0 \<le> period_accepted db k" for k using nn unfolding counts_nonneg_def by blast
  note unf = reservePeriodQuota_def Let_def
  consider "?c < n" | "n \<le> ?c" "take_period (t, s) n ?c db = None"
    | db1 acc where "n \<le> ?c" "take_period (t, s) n ?c db = Some (db1, acc)"
    by (cases "take_period (t, s) n ?c db") force+
  then show ?thesis
  proof cases
    case 1
    then show ?thesis using n nn3 [of "(t, s)"] q by (simp add: unf)
  next
    case 2
    moreover have "\<not> quota_fits q t day n (view_of db)" using 2 q by (simp add: take_period_None)
    ultimately show ?thesis using n by (simp add: unf)
  next
    case 3
    note t1 = take_period_Some [OF 3(2,1)]
    have same: "ud_counters db1 = ud_counters db" "pool_accepted db1 = pool_accepted db"
      "hourly_accepted db1 = hourly_accepted db" by (subst t1(4); simp)+
    have nn': "counts_nonneg db1" using nn n t1(1) by (simp add: counts_nonneg_def same)
    obtain db2 r where R: "reserveDailyQuota t n None cl None day' at' now db1 = Some (db2, r)"
      "is_reserved r \<longleftrightarrow> \<not> exceeds (cnt (ud_counters db) (t, day) + n) cl"
      "view_of db2 = (if is_reserved r then quota_charge (QDay FreePlan 0 None None) t day at n (view_of db1)
                      else view_of db1)"
      using reserveDaily_correct [OF n nn' d a, of _ t None cl None] same by auto
    show ?thesis
    proof (cases "is_reserved r")
      case True
      then have "quota_fits q t day n (view_of db)" using q R(2) t1 by simp
      moreover have "view_of db2 = quota_charge q t day at n (view_of db)"
        using R(3) True q t1(1) same by (simp add: view_of_def add_at_def)
      ultimately show ?thesis using R 3 n True by (simp add: unf)
    next
      case False
      then have nf: "\<not> quota_fits q t day n (view_of db)" using q R(2) by simp
      have v2: "view_of db2 = view_of db1" using R(3) False by simp
      then have p2: "period_accepted db2 = (period_accepted db)((t, s) := period_accepted db (t, s) + n)"
        using t1(1) by (metis view_of_sel(3))
      have "period_accepted (releasePeriodCount t n s db2) = period_accepted db"
        using period_accepted_give [OF n, of db2 t s] p2 nn3 [of "(t, s)"] n by simp
      moreover have "cnt (ud_counters db2) = cnt (ud_counters db)"
        "pool_accepted db2 = pool_accepted db" "hourly_accepted db2 = hourly_accepted db"
        using v2 same by (metis view_of_sel)+
      ultimately have "view_of (releasePeriodCount t n s db2) = view_of db"
        by (intro view_eqI) simp_all
      then show ?thesis using R 3 n False nf by (simp add: unf)
    qed
  qed
qed

section \<open>Properties\<close>

lemma reserveQuota_refines_lemma:
  assumes "0 < n" and "counts_nonneg db"
    and "day = charge_day day' now" and "at = charge_at day' at' now"
  shows "\<exists>db' r. reserveQuota t n q day' at' now db = Some (db', r)
     \<and> is_reserved r = quota_fits q t day n (view_of db)
     \<and> view_of db' = (if quota_fits q t day n (view_of db) then quota_charge q t day at n (view_of db)
                      else view_of db)"
proof (cases q)
  case QNone
  then show ?thesis
    using reserveDaily_correct [OF assms refl, of t None None None]
    by (simp add: reserveQuota_def)
next
  case (QDay p l c pool)
  have f: "quota_fits q t day n (view_of db) \<longleftrightarrow>
      \<not> exceeds (cnt (ud_counters db) (t, day) + n) (daily_cap (Some l) c)
      \<and> (case pool of None \<Rightarrow> True
         | Some p \<Rightarrow> pool_accepted db (dp_ownerId p, day) + n \<le> dailyCeiling (dp_limit p))"
    by (cases pool) (simp_all add: QDay)
  have c: "quota_charge (QDay FreePlan 0 None pool) t day at n = quota_charge q t day at n"
    by (rule ext) (simp add: QDay)
  show ?thesis
    using reserveDaily_correct [OF assms f] unfolding c
    by (simp add: reserveQuota_def QDay del: quota_fits.simps quota_charge.simps)
next
  case (QMonth p i s e ov pa c cl)
  then show ?thesis
    using reservePeriod_correct [OF assms QMonth]
    by (simp add: reserveQuota_def)
qed

text \<open>
  C1: a reservation against any quota grants exactly the sends that fit under every cap the
  quota names (the team's day with its tolerance and operator ceiling, the Free pool's day,
  the billing period with its overage cap); a granted one adds the sends to exactly those
  counters, and a refused one leaves every count as it was, compensations included.
\<close>

theorem reserveQuota_refines:
  assumes "0 < n" and "counts_nonneg db"
    and "day = charge_day day' now" and "at = charge_at day' at' now"
  shows "\<exists>db' r. reserveQuota t n q day' at' now db = Some (db', r)
     \<and> is_reserved r = quota_fits q t day n (view_of db)
     \<and> view_of db' = (if quota_fits q t day n (view_of db) then quota_charge q t day at n (view_of db)
                      else view_of db)"
  using assms by (rule reserveQuota_refines_lemma)

definition empty_usage :: usage_db where
  "empty_usage = \<lparr>ud_counters = Map.empty, ud_pool = Map.empty, ud_periods = Map.empty,
     ud_hourly = Map.empty, ud_bursts = Map.empty\<rparr>"

lemma view_of_empty [simp]:
  "view_of empty_usage = \<lparr>v_day = \<lambda>_. 0, v_pool = \<lambda>_. 0, v_period = \<lambda>_. 0, v_hour = \<lambda>_. 0\<rparr>"
  by (intro view_eqI ext)
    (simp_all add: empty_usage_def pool_accepted_def period_accepted_def hourly_accepted_def)

lemma counts_nonneg_empty [simp]: "counts_nonneg empty_usage"
  by (simp add: counts_nonneg_view)

theorem reserveQuota_refines_witness:
  "\<exists>db' r. reserveQuota ''t1'' 40 (QDay FreePlan 100 None (Some \<lparr>dp_ownerId = ''u1'', dp_limit = 100\<rparr>))
       None None 1769000000000 empty_usage = Some (db', r)
     \<and> is_reserved r \<and> pool_accepted db' (''u1'', utcDay 1769000000000) = 40"
  using reserveQuota_refines [OF _ counts_nonneg_empty refl refl, where n = 40 and t = "''t1''"
      and q = "QDay FreePlan 100 None (Some \<lparr>dp_ownerId = ''u1'', dp_limit = 100\<rparr>)"
      and now = 1769000000000 and day' = None and at' = None]
  by (auto simp: daily_cap_def min_ceiling_def dailyCeiling_def consts_defs charge_day_def add_at_def
      simp flip: view_of_sel(2))

subsection \<open>What a refusal reports\<close>

lemma room_tightest: "room (tightest a bs) \<le> room a \<and> (\<forall>b \<in> set bs. room (tightest a bs) \<le> room b)"
proof (induction bs arbitrary: a)
  case Nil
  then show ?case by simp
next
  case (Cons b bs)
  define a' where "a' = (if room b < room a then b else a)"
  have "room a' \<le> room a" "room a' \<le> room b" by (auto simp: a'_def)
  moreover have "tightest a (b # bs) = tightest a' bs" by (simp add: a'_def)
  ultimately show ?case using Cons.IH [of a'] by (auto intro: order_trans)
qed

lemma room_exceeds: "exceeds (u + n) c \<longleftrightarrow> room \<lparr>c_accepted = u, c_ceiling = c\<rparr> < Fin n"
  by (cases c) (auto simp: room_def)

lemma room_short:
  assumes "0 < n" "room \<lparr>c_accepted = u, c_ceiling = c\<rparr> < Fin n"
  shows "\<exists>k. quotaRoom (Refused u c b) = Some k \<and> 0 \<le> k \<and> k < n"
  using assms by (cases c) (auto simp: room_def quotaRoom_def)

lemma daily_refused_short:
  assumes "0 < n" and "exceeds (cnt (ud_counters db) (t, day) + n) c
      \<or> (\<exists>p. pool = Some p \<and> dailyCeiling (dp_limit p) < pool_accepted db (dp_ownerId p, day) + n)"
  shows "\<exists>u cl. daily_refused t day c pool db = Refused u cl False
     \<and> room \<lparr>c_accepted = u, c_ceiling = cl\<rparr> < Fin n"
proof -
  let ?a = "\<lparr>c_accepted = cnt (ud_counters db) (t, day), c_ceiling = c\<rparr>"
  let ?bs = "case pool of None \<Rightarrow> []
     | Some p \<Rightarrow> [\<lparr>c_accepted = pool_accepted db (dp_ownerId p, day), c_ceiling = Some (dailyCeiling (dp_limit p))\<rparr>]"
  have "room (tightest ?a ?bs) < Fin n"
    using assms(2)
  proof
    assume "exceeds (cnt (ud_counters db) (t, day) + n) c"
    then have "room ?a < Fin n" by (simp add: room_exceeds)
    then show ?thesis using room_tightest [of ?a ?bs] le_less_trans by blast
  next
    assume "\<exists>p. pool = Some p \<and> dailyCeiling (dp_limit p) < pool_accepted db (dp_ownerId p, day) + n"
    then obtain b where "b \<in> set ?bs" "room b < Fin n" by (auto simp: room_def)
    then show ?thesis using room_tightest [of ?a ?bs] le_less_trans by blast
  qed
  moreover obtain u cl where "tightest ?a ?bs = \<lparr>c_accepted = u, c_ceiling = cl\<rparr>"
    by (rule counted.cases)
  ultimately show ?thesis by (simp add: daily_refused_def Let_def)
qed

lemma reserveDaily_refused_is:
  assumes "reserveDailyQuota t n limit hard pool day' at' now db = Some (db', r)" "\<not> is_reserved r"
  shows "r = daily_refused t (charge_day day' now) (daily_cap limit hard) pool db'"
  using assms by (auto simp: reserveDailyQuota_def Let_def split: if_splits option.splits)

lemma reserveDaily_short:
  assumes "0 < n" "counts_nonneg db"
    and r: "reserveDailyQuota t n limit hard pool day' at' now db = Some (db', r)" "\<not> is_reserved r"
  shows "\<exists>u cl. r = Refused u cl False \<and> room \<lparr>c_accepted = u, c_ceiling = cl\<rparr> < Fin n"
proof -
  let ?day = "charge_day day' now"
  let ?fits = "\<not> exceeds (cnt (ud_counters db) (t, ?day) + n) (daily_cap limit hard)
      \<and> (case pool of None \<Rightarrow> True
         | Some p \<Rightarrow> pool_accepted db (dp_ownerId p, ?day) + n \<le> dailyCeiling (dp_limit p))"
  have "\<not> ?fits" "view_of db' = view_of db"
    using reserveDaily_correct [OF assms(1,2) refl refl refl, where t = t and limit = limit and hardLimit = hard
        and pool = pool and day' = day' and now = now and at' = at'] r
    by auto
  moreover from this(2) have "cnt (ud_counters db') = cnt (ud_counters db)"
    "pool_accepted db' = pool_accepted db" by (metis view_of_sel(1), metis view_of_sel(2))
  ultimately have "exceeds (cnt (ud_counters db') (t, ?day) + n) (daily_cap limit hard)
      \<or> (\<exists>p. pool = Some p \<and> dailyCeiling (dp_limit p) < pool_accepted db' (dp_ownerId p, ?day) + n)"
    by (auto split: option.splits)
  from daily_refused_short [OF assms(1) this] show ?thesis
    using reserveDaily_refused_is [OF r] by simp
qed

text \<open>
  A refusal reports a counter that has no room for the send (of those it ran against,
  the one with the least room), so a batch cut down to the reported room is what may go.
\<close>

theorem refusal_reports_short_room:
  assumes "0 < n" and "counts_nonneg db"
    and "reserveQuota t n q day' at' now db = Some (db', r)" and "\<not> is_reserved r"
  shows "\<exists>k. quotaRoom r = Some k \<and> 0 \<le> k \<and> k < n"
proof (cases q)
  case (QMonth p i s e ov pa c cl)
  let ?c = "period_ceiling i ov"
  have R: "reservePeriodQuota t n i s ov cl day' at' now db = Some (db', r)"
    using assms(3) QMonth by (simp add: reserveQuota_def)
  consider "?c < n" | "n \<le> ?c" "take_period (t, s) n ?c db = None"
    | db1 acc where "n \<le> ?c" "take_period (t, s) n ?c db = Some (db1, acc)"
    by (cases "take_period (t, s) n ?c db") force+
  then show ?thesis
  proof cases
    case 1
    have "0 \<le> period_accepted db (t, s)" using assms(2) unfolding counts_nonneg_def by blast
    then show ?thesis using R 1 assms(1) by (auto simp: reservePeriodQuota_def Let_def quotaRoom_def)
  next
    case 2
    then have "?c < period_accepted db (t, s) + n" by (simp add: take_period_None)
    then show ?thesis using R 2 assms(1)
      by (auto simp: reservePeriodQuota_def Let_def quotaRoom_def simp del: period_accepted_simps)
  next
    case 3
    note t1 = take_period_Some [OF 3(2,1)]
    have "ud_counters db1 = ud_counters db" "pool_accepted db1 = pool_accepted db"
      by (subst t1(4); simp)+
    then have nn: "counts_nonneg db1" using assms(1,2) t1(1) by (simp add: counts_nonneg_def)
    from R 3 assms(1,4) obtain db2 d where D:
      "reserveDailyQuota t n None cl None day' at' now db1 = Some (db2, d)" "\<not> is_reserved d"
      "r = Refused (qr_accepted d) (qr_ceiling d) True"
      by (auto simp: reservePeriodQuota_def Let_def split: option.splits prod.splits if_splits)
    from reserveDaily_short [OF assms(1) nn D(1,2)] D(3) show ?thesis
      using room_short [OF assms(1)] by (auto simp: quotaRoom_def)
  qed
next
  case QNone
  then have R: "reserveDailyQuota t n None None None day' at' now db = Some (db', r)"
    using assms(3) by (simp add: reserveQuota_def)
  show ?thesis using reserveDaily_short [OF assms(1,2) R assms(4)] room_short [OF assms(1)] by blast
next
  case (QDay p l c pool)
  then have R: "reserveDailyQuota t n (Some l) c pool day' at' now db = Some (db', r)"
    using assms(3) by (simp add: reserveQuota_def)
  show ?thesis using reserveDaily_short [OF assms(1,2) R assms(4)] room_short [OF assms(1)] by blast
qed

theorem refusal_reports_short_room_witness:
  "\<exists>db' r k. reserveQuota ''t1'' 200 (QDay FreePlan 100 None None) None None 0 empty_usage = Some (db', r)
     \<and> \<not> is_reserved r \<and> quotaRoom r = Some k \<and> 0 \<le> k \<and> k < 200"
proof -
  have "reserveQuota ''t1'' 200 (QDay FreePlan 100 None None) None None 0 empty_usage
      = Some (empty_usage, Refused 0 (Some 150) False)"
    by (simp add: reserveQuota_def reserveDailyQuota_def daily_cap_def min_ceiling_def dailyCeiling_def
        consts_defs daily_refused_def) (simp add: empty_usage_def)
  then show ?thesis
    using refusal_reports_short_room [OF _ counts_nonneg_empty, of 200] by fastforce
qed

subsection \<open>Releases\<close>

text \<open>What giving back does to the view: the floor at zero, the hour without a floor.\<close>

definition sub_at :: "'k \<Rightarrow> int \<Rightarrow> ('k \<Rightarrow> int) \<Rightarrow> 'k \<Rightarrow> int" where
  "sub_at k n f = f(k := max (f k - n) 0)"

fun quota_release :: "team_quota \<Rightarrow> ident \<Rightarrow> int \<Rightarrow> instant \<Rightarrow> int \<Rightarrow> usage_view \<Rightarrow> usage_view" where
  "quota_release q t day at n v =
     v\<lparr>v_day := sub_at (t, day) n (v_day v),
       v_pool := (case q of QDay _ _ _ (Some p) \<Rightarrow> sub_at (dp_ownerId p, day) n (v_pool v)
                  | _ \<Rightarrow> v_pool v),
       v_period := (case q of QMonth _ _ start _ _ _ _ _ \<Rightarrow> sub_at (t, start) n (v_period v)
                    | _ \<Rightarrow> v_period v),
       v_hour := add_at (t, utcHour at) (- n) (v_hour v)\<rparr>"

lemma sub_at_add_at [simp]: "0 \<le> f k \<Longrightarrow> 0 < n \<Longrightarrow> sub_at k n (add_at k n f) = f"
  by (simp add: sub_at_def add_at_def)

lemma cnt_floor_sub:
  "0 < n \<Longrightarrow> 0 \<le> cnt m k \<Longrightarrow> cnt (map_upd (floor_sub n) k m) = sub_at k n (cnt m)"
  by (rule ext) (auto simp: sub_at_def cnt_give_team)

lemma releaseDaily_view:
  assumes "0 < n" "counts_nonneg db"
  shows "\<exists>db'. releaseDailyQuota t n pool day' at' now db = Some db'
     \<and> view_of db' = quota_release (QDay FreePlan 0 None pool) t (charge_day day' now)
         (charge_at day' at' now) n (view_of db)"
proof -
  let ?day = "charge_day day' now"
  let ?db1 = "give_team (t, ?day) n db"
  have nn: "0 \<le> cnt (ud_counters db) k" "0 \<le> pool_accepted db k" for k
    using assms(2) unfolding counts_nonneg_def by blast+
  have p1: "pool_accepted ?db1 = pool_accepted db" by (simp add: give_team_def)
  have D: "releaseDailyQuota t n pool day' at' now db
      = Some (bumpHourlyUsage t (charge_at day' at' now) [UAccepted \<mapsto> - n]
          (case pool of None \<Rightarrow> ?db1 | Some p \<Rightarrow> give_pool (dp_ownerId p, ?day) n ?db1))"
    using assms(1) by (cases pool) (simp_all add: releaseDailyQuota_def Let_def give_team_def give_pool_def)
  have "pool_accepted (give_pool k n ?db1) = sub_at k n (pool_accepted db)" for k
    using pool_accepted_give [OF assms(1), of ?db1 k] nn(2) [of k] by (simp add: p1 sub_at_def)
  moreover have "ud_counters (give_pool k n ?db1) = ud_counters ?db1"
    "period_accepted (give_pool k n ?db1) = period_accepted ?db1"
    "hourly_accepted (give_pool k n ?db1) = hourly_accepted ?db1" for k
    by (simp_all add: give_pool_def)
  moreover have "cnt (ud_counters ?db1) = sub_at (t, ?day) n (cnt (ud_counters db))"
    "period_accepted ?db1 = period_accepted db" "hourly_accepted ?db1 = hourly_accepted db"
    using cnt_floor_sub [OF assms(1) nn(1)] by (simp_all add: give_team_def)
  ultimately show ?thesis unfolding D using assms(1)
    by (cases pool) (simp_all add: view_of_def bump_hourly_accepted p1)
qed

lemma releaseQuota_view:
  assumes "0 < n" "counts_nonneg db"
  shows "\<exists>db'. releaseQuota t n q day' at' now db = Some db'
     \<and> view_of db' = quota_release q t (charge_day day' now) (charge_at day' at' now) n (view_of db)"
proof (cases q)
  case QNone
  then show ?thesis using releaseDaily_view [OF assms, of t None day' at' now]
    by (simp add: releaseQuota_def)
next
  case (QDay p l c pool)
  then show ?thesis using releaseDaily_view [OF assms, of t pool day' at' now]
    by (simp add: releaseQuota_def)
next
  case (QMonth p i s e ov pa c cl)
  let ?db1 = "releasePeriodCount t n s db"
  have nn: "0 \<le> period_accepted db k" for k using assms(2) unfolding counts_nonneg_def by blast
  have p: "period_accepted ?db1 = sub_at (t, s) n (period_accepted db)"
    using period_accepted_give [OF assms(1) nn] by (simp add: sub_at_def)
  then have "counts_nonneg ?db1" using assms(2) by (simp add: counts_nonneg_def sub_at_def)
  from releaseDaily_view [OF assms(1) this, of t None day' at' now]
  show ?thesis using QMonth assms(1) p
    by (simp add: releaseQuota_def releasePeriodQuota_def view_of_def)
qed

lemma release_undoes_reserve_lemma:
  assumes "0 < n" and "counts_nonneg db"
    and "reserveQuota t n q day' at' now db = Some (db', r)" and "is_reserved r"
  shows "\<exists>db''. releaseQuota t n q day' at' now db' = Some db'' \<and> view_of db'' = view_of db"
proof -
  let ?day = "charge_day day' now" and ?at = "charge_at day' at' now"
  have nn: "0 \<le> v_day (view_of db) k" "0 \<le> v_pool (view_of db) k" "0 \<le> v_period (view_of db) k" for k
    using assms(2) unfolding counts_nonneg_view by blast+
  have v: "view_of db' = quota_charge q t ?day ?at n (view_of db)"
    using reserveQuota_refines_lemma [OF assms(1,2) refl refl] assms(3,4) by (metis option.inject prod.inject)
  have "counts_nonneg db'"
    unfolding counts_nonneg_view v using nn assms(1)
    by (auto simp: add_at_def simp del: view_of_sel split: team_quota.splits option.splits intro: add_nonneg_nonneg)
  from releaseQuota_view [OF assms(1) this, of t q day' at' now]
  obtain db'' where "releaseQuota t n q day' at' now db' = Some db''"
    "view_of db'' = quota_release q t ?day ?at n (quota_charge q t ?day ?at n (view_of db))"
    by (auto simp: v)
  moreover have "quota_release q t ?day ?at n (quota_charge q t ?day ?at n (view_of db)) = view_of db"
    using nn assms(1)
    by (intro view_eqI) (auto simp del: view_of_sel split: team_quota.splits option.splits)
  ultimately show ?thesis by simp
qed

text \<open>
  C3: the compensating release undoes a reservation that was granted: called with the same
  quota and time, it puts every counter back, the hourly one included.
\<close>

theorem release_undoes_reserve:
  assumes "0 < n" and "counts_nonneg db"
    and "reserveQuota t n q day' at' now db = Some (db', r)" and "is_reserved r"
  shows "\<exists>db''. releaseQuota t n q day' at' now db' = Some db'' \<and> view_of db'' = view_of db"
  using assms by (rule release_undoes_reserve_lemma)

theorem release_undoes_reserve_witness:
  "\<exists>db' db''. reserveQuota ''t1'' 30 QNone None None 0 empty_usage = Some (db', Reserved 30 None)
     \<and> releaseQuota ''t1'' 30 QNone None None 0 db' = Some db'' \<and> view_of db'' = view_of empty_usage"
proof -
  obtain db' where R: "reserveQuota ''t1'' 30 QNone None None 0 empty_usage = Some (db', Reserved 30 None)"
    by (simp add: reserveQuota_def reserveDailyQuota_def daily_cap_def min_ceiling_def take_team_def
        upsert_def Let_def empty_usage_def)
  then show ?thesis
    using release_undoes_reserve [OF _ counts_nonneg_empty R] by simp
qed

subsection \<open>Caps over time\<close>

text \<open>
  Any sequence of accept calls, cancellations and other writers of the tables, at any
  instants and in any order, with each team under a fixed quota.
\<close>

inductive usage_reachable :: "(ident \<Rightarrow> team_quota) \<Rightarrow> usage_db \<Rightarrow> bool" for Q where
  start: "usage_reachable Q empty_usage"
| reserve: "usage_reachable Q db \<Longrightarrow> reserveQuota t n (Q t) day at now db = Some (db', r)
    \<Longrightarrow> usage_reachable Q db'"
| release: "usage_reachable Q db \<Longrightarrow> releaseQuota t n (Q t) day at now db = Some db'
    \<Longrightarrow> usage_reachable Q db'"
| bump_pool: "usage_reachable Q db \<Longrightarrow> usage_reachable Q (bumpFreePoolUsage teams ref day counts now db)"
| burst: "usage_reachable Q db \<Longrightarrow> usage_reachable Q (fst (bookFreeBurst ow n now db))"

fun day_cap :: "team_quota \<Rightarrow> int option" where
  "day_cap QNone = None"
| "day_cap (QDay _ limit c _) = daily_cap (Some limit) c"
| "day_cap (QMonth _ _ _ _ _ _ _ c) = c"

fun quota_pool :: "team_quota \<Rightarrow> daily_pool option" where
  "quota_pool (QDay _ _ _ p) = p"
| "quota_pool _ = None"

fun quota_period :: "team_quota \<Rightarrow> (instant \<times> int) option" where
  "quota_period (QMonth _ included start _ overage _ _ _) = Some (start, period_ceiling included overage)"
| "quota_period _ = None"

definition within_caps :: "(ident \<Rightarrow> team_quota) \<Rightarrow> int \<Rightarrow> usage_view \<Rightarrow> bool" where
  "within_caps Q pool_cap v \<longleftrightarrow>
     (\<forall>t day. 0 < v_day v (t, day) \<longrightarrow> \<not> exceeds (v_day v (t, day)) (day_cap (Q t)))
     \<and> (\<forall>k. v_pool v k \<le> pool_cap)
     \<and> (\<forall>t s c. quota_period (Q t) = Some (s, c) \<longrightarrow> 0 < v_period v (t, s) \<longrightarrow> v_period v (t, s) \<le> c)"

lemma within_capsI:
  assumes "\<And>t day. 0 < v_day v (t, day) \<Longrightarrow> \<not> exceeds (v_day v (t, day)) (day_cap (Q t))"
    and "\<And>k. v_pool v k \<le> P"
    and "\<And>t s c. quota_period (Q t) = Some (s, c) \<Longrightarrow> 0 < v_period v (t, s) \<Longrightarrow> v_period v (t, s) \<le> c"
  shows "within_caps Q P v"
  using assms unfolding within_caps_def by blast

lemma within_capsD:
  assumes "within_caps Q P v"
  shows "0 < v_day v (t, day) \<Longrightarrow> \<not> exceeds (v_day v (t, day)) (day_cap (Q t))"
    and "v_pool v k \<le> P"
    and "quota_period (Q t) = Some (s, c) \<Longrightarrow> 0 < v_period v (t, s) \<Longrightarrow> v_period v (t, s) \<le> c"
  using assms unfolding within_caps_def by blast+

lemma within_caps_release:
  assumes "within_caps Q P v" "0 < n" "0 \<le> P"
  shows "within_caps Q P (quota_release (Q t) t day at n v)"
proof -
  have le: "sub_at k n f j \<le> max (f j) 0" for k j :: "'k" and f
    using assms(2) by (auto simp: sub_at_def max_def)
  let ?v = "quota_release (Q t) t day at n v"
  have "v_day ?v k \<le> max (v_day v k) 0" "v_pool ?v j \<le> max (v_pool v j) 0"
    "v_period ?v i \<le> max (v_period v i) 0" for k j i
    using le by (auto split: team_quota.splits option.splits)
  note b = this
  show ?thesis
  proof (rule within_capsI)
    fix u d assume p: "0 < v_day ?v (u, d)"
    with b(1) [of "(u, d)"] have "0 < v_day v (u, d)" "v_day ?v (u, d) \<le> v_day v (u, d)"
      unfolding max_def by (smt (verit))+
    then show "\<not> exceeds (v_day ?v (u, d)) (day_cap (Q u))"
      using within_capsD(1) [OF assms(1)] exceeds_mono by blast
  next
    fix k show "v_pool ?v k \<le> P" using b(2) [of k] within_capsD(2) [OF assms(1), of k] assms(3) by linarith
  next
    fix u s c assume "quota_period (Q u) = Some (s, c)" "0 < v_period ?v (u, s)"
    then show "v_period ?v (u, s) \<le> c"
      using b(3) [of "(u, s)"] within_capsD(3) [OF assms(1), of u s c] by linarith
  qed
qed

lemma within_caps_charge:
  assumes "within_caps Q P v" "0 < n" "quota_fits (Q t) t day n v"
    and "\<And>p. quota_pool (Q t) = Some p \<Longrightarrow> dailyCeiling (dp_limit p) \<le> P"
  shows "within_caps Q P (quota_charge (Q t) t day at n v)"
proof -
  let ?v = "quota_charge (Q t) t day at n v"
  have D: "\<not> exceeds (v_day ?v (t, day)) (day_cap (Q t))"
    using assms(3) by (cases "Q t") (simp_all add: add_at_def)
  have F: "v_day ?v k = v_day v k" if "k \<noteq> (t, day)" for k
    using that by (simp add: add_at_def)
  have Pl: "v_pool ?v k \<le> P" for k
  proof -
    have "v_pool v k \<le> P" using within_capsD(2) [OF assms(1)] .
    then show ?thesis
      using assms(3,4) by (cases "Q t") (auto simp: add_at_def split: option.splits intro: order_trans)
  qed
  have Pe: "v_period ?v (u, s) \<le> c"
    if "quota_period (Q u) = Some (s, c)" "0 < v_period ?v (u, s)" for u s c
  proof (cases "u = t")
    case True
    then show ?thesis using that assms(3) by (cases "Q t") (simp_all add: add_at_def)
  next
    case False
    then have "v_period ?v (u, s) = v_period v (u, s)"
      by (cases "Q t") (simp_all add: add_at_def)
    then show ?thesis using that within_capsD(3) [OF assms(1), of u s c] by simp
  qed
  show ?thesis
  proof (rule within_capsI)
    fix u d assume p: "0 < v_day ?v (u, d)"
    show "\<not> exceeds (v_day ?v (u, d)) (day_cap (Q u))"
    proof (cases "(u, d) = (t, day)")
      case True
      then show ?thesis using D by simp
    next
      case False
      show ?thesis unfolding F [OF False]
        using p [unfolded F [OF False]] within_capsD(1) [OF assms(1)] by blast
    qed
  qed (rule Pl, rule Pe)
qed

lemma fold_add_pool_accepted [simp]: "pr_accepted (fold add_pool_counter es r) = pr_accepted r"
proof (induction es arbitrary: r)
  case (Cons e es)
  then show ?case by (cases e; cases "fst e") auto
qed simp

lemma bumpFreePoolUsage_view [simp]: "view_of (bumpFreePoolUsage teams ref day counts now db) = view_of db"
proof -
  have "pool_accepted (db\<lparr>ud_pool := (ud_pool db)(k \<mapsto> fold add_pool_counter es r)\<rparr>) = pool_accepted db"
    if "pr_accepted r = pool_accepted db k" for k r es
    using that by simp
  moreover have "hourly_accepted (db\<lparr>ud_pool := m\<rparr>) = hourly_accepted db" for m by simp
  ultimately show ?thesis
    by (intro view_eqI)
      (auto simp: bumpFreePoolUsage_def Let_def upsert_def empty_pool_row_def split: option.splits)
qed

lemma bookFreeBurst_view [simp]: "view_of (fst (bookFreeBurst ow n now db)) = view_of db"
  by (intro view_eqI)
    (auto simp: bookFreeBurst_def Let_def upsert_def fun_eq_iff pool_accepted_def period_accepted_def
      hourly_accepted_def split: option.splits)

lemma reserve_needs_positive: "reserveQuota t n q day at now db = Some x \<Longrightarrow> 0 < n"
  by (auto simp: reserveQuota_def reservePeriodQuota_def reserveDailyQuota_def
      split: team_quota.splits if_splits)

lemma release_needs_positive: "releaseQuota t n q day at now db = Some x \<Longrightarrow> 0 < n"
  by (auto simp: releaseQuota_def releasePeriodQuota_def releaseDailyQuota_def
      split: team_quota.splits if_splits)

lemma nonneg_charge:
  assumes "0 < n" "\<forall>k. 0 \<le> v_day v k" "\<forall>k. 0 \<le> v_pool v k" "\<forall>k. 0 \<le> v_period v k"
  shows "(\<forall>k. 0 \<le> v_day (quota_charge q t day at n v) k) \<and> (\<forall>k. 0 \<le> v_pool (quota_charge q t day at n v) k)
     \<and> (\<forall>k. 0 \<le> v_period (quota_charge q t day at n v) k)"
proof -
  have a: "\<forall>k. 0 \<le> f k \<Longrightarrow> 0 \<le> add_at j n f k" for f j and k :: "'k"
    using assms(1) by (simp add: add_at_def)
  show ?thesis using assms(2-4)
    by (simp add: a split: team_quota.split option.split)
qed

lemma nonneg_release:
  assumes "\<forall>k. 0 \<le> v_day v k" "\<forall>k. 0 \<le> v_pool v k" "\<forall>k. 0 \<le> v_period v k"
  shows "(\<forall>k. 0 \<le> v_day (quota_release q t day at n v) k) \<and> (\<forall>k. 0 \<le> v_pool (quota_release q t day at n v) k)
     \<and> (\<forall>k. 0 \<le> v_period (quota_release q t day at n v) k)"
proof -
  have a: "\<forall>k. 0 \<le> f k \<Longrightarrow> 0 \<le> sub_at j n f k" for f j and k :: "'k"
    by (simp add: sub_at_def)
  show ?thesis using assms
    by (simp add: a split: team_quota.split option.split)
qed

lemma usage_reachable_inv:
  assumes "usage_reachable Q db" and "0 \<le> P"
    and pools: "\<And>t p. quota_pool (Q t) = Some p \<Longrightarrow> dailyCeiling (dp_limit p) \<le> P"
  shows "counts_nonneg db \<and> within_caps Q P (view_of db)"
  using assms(1)
proof (induction rule: usage_reachable.induct)
  case start
  then show ?case using assms(2) by (simp add: within_caps_def)
next
  case (reserve db t n day at now db' r)
  have n: "0 < n" using reserve_needs_positive [OF reserve.hyps(2)] .
  let ?fits = "quota_fits (Q t) t (charge_day day now) n (view_of db)"
  have v: "view_of db' = (if ?fits
      then quota_charge (Q t) t (charge_day day now) (charge_at day at now) n (view_of db) else view_of db)"
    using reserveQuota_refines_lemma [OF n _ refl refl, where db = db and t = t and q = "Q t"
        and day' = day and now = now and at' = at] reserve by auto
  show ?case
  proof (cases ?fits)
    case True
    with v have v': "view_of db'
      = quota_charge (Q t) t (charge_day day now) (charge_at day at now) n (view_of db)" by simp
    have "counts_nonneg db'" unfolding counts_nonneg_view v'
      using reserve.IH unfolding counts_nonneg_view by (intro nonneg_charge [OF n]) blast+
    moreover have "within_caps Q P (view_of db')" unfolding v'
      by (rule within_caps_charge) (use reserve.IH n True pools in simp_all)
    ultimately show ?thesis ..
  next
    case False
    with v have "view_of db' = view_of db" by simp
    then show ?thesis using reserve.IH by (simp add: counts_nonneg_view)
  qed
next
  case (release db t n day at now db')
  have n: "0 < n" using release_needs_positive [OF release.hyps(2)] .
  have v: "view_of db' = quota_release (Q t) t (charge_day day now) (charge_at day at now) n (view_of db)"
    using releaseQuota_view [OF n, of db t "Q t" day at now] release by auto
  have "counts_nonneg db'" unfolding counts_nonneg_view v
    using release.IH unfolding counts_nonneg_view by (intro nonneg_release) blast+
  moreover have "within_caps Q P (view_of db')" unfolding v
    using within_caps_release [OF _ n assms(2)] release.IH by blast
  ultimately show ?case ..
qed (simp_all add: counts_nonneg_view)


definition example_rows :: "ident \<Rightarrow> team_row" where
  "example_rows t = \<lparr>tr_plan = FreePlan, tr_planQuota = None, tr_planStatus = SNone,
     tr_currentPeriodStart = None, tr_currentPeriodEnd = None, tr_overageEnabled = False,
     tr_dailySendCeiling = None, tr_poolOwnerId = Some ''u1''\<rparr>"

abbreviation example_free_quota :: team_quota where
  "example_free_quota \<equiv> QDay FreePlan 100 None (Some \<lparr>dp_ownerId = ''u1'', dp_limit = 100\<rparr>)"

lemma example_rows_quota: "teamQuota (example_rows t) True 0 = Some example_free_quota"
  by (simp add: teamQuota_def planQuota_def example_rows_def effectivePlan_def teamRung_def rung_table
      freePoolOwner_def withCeiling_def)


subsection \<open>The burst allowance\<close>

text \<open>Bookings of one owner in order: the recipients booked so far, with the slot given last.\<close>

fun burst_run :: "ident \<Rightarrow> int \<Rightarrow> (int \<times> instant) list \<Rightarrow> usage_db \<Rightarrow> (int \<times> instant) list" where
  "burst_run ow tot [] db = []"
| "burst_run ow tot ((n, now) # bs) db =
     (let (db', slot) = bookFreeBurst ow n now db in (tot + n, slot) # burst_run ow (tot + n) bs db')"

definition burst_floor :: "instant \<Rightarrow> ident \<Rightarrow> usage_db \<Rightarrow> instant" where
  "burst_floor t0 ow db = (case ud_bursts db ow of None \<Rightarrow> t0 | Some tat \<Rightarrow> tat)"

lemma bookFreeBurst_step:
  assumes "t0 \<le> now" "bookFreeBurst ow n now db = (db', slot)"
  shows "burst_floor t0 ow db + n * FREE_BURST_REFILL_MS \<le> burst_floor t0 ow db'"
    and "burst_floor t0 ow db' \<le> slot + FREE_BURST_WINDOW_MS" and "now \<le> slot"
  using assms
  by (auto simp: bookFreeBurst_def burst_floor_def Let_def upsert_def split: option.splits)

lemma burst_run_bound:
  assumes "\<forall>(n, now) \<in> set bs. t0 \<le> now" "t0 + tot * FREE_BURST_REFILL_MS \<le> burst_floor t0 ow db"
    and "(k, slot) \<in> set (burst_run ow tot bs db)"
  shows "t0 + k * FREE_BURST_REFILL_MS \<le> slot + FREE_BURST_WINDOW_MS"
  using assms
proof (induction bs arbitrary: tot db)
  case Nil
  then show ?case by simp
next
  case (Cons b bs)
  obtain n now where b: "b = (n, now)" by (cases b)
  obtain db' sl where B: "bookFreeBurst ow n now db = (db', sl)" by (cases "bookFreeBurst ow n now db")
  have t0: "t0 \<le> now" using Cons.prems(1) b by simp
  note st = bookFreeBurst_step [OF t0 B]
  have fl: "t0 + (tot + n) * FREE_BURST_REFILL_MS \<le> burst_floor t0 ow db'"
    using st(1) Cons.prems(2) by (simp add: distrib_right)
  from Cons.prems(3) b B consider "k = tot + n" "slot = sl"
    | "(k, slot) \<in> set (burst_run ow (tot + n) bs db')" by auto
  then show ?case
  proof cases
    case 1
    show ?thesis unfolding 1 using fl st(2) by linarith
  next
    case 2
    then show ?thesis using Cons.IH [OF _ fl] Cons.prems(1) by simp
  qed
qed

text \<open>
  The burst allowance of a Free pool. Whatever the bookings, by the slot of any of them
  the pool has booked at most 10 recipients plus one for every six minutes since the first
  possible booking; and a booking into an allowance that is full again goes at once when it
  has at most 10 recipients.
\<close>

theorem free_burst_bound:
  assumes "\<forall>(n, now) \<in> set bs. t0 \<le> now"
    and "(k, slot) \<in> set (burst_run ow 0 bs empty_usage)"
  shows "(k - 10) * (6 * 60000) \<le> slot - t0
    \<and> (n \<le> 10 \<and> burst_floor now ow db \<le> now \<longrightarrow> snd (bookFreeBurst ow n now db) = now)"
proof -
  have "t0 + k * FREE_BURST_REFILL_MS \<le> slot + FREE_BURST_WINDOW_MS"
    using burst_run_bound [OF assms(1) _ assms(2)] by (simp add: burst_floor_def empty_usage_def)
  then have "(k - 10) * (6 * 60000) \<le> slot - t0" by (simp add: consts_defs)
  moreover have "snd (bookFreeBurst ow n now db) = now" if "n \<le> 10" "burst_floor now ow db \<le> now"
    using that
    by (auto simp: bookFreeBurst_def burst_floor_def Let_def upsert_def consts_defs max_def split: option.splits)
  ultimately show ?thesis by blast
qed

theorem free_burst_bound_witness:
  "(13, 360000 * 3) \<in> set (burst_run ''u1'' 0 [(8, 0), (5, 0)] empty_usage)
   \<and> (13 - 10) * (6 * 60000) \<le> (360000 * 3 :: int) - 0"
proof -
  have m: "(13, 360000 * 3) \<in> set (burst_run ''u1'' 0 [(8, 0), (5, 0)] empty_usage)"
    by (simp add: bookFreeBurst_def upsert_def empty_usage_def consts_defs)
  then show ?thesis using free_burst_bound [OF _ m, of 0] by simp
qed

end
