(* ===== verification/Idempotency.thy ===== *)
theory Idempotency
  imports JsDate
begin

text \<open>
  \<open>packages/core/src/idempotency.ts\<close>: the \<open>Idempotency-Key\<close> claims. The table
  \<open>idempotency_keys\<close> is a finite map from team and key to a row; the claim is one atomic
  upsert, and the read after a lost claim is a second statement, so \<open>beginIdempotent\<close>
  takes what other requests did to the table between the two as a parameter.
\<close>

section \<open>Operations\<close>

record idem_row =
  ir_bodyHash :: string
  ir_responseEmailIds :: "ident list option"
  ir_expiresAt :: instant
  ir_createdAt :: instant

type_synonym idem_db = "ident \<times> string \<rightharpoonup> idem_row"

datatype idem_begin = BNew | BReplay "ident list" | BInFlight | BConflict

definition TTL_MS :: int where [consts_defs]: "TTL_MS = DAY_MS"
definition IN_FLIGHT_LEASE_MS :: int where [consts_defs]: "IN_FLIGHT_LEASE_MS = 10 * 60 * 1000"

definition claim_row :: "string \<Rightarrow> instant \<Rightarrow> idem_row" where
  "claim_row bodyHash now = \<lparr>ir_bodyHash = bodyHash, ir_responseEmailIds = None,
     ir_expiresAt = now + TTL_MS, ir_createdAt = now\<rparr>"

definition claim_key :: "ident \<times> string \<Rightarrow> string \<Rightarrow> instant \<Rightarrow> idem_db \<Rightarrow> (idem_db \<times> idem_row) option" where
  "claim_key k bodyHash now db =
     upsert k (claim_row bodyHash now)
       (\<lambda>t. if ir_expiresAt t \<le> now
               \<or> (ir_responseEmailIds t = None \<and> ir_createdAt t < now - IN_FLIGHT_LEASE_MS
                   \<and> ir_bodyHash t = bodyHash)
            then Some (claim_row bodyHash now) else None) db"

definition read_claim :: "ident \<times> string \<Rightarrow> string \<Rightarrow> instant \<Rightarrow> idem_db \<Rightarrow> idem_begin" where
  "read_claim k bodyHash now db =
     (case db k of
        None \<Rightarrow> BConflict
      | Some t \<Rightarrow>
          if \<not> now < ir_expiresAt t then BConflict
          else if ir_bodyHash t \<noteq> bodyHash then BConflict
          else (case ir_responseEmailIds t of None \<Rightarrow> BInFlight | Some ids \<Rightarrow> BReplay ids))"

definition beginIdempotent ::
    "(idem_db \<Rightarrow> idem_db) \<Rightarrow> ident \<times> string \<Rightarrow> string \<Rightarrow> instant \<Rightarrow> idem_db \<Rightarrow> idem_db \<times> idem_begin" where
  "beginIdempotent others k bodyHash now db =
     (case claim_key k bodyHash now db of
        Some (db', _) \<Rightarrow> (db', BNew)
      | None \<Rightarrow> (others db, read_claim k bodyHash now (others db)))"

definition completeIdempotent :: "ident \<times> string \<Rightarrow> ident list \<Rightarrow> idem_db \<Rightarrow> idem_db \<times> bool" where
  "completeIdempotent k emailIds db =
     (case db k of
        None \<Rightarrow> (db, False)
      | Some t \<Rightarrow> if ir_responseEmailIds t = None
                  then (db(k \<mapsto> t\<lparr>ir_responseEmailIds := Some emailIds\<rparr>), True) else (db, False))"

definition releaseIdempotent :: "ident \<times> string \<Rightarrow> idem_db \<Rightarrow> idem_db" where
  "releaseIdempotent k db =
     (case db k of
        None \<Rightarrow> db
      | Some t \<Rightarrow> if ir_responseEmailIds t = None then db(k := None) else db)"

definition purgeExpiredIdempotencyKeys :: "instant \<Rightarrow> idem_db \<Rightarrow> idem_db" where
  "purgeExpiredIdempotencyKeys now db =
     (\<lambda>k. case db k of None \<Rightarrow> None | Some t \<Rightarrow> if ir_expiresAt t < now then None else Some t)"

section \<open>Requests as a sequence of statements\<close>

text \<open>Each statement that writes the table, by any process, at its own instant.\<close>

datatype idem_op =
  OClaim "ident \<times> string" string instant
| OComplete "ident \<times> string" "ident list"
| ORelease "ident \<times> string"
| OPurge instant

fun idem_exec :: "idem_op \<Rightarrow> idem_db \<Rightarrow> idem_db" where
  "idem_exec (OClaim k b now) db = (case claim_key k b now db of Some (db', _) \<Rightarrow> db' | None \<Rightarrow> db)"
| "idem_exec (OComplete k ids) db = fst (completeIdempotent k ids db)"
| "idem_exec (ORelease k) db = releaseIdempotent k db"
| "idem_exec (OPurge now) db = purgeExpiredIdempotencyKeys now db"

definition idem_run :: "idem_op list \<Rightarrow> idem_db \<Rightarrow> idem_db" where
  "idem_run ops db = fold idem_exec ops db"

text \<open>No claim or purge of the sequence runs after an instant.\<close>

fun op_by :: "instant \<Rightarrow> idem_op \<Rightarrow> bool" where
  "op_by limit (OClaim _ _ now) = (now \<le> limit)"
| "op_by limit (OPurge now) = (now \<le> limit)"
| "op_by _ _ = True"

lemma claim_key_None_iff:
  "claim_key k b now db = None \<longleftrightarrow>
     (\<exists>t. db k = Some t \<and> now < ir_expiresAt t
        \<and> \<not> (ir_responseEmailIds t = None \<and> ir_createdAt t < now - IN_FLIGHT_LEASE_MS \<and> ir_bodyHash t = b))"
  by (cases "db k") (auto simp: claim_key_def upsert_def)

lemma claim_key_SomeD:
  "claim_key k b now db = Some (db', r) \<Longrightarrow> db' = db(k \<mapsto> claim_row b now) \<and> r = claim_row b now"
  by (auto simp: claim_key_def upsert_def split: option.splits if_splits)

text \<open>A completed row is fixed until it expires.\<close>

lemma completed_stays:
  assumes "db k = Some t" "ir_responseEmailIds t \<noteq> None" "op_by limit opn" "limit < ir_expiresAt t"
  shows "idem_exec opn db k = Some t"
proof (cases opn)
  case (OClaim j b now)
  show ?thesis
  proof (cases "claim_key j b now db")
    case (Some x)
    then have "j \<noteq> k" using assms claim_key_None_iff [of j b now db] by (auto simp: OClaim)
    then show ?thesis using Some assms(1) OClaim by (cases x) (auto dest: claim_key_SomeD)
  qed (use assms OClaim in simp)
next
  case (OComplete j ids)
  then show ?thesis using assms by (auto simp: completeIdempotent_def split: option.splits)
next
  case (ORelease j)
  then show ?thesis using assms by (auto simp: releaseIdempotent_def split: option.splits)
next
  case (OPurge now)
  then show ?thesis using assms by (auto simp: purgeExpiredIdempotencyKeys_def)
qed

lemma run_keeps:
  assumes "\<And>opn db. opn \<in> set ops \<Longrightarrow> P db \<Longrightarrow> P (idem_exec opn db)" "P db"
  shows "P (idem_run ops db)"
  using assms unfolding idem_run_def by (induction ops arbitrary: db) auto

lemma completed_stays_run:
  assumes "db k = Some t" "ir_responseEmailIds t \<noteq> None" "\<forall>opn \<in> set ops. op_by limit opn"
    "limit < ir_expiresAt t"
  shows "idem_run ops db k = Some t"
  by (rule run_keeps [where P = "\<lambda>db. db k = Some t"]) (use assms completed_stays in blast)+

text \<open>A live claim keeps its owner's row, completed or not, while its lease runs.\<close>

definition owned :: "ident \<times> string \<Rightarrow> string \<Rightarrow> instant \<Rightarrow> idem_db \<Rightarrow> bool" where
  "owned k b t0 db \<longleftrightarrow> (\<exists>r. db k = Some (claim_row b t0\<lparr>ir_responseEmailIds := r\<rparr>))"

lemma owned_no_claim:
  assumes "owned k b t0 db" "now \<le> t0 + IN_FLIGHT_LEASE_MS"
  shows "claim_key k b' now db = None"
  using assms unfolding claim_key_None_iff owned_def
  by (auto simp: claim_row_def consts_defs)

lemma owned_exec:
  assumes "owned k b t0 db" "op_by (t0 + IN_FLIGHT_LEASE_MS) opn" "opn \<noteq> ORelease k"
  shows "owned k b t0 (idem_exec opn db)"
proof (cases opn)
  case (OClaim j b' now)
  show ?thesis
  proof (cases "claim_key j b' now db")
    case (Some x)
    then have "j \<noteq> k" using owned_no_claim [OF assms(1), of now b'] assms(2) OClaim by auto
    moreover obtain db' r where x: "x = (db', r)" by (cases x)
    moreover from Some x have "db' = db(j \<mapsto> claim_row b' now)" by (simp add: claim_key_SomeD)
    ultimately show ?thesis using Some assms(1) OClaim by (simp add: owned_def)
  qed (use assms OClaim in simp)
next
  case (OComplete j ids)
  then show ?thesis using assms
    by (cases "db j"; cases "j = k") (auto simp: completeIdempotent_def owned_def claim_row_def)
next
  case (ORelease j)
  then show ?thesis using assms by (auto simp: releaseIdempotent_def owned_def split: option.splits)
next
  case (OPurge now)
  then show ?thesis using assms
    by (auto simp: purgeExpiredIdempotencyKeys_def owned_def claim_row_def consts_defs)
qed

section \<open>Properties\<close>

text \<open>
  C6: one owner at a time. After a request got "new" for a key, no other request gets it
  within the lease, whatever claims, completions, purges and releases of other keys run in
  between; only releasing the key itself frees it earlier.
\<close>

theorem idempotency_claim_exclusive:
  assumes "beginIdempotent others k b t0 db = (db1, BNew)"
    and "\<forall>opn \<in> set ops. op_by (t0 + IN_FLIGHT_LEASE_MS) opn \<and> opn \<noteq> ORelease k"
    and "now \<le> t0 + IN_FLIGHT_LEASE_MS"
  shows "snd (beginIdempotent others' k b' now (idem_run ops db1)) \<noteq> BNew"
proof -
  from assms(1) have "db1 = db(k \<mapsto> claim_row b t0)"
    by (auto simp: beginIdempotent_def read_claim_def dest: claim_key_SomeD split: option.splits if_splits)
  then have "owned k b t0 db1"
    by (auto simp: owned_def claim_row_def)
  then have "owned k b t0 (idem_run ops db1)"
    using run_keeps [where P = "owned k b t0"] owned_exec assms(2) by blast
  from owned_no_claim [OF this assms(3)]
  show ?thesis by (auto simp: beginIdempotent_def read_claim_def split: option.splits if_splits)
qed

theorem idempotency_claim_exclusive_witness:
  "snd (beginIdempotent id (''t'', ''key'') ''h'' 500000
      (idem_run [OComplete (''t'', ''key'') [''e1''], OPurge 400000]
         (fst (beginIdempotent id (''t'', ''key'') ''h'' 0 Map.empty)))) \<noteq> BNew"
proof -
  have "beginIdempotent id (''t'', ''key'') ''h'' 0 Map.empty
      = ([(''t'', ''key'') \<mapsto> claim_row ''h'' 0], BNew)"
    by (simp add: beginIdempotent_def claim_key_def upsert_def)
  from idempotency_claim_exclusive [OF this, of "[OComplete (''t'', ''key'') [''e1''], OPurge 400000]" 500000 id "''h''"]
  show ?thesis by (simp add: consts_defs beginIdempotent_def claim_key_def upsert_def)
qed

text \<open>
  A completed key answers from its record until it expires. Whatever else runs before
  the expiry, between the requests or between a request's two statements, the same body is
  replayed the recorded ids and a different body is refused as a conflict.
\<close>

theorem idempotency_replay:
  assumes "db k = Some t" and "completeIdempotent k ids db = (db1, True)"
    and "now < ir_expiresAt t"
    and "\<forall>opn \<in> set (ops @ between). op_by now opn"
  shows "snd (beginIdempotent (idem_run between) k b now (idem_run ops db1))
    = (if b = ir_bodyHash t then BReplay ids else BConflict)"
proof -
  let ?t = "t\<lparr>ir_responseEmailIds := Some ids\<rparr>"
  have "db1 k = Some ?t" using assms(1,2) by (auto simp: completeIdempotent_def split: if_splits)
  then have 1: "idem_run ops db1 k = Some ?t"
    using completed_stays_run [of db1 k ?t ops now] assms(3,4) by simp
  then have 2: "idem_run between (idem_run ops db1) k = Some ?t"
    using completed_stays_run [of "idem_run ops db1" k ?t between now] assms(3,4) by simp
  have "claim_key k b now (idem_run ops db1) = None"
    using 1 assms(3) by (simp add: claim_key_None_iff)
  then show ?thesis using 2 assms(3) by (simp add: beginIdempotent_def read_claim_def)
qed

theorem idempotency_replay_witness:
  "snd (beginIdempotent (idem_run [OPurge 1000]) (''t'', ''key'') ''h'' 1000
      (idem_run [ORelease (''t'', ''key'')]
        (fst (completeIdempotent (''t'', ''key'') [''e1''] [(''t'', ''key'') \<mapsto> claim_row ''h'' 0]))))
   = BReplay [''e1'']"
proof -
  let ?db = "[(''t'', ''key'') \<mapsto> claim_row ''h'' 0]"
  have "completeIdempotent (''t'', ''key'') [''e1''] ?db
    = (?db((''t'', ''key'') \<mapsto> (claim_row ''h'' 0)\<lparr>ir_responseEmailIds := Some [''e1'']\<rparr>), True)"
    by (simp add: completeIdempotent_def claim_row_def)
  from idempotency_replay [OF _ this, of "claim_row ''h'' 0" 1000 "[ORelease (''t'', ''key'')]" "[OPurge 1000]" "''h''"]
  show ?thesis by (simp add: claim_row_def consts_defs completeIdempotent_def)
qed

end
