(* ===== verification/Traffic.thy ===== *)
theory Traffic
  imports JsDate
begin

text \<open>
  \<open>packages/core/src/rate-limit.ts\<close> and \<open>concurrency.ts\<close>: the two fixed-window hit
  counters (the in-process \<open>Map\<close> with its sweep, and the \<open>api_rate_limits\<close> row), the
  FIFO semaphore, and the stream that releases a slot once. Both counters implement the
  interface \<open>window_counter\<close>, whose client theorem says that the count is exact.
\<close>

section \<open>Interface: a counter of hits per window\<close>

locale window_counter =
  fixes hit :: "'k \<Rightarrow> instant \<Rightarrow> 's \<Rightarrow> 's \<times> int"
    and entry :: "'s \<Rightarrow> 'k \<Rightarrow> (instant \<times> int) option"
    and window :: "instant \<Rightarrow> instant"
    and ok :: "'s \<Rightarrow> bool"
    and init :: 's
  assumes window_mono: "a \<le> b \<Longrightarrow> window a \<le> window b"
    and init_entry: "entry init k = None" and init_ok: "ok init"
    and hit_ok: "ok s \<Longrightarrow> ok (fst (hit k now s))"
    and hit_count: "ok s \<Longrightarrow> snd (hit k now s) =
       (case entry s k of Some (w, c) \<Rightarrow> if w = window now then c + 1 else 1 | None \<Rightarrow> 1)"
    and hit_same: "ok s \<Longrightarrow> entry (fst (hit k now s)) k = Some (window now, snd (hit k now s))"
    and hit_other: "ok s \<Longrightarrow> j \<noteq> k \<Longrightarrow> entry (fst (hit k now s)) j = entry s j
       \<or> entry (fst (hit k now s)) j = None \<and> (\<exists>w c. entry s j = Some (w, c) \<and> w \<noteq> window now)"
begin

fun hits :: "('k \<times> instant) list \<Rightarrow> 's \<Rightarrow> 's" where
  "hits [] s = s"
| "hits ((k, now) # hs) s = hits hs (fst (hit k now s))"

definition count_in :: "('k \<times> instant) list \<Rightarrow> 'k \<Rightarrow> instant \<Rightarrow> int" where
  "count_in hs k w = int (length (filter (\<lambda>h. fst h = k \<and> window (snd h) = w) hs))"

definition current :: "'s \<Rightarrow> 'k \<Rightarrow> instant \<Rightarrow> int" where
  "current s k w = (case entry s k of Some (w', c) \<Rightarrow> if w' = w then c else 0 | None \<Rightarrow> 0)"

lemma hits_append: "hits (hs @ [(k, now)]) s = fst (hit k now (hits hs s))"
  by (induction hs arbitrary: s) auto

text \<open>At or past the last hit's window, the stored counts are the history's.\<close>

lemma hits_exact:
  assumes "sorted (map snd hs)" "\<forall>h \<in> set hs. snd h \<le> now"
  shows "ok (hits hs init) \<and> (\<forall>k. current (hits hs init) k (window now) = count_in hs k (window now))"
  using assms
proof (induction hs arbitrary: now rule: rev_induct)
  case Nil
  then show ?case by (simp add: init_ok current_def init_entry count_in_def)
next
  case (snoc h hs)
  obtain j t where h: "h = (j, t)" by (cases h)
  let ?s = "hits hs init"
  let ?s' = "fst (hit j t ?s)"
  have sorted: "sorted (map snd hs)" "\<forall>x \<in> set hs. snd x \<le> t" "t \<le> now"
    using snoc.prems by (auto simp: h sorted_append)
  have IH: "ok ?s" "current ?s k (window t) = count_in hs k (window t)" for k
    using snoc.IH [OF sorted(1,2)] by auto
  have IHn: "current ?s k (window now) = count_in hs k (window now)" for k
    using snoc.IH [OF sorted(1), of now] sorted(2,3) by fastforce
  have jt: "snd (hit j t ?s) = count_in hs j (window t) + 1"
    using hit_count [OF IH(1), of j t] IH(2) [of j] by (auto simp: current_def split: option.splits)
  have "current ?s' k (window now) = count_in (hs @ [h]) k (window now)" for k
  proof (cases "window t = window now")
    case True
    show ?thesis
    proof (cases "k = j")
      case True
      then show ?thesis using hit_same [OF IH(1), of j t] jt \<open>window t = window now\<close>
        by (simp add: current_def count_in_def h)
    next
      case False
      then have "current ?s' k (window t) = current ?s k (window t)"
        using hit_other [OF IH(1) False, of t] by (auto simp: current_def)
      then show ?thesis using IH(2) [of k] False True by (simp add: count_in_def h)
    qed
  next
    case False
    have old: "window (snd x) \<noteq> window now" if "x \<in> set (hs @ [h])" for x
    proof -
      have "snd x \<le> t" using that sorted(2) h by auto
      then have "window (snd x) \<le> window t" by (rule window_mono)
      also have "window t \<le> window now" using sorted(3) by (rule window_mono)
      finally show ?thesis using False \<open>window t \<le> window now\<close> \<open>window (snd x) \<le> window t\<close> by auto
    qed
    then have z: "count_in (hs @ [h]) k (window now) = 0" "count_in hs k (window now) = 0"
      by (auto simp: count_in_def filter_empty_conv)
    have "current ?s' k (window now) = 0"
    proof (cases "k = j")
      case True
      then show ?thesis using hit_same [OF IH(1), of j t] False by (simp add: current_def)
    next
      case kj: False
      then show ?thesis using hit_other [OF IH(1) kj, of t] IHn [of k] z
        by (auto simp: current_def)
    qed
    then show ?thesis using z by simp
  qed
  then show ?case using hit_ok [OF IH(1)] by (simp add: h hits_append)
qed

theorem hit_exact:
  assumes "sorted (map snd hs)" "\<forall>h \<in> set hs. snd h \<le> now"
  shows "snd (hit k now (hits hs init)) = count_in hs k (window now) + 1"
proof -
  note e = hits_exact [OF assms]
  from e have c: "current (hits hs init) k (window now) = count_in hs k (window now)" by blast
  show ?thesis using hit_count [OF e [THEN conjunct1], of k now] c
    by (auto simp: current_def split: option.splits)
qed

end

section \<open>The in-process counter\<close>

text \<open>A JavaScript \<open>Map\<close>: pairs in insertion order, one per key.\<close>

type_synonym hit_map = "(string \<times> (instant \<times> int)) list"

fun js_map_set :: "'k \<Rightarrow> 'v \<Rightarrow> ('k \<times> 'v) list \<Rightarrow> ('k \<times> 'v) list" where
  "js_map_set k v [] = [(k, v)]"
| "js_map_set k v (p # ps) = (if fst p = k then (k, v) # ps else p # js_map_set k v ps)"

definition RATE_WINDOW_MS :: int where [consts_defs]: "RATE_WINDOW_MS = 60000"
definition RATE_COUNTER_SWEEP_SIZE :: nat where [consts_defs]: "RATE_COUNTER_SWEEP_SIZE = 10000"

definition rate_window :: "instant \<Rightarrow> instant" where
  "rate_window now = now - js_rem now RATE_WINDOW_MS"

record window_count =
  wc_count :: int
  wc_retryAfterSec :: int

definition sweep_hits :: "instant \<Rightarrow> hit_map \<Rightarrow> hit_map" where
  "sweep_hits windowStart hits =
     (if RATE_COUNTER_SWEEP_SIZE < length hits
      then filter (\<lambda>(k, v). \<not> fst v \<noteq> windowStart) hits else hits)"

definition fixedWindowCounter :: "string \<Rightarrow> instant \<Rightarrow> hit_map \<Rightarrow> hit_map \<times> window_count" where
  "fixedWindowCounter key now hits0 =
     (let windowStart = rate_window now;
          hits = sweep_hits windowStart hits0;
          count = (case map_of hits key of
                     Some (w, c) \<Rightarrow> if w = windowStart then c + 1 else 1
                   | None \<Rightarrow> 1)
      in (js_map_set key (windowStart, count) hits,
          \<lparr>wc_count = count,
           wc_retryAfterSec = max 1 (ceil_div (windowStart + RATE_WINDOW_MS - now) 1000)\<rparr>))"

lemma map_of_js_map_set: "map_of (js_map_set k v ps) = (map_of ps)(k \<mapsto> v)"
  by (induction ps) (auto simp: fun_upd_twist)

lemma keys_js_map_set: "set (map fst (js_map_set k v ps)) = insert k (set (map fst ps))"
  by (induction ps) auto

lemma distinct_js_map_set: "distinct (map fst ps) \<Longrightarrow> distinct (map fst (js_map_set k v ps))"
proof (induction ps)
  case (Cons p ps)
  then show ?case using keys_js_map_set [of k v ps] by auto
qed simp

lemma map_of_filter_value:
  "distinct (map fst ps) \<Longrightarrow> map_of (filter (\<lambda>(k, v). P v) ps) k
     = (case map_of ps k of None \<Rightarrow> None | Some v \<Rightarrow> if P v then Some v else None)"
proof (induction ps)
  case (Cons p ps)
  obtain a v where p: "p = (a, v)" by (cases p)
  have "map_of (filter (\<lambda>(k, v). P v) ps) a = None" if "a \<notin> fst ` set ps"
    using that by (auto simp: map_of_eq_None_iff)
  then show ?case using Cons p by auto
qed simp

lemma map_of_sweep:
  "distinct (map fst ps) \<Longrightarrow> map_of (sweep_hits w ps) k = map_of ps k
     \<or> map_of (sweep_hits w ps) k = None \<and> (\<exists>w' c. map_of ps k = Some (w', c) \<and> w' \<noteq> w)"
  by (auto simp: sweep_hits_def map_of_filter_value split: option.splits)

lemma js_rem_window_mono:
  assumes "a \<le> b"
  shows "a - js_rem a RATE_WINDOW_MS \<le> b - js_rem b RATE_WINDOW_MS"
proof -
  have k: "0 < RATE_WINDOW_MS" by (simp add: RATE_WINDOW_MS_def)
  have neg: "x - js_rem x RATE_WINDOW_MS = - (((- x) div RATE_WINDOW_MS) * RATE_WINDOW_MS)" if "x < 0" for x
    using that minus_mod_eq_div_mult [of "- x" RATE_WINDOW_MS] by (simp add: js_rem_def)
  have pos: "x - js_rem x RATE_WINDOW_MS = (x div RATE_WINDOW_MS) * RATE_WINDOW_MS" if "0 \<le> x" for x
    using that by (simp add: minus_mod_eq_div_mult)
  consider "b < 0" | "a < 0" "0 \<le> b" | "0 \<le> a" using assms by linarith
  then show ?thesis
  proof cases
    case 1
    then have "(- b) div RATE_WINDOW_MS \<le> (- a) div RATE_WINDOW_MS"
      using assms k by (intro zdiv_mono1) auto
    then show ?thesis using 1 assms neg k by (simp add: mult_right_mono)
  next
    case 2
    have "0 \<le> (- a) div RATE_WINDOW_MS" "0 \<le> b div RATE_WINDOW_MS"
      using 2 k by (simp_all add: pos_imp_zdiv_nonneg_iff)
    then have "0 \<le> (- a) div RATE_WINDOW_MS * RATE_WINDOW_MS" "0 \<le> b div RATE_WINDOW_MS * RATE_WINDOW_MS"
      using k by simp_all
    then show ?thesis using neg [of a] pos [of b] 2 by linarith
  next
    case 3
    have "a div RATE_WINDOW_MS \<le> b div RATE_WINDOW_MS" using assms k by (rule zdiv_mono1)
    then show ?thesis using 3 assms pos k by (simp add: mult_right_mono)
  qed
qed

definition hit_map_count :: "string \<Rightarrow> instant \<Rightarrow> hit_map \<Rightarrow> hit_map \<times> int" where
  "hit_map_count key now hits = map_prod id wc_count (fixedWindowCounter key now hits)"

interpretation mem: window_counter hit_map_count map_of rate_window "\<lambda>h. distinct (map fst h)" "[]"
proof
  fix a b :: instant assume "a \<le> b" then show "rate_window a \<le> rate_window b"
    unfolding rate_window_def by (rule js_rem_window_mono)
next
  fix s :: hit_map and k now assume s: "distinct (map fst s)"
  then have "distinct (map fst (sweep_hits (rate_window now) s))"
    by (auto simp: sweep_hits_def distinct_map_filter)
  then show "distinct (map fst (fst (hit_map_count k now s)))"
    by (simp add: hit_map_count_def fixedWindowCounter_def Let_def distinct_js_map_set)
  show "snd (hit_map_count k now s) =
    (case map_of s k of Some (w, c) \<Rightarrow> if w = rate_window now then c + 1 else 1 | None \<Rightarrow> 1)"
    using map_of_sweep [OF s, of "rate_window now" k]
    by (auto simp: hit_map_count_def fixedWindowCounter_def Let_def)
  show "map_of (fst (hit_map_count k now s)) k = Some (rate_window now, snd (hit_map_count k now s))"
    by (simp add: hit_map_count_def fixedWindowCounter_def Let_def map_of_js_map_set)
  fix j :: string assume "j \<noteq> k"
  then show "map_of (fst (hit_map_count k now s)) j = map_of s j \<or>
       map_of (fst (hit_map_count k now s)) j = None \<and>
       (\<exists>w c. map_of s j = Some (w, c) \<and> w \<noteq> rate_window now)"
    using map_of_sweep [OF s, of "rate_window now" j]
    by (simp add: hit_map_count_def fixedWindowCounter_def Let_def map_of_js_map_set)
qed simp_all

section \<open>The database counter\<close>

text \<open>
  One row of \<open>api_rate_limits\<close> per API key. The database clock has microseconds;
  \<open>date_trunc('minute', now())\<close> is the minute it is in. The read of a missing returned row
  (\<open>row?.count ?? 0\<close>) never happens: the upsert has no guard.
\<close>

definition MINUTE_US :: int where [consts_defs]: "MINUTE_US = 60000000"

definition db_minute :: "int \<Rightarrow> int" where
  "db_minute now = now - now mod MINUTE_US"

definition countApiKeyRequest ::
    "ident \<Rightarrow> int \<Rightarrow> (ident \<rightharpoonup> int \<times> int) \<Rightarrow> (ident \<rightharpoonup> int \<times> int) \<times> window_count" where
  "countApiKeyRequest apiKeyId now db =
     (let windowStart = db_minute now in
      case upsert apiKeyId (windowStart, 1)
             (\<lambda>(w, c). Some (windowStart, if w = windowStart then c + 1 else 1)) db of
        None \<Rightarrow> (db, \<lparr>wc_count = 0, wc_retryAfterSec = 60\<rparr>)
      | Some (db', w, c) \<Rightarrow>
          (db', \<lparr>wc_count = c,
                 wc_retryAfterSec = max 1 (ceil_div (w + MINUTE_US - now) 1000000)\<rparr>))"

definition api_key_count :: "ident \<Rightarrow> int \<Rightarrow> (ident \<rightharpoonup> int \<times> int) \<Rightarrow> (ident \<rightharpoonup> int \<times> int) \<times> int" where
  "api_key_count k now db = map_prod id wc_count (countApiKeyRequest k now db)"

lemma db_minute_mono: "a \<le> b \<Longrightarrow> db_minute a \<le> db_minute b"
  unfolding db_minute_def minus_mod_eq_div_mult
  by (simp add: MINUTE_US_def zdiv_mono1 mult_right_mono)

interpretation row: window_counter api_key_count "\<lambda>db k. db k" db_minute "\<lambda>_. True" Map.empty
  by unfold_locales
    (auto simp: db_minute_mono api_key_count_def countApiKeyRequest_def Let_def upsert_def
      split: option.splits prod.splits)

section \<open>The semaphore\<close>

text \<open>
  \<open>createSemaphore\<close>: \<open>active\<close> and \<open>waiting\<close> are the closure's variables; the tasks
  holding a slot, and the tasks started so far in order, are recorded beside them. A
  finishing task hands its slot to the first waiter.
\<close>

record 'a semaphore =
  sem_active :: nat
  sem_waiting :: "'a list"
  sem_running :: "'a list"
  sem_started :: "'a list"

definition sem_init :: "'a semaphore" where
  "sem_init = \<lparr>sem_active = 0, sem_waiting = [], sem_running = [], sem_started = []\<rparr>"

definition sem_arrive :: "nat \<Rightarrow> 'a \<Rightarrow> 'a semaphore \<Rightarrow> 'a semaphore" where
  "sem_arrive cap task s =
     (if sem_active s < cap
      then s\<lparr>sem_active := sem_active s + 1, sem_running := sem_running s @ [task],
             sem_started := sem_started s @ [task]\<rparr>
      else s\<lparr>sem_waiting := sem_waiting s @ [task]\<rparr>)"

definition sem_finish :: "'a \<Rightarrow> 'a semaphore \<Rightarrow> 'a semaphore" where
  "sem_finish task s =
     (case sem_waiting s of
        next # rest \<Rightarrow> s\<lparr>sem_waiting := rest, sem_running := remove1 task (sem_running s) @ [next],
                         sem_started := sem_started s @ [next]\<rparr>
      | [] \<Rightarrow> s\<lparr>sem_active := sem_active s - 1, sem_running := remove1 task (sem_running s)\<rparr>)"

inductive sem_reach :: "nat \<Rightarrow> 'a list \<Rightarrow> 'a semaphore \<Rightarrow> bool" for cap where
  init: "sem_reach cap [] sem_init"
| arrive: "sem_reach cap as s \<Longrightarrow> sem_reach cap (as @ [a]) (sem_arrive cap a s)"
| finish: "sem_reach cap as s \<Longrightarrow> a \<in> set (sem_running s) \<Longrightarrow> sem_reach cap as (sem_finish a s)"

definition sem_inv :: "nat \<Rightarrow> 'a list \<Rightarrow> 'a semaphore \<Rightarrow> bool" where
  "sem_inv cap as s \<longleftrightarrow> sem_active s = length (sem_running s) \<and> sem_active s \<le> cap
     \<and> (sem_waiting s \<noteq> [] \<longrightarrow> sem_active s = cap) \<and> sem_started s @ sem_waiting s = as"

lemma sem_reach_inv: "sem_reach cap as s \<Longrightarrow> sem_inv cap as s"
proof (induction rule: sem_reach.induct)
  case init
  then show ?case by (simp add: sem_inv_def sem_init_def)
next
  case (arrive as s a)
  then show ?case by (auto simp: sem_inv_def sem_arrive_def)
next
  case (finish as s a)
  have "length (remove1 a (sem_running s)) = length (sem_running s) - 1" "0 < length (sem_running s)"
    using finish.hyps(2) by (auto simp: length_remove1)
  then show ?case using finish.IH
    by (auto simp: sem_inv_def sem_finish_def split: list.splits)
qed

section \<open>The releasing stream\<close>

record stream =
  st_offset :: nat
  st_held :: bool
  st_released :: nat
  st_chunks :: "string list"
  st_closed :: bool

text \<open>
  \<open>done\<close> releases at most once. The timer, the abort signal and a cancel all call it; a
  stream whose signal is already aborted is done at creation.
\<close>

datatype stream_event = Pull | Cancel | Abort | Timeout

definition stream_done :: "stream \<Rightarrow> stream" where
  "stream_done s = (if \<not> st_held s then s else s\<lparr>st_held := False, st_released := st_released s + 1\<rparr>)"

definition releasingStream :: "bool \<Rightarrow> stream" where
  "releasingStream aborted =
     (let s = \<lparr>st_offset = 0, st_held = True, st_released = 0, st_chunks = [], st_closed = False\<rparr>
      in if aborted then stream_done s else s)"

fun stream_step :: "string \<Rightarrow> nat \<Rightarrow> stream_event \<Rightarrow> stream \<Rightarrow> stream" where
  "stream_step bytes chunkBytes Pull s =
     (if length bytes \<le> st_offset s then stream_done (s\<lparr>st_closed := True\<rparr>)
      else s\<lparr>st_chunks := st_chunks s @ [take chunkBytes (drop (st_offset s) bytes)],
             st_offset := st_offset s + chunkBytes\<rparr>)"
| "stream_step bytes chunkBytes _ s = stream_done s"

definition stream_run :: "string \<Rightarrow> nat \<Rightarrow> bool \<Rightarrow> stream_event list \<Rightarrow> stream" where
  "stream_run bytes chunkBytes aborted es = fold (stream_step bytes chunkBytes) es (releasingStream aborted)"

definition stream_inv :: "string \<Rightarrow> stream \<Rightarrow> bool" where
  "stream_inv bytes s \<longleftrightarrow> st_released s = (if st_held s then 0 else 1)
     \<and> concat (st_chunks s) = take (st_offset s) bytes
     \<and> (st_closed s \<longrightarrow> length bytes \<le> st_offset s \<and> \<not> st_held s)"

lemma stream_done_inv: "stream_inv bytes s \<Longrightarrow> stream_inv bytes (stream_done s)"
  by (auto simp: stream_inv_def stream_done_def)

lemma stream_step_inv: "stream_inv bytes s \<Longrightarrow> stream_inv bytes (stream_step bytes n e s)"
proof (cases e)
  case Pull
  assume "stream_inv bytes s"
  then show ?thesis unfolding Pull
    by (auto simp: stream_inv_def stream_done_def take_add)
qed (simp_all add: stream_done_inv)

lemma stream_run_inv: "stream_inv bytes (stream_run bytes n aborted es)"
proof -
  have "stream_inv bytes (releasingStream aborted)"
    by (simp add: releasingStream_def stream_inv_def stream_done_def Let_def)
  then show ?thesis unfolding stream_run_def
    by (induction es rule: rev_induct) (simp_all add: stream_step_inv)
qed

section \<open>Properties\<close>

text \<open>
  The in-process counter is exact. With hits in time order, a hit is told the number of
  hits of its key in the current minute, itself included: the sweep of a large map loses no
  count that still matters.
\<close>

theorem fixed_window_exact:
  assumes "sorted (map snd hs)" and "\<forall>h \<in> set hs. snd h \<le> now"
  shows "wc_count (snd (fixedWindowCounter k now (fold (\<lambda>(k, t) s. fst (fixedWindowCounter k t s)) hs [])))
    = int (length (filter (\<lambda>h. fst h = k \<and> rate_window (snd h) = rate_window now) hs)) + 1"
proof -
  have "fold (\<lambda>(k, t) s. fst (fixedWindowCounter k t s)) hs s = mem.hits hs s" for s
    by (induction hs arbitrary: s) (auto simp: hit_map_count_def)
  then show ?thesis using mem.hit_exact [OF assms, of k]
    by (simp add: hit_map_count_def mem.count_in_def)
qed

theorem fixed_window_exact_witness:
  "wc_count (snd (fixedWindowCounter ''a'' 119000
      (fold (\<lambda>(k, t) s. fst (fixedWindowCounter k t s)) [(''a'', 59000), (''a'', 61000), (''b'', 62000)] []))) = 2"
  using fixed_window_exact [of "[(''a'', 59000), (''a'', 61000), (''b'', 62000)]" 119000 "''a''"]
  by (simp add: rate_window_def consts_defs)

text \<open>
  The database counter is exact in the same way, so every process that spends a key
  draws on one budget per minute of the database clock.
\<close>

theorem api_key_count_exact:
  assumes "sorted (map snd hs)" and "\<forall>h \<in> set hs. snd h \<le> now"
  shows "wc_count (snd (countApiKeyRequest k now (fold (\<lambda>(k, t) s. fst (countApiKeyRequest k t s)) hs Map.empty)))
    = int (length (filter (\<lambda>h. fst h = k \<and> db_minute (snd h) = db_minute now) hs)) + 1"
proof -
  have "fold (\<lambda>(k, t) s. fst (countApiKeyRequest k t s)) hs s = row.hits hs s" for s
    by (induction hs arbitrary: s) (auto simp: api_key_count_def)
  then show ?thesis using row.hit_exact [OF assms, of k]
    by (simp add: api_key_count_def row.count_in_def)
qed

theorem api_key_count_exact_witness:
  "wc_count (snd (countApiKeyRequest ''k'' 30000000
      (fold (\<lambda>(k, t) s. fst (countApiKeyRequest k t s)) [(''k'', 10), (''k'', 20)] Map.empty))) = 3"
  using api_key_count_exact [of "[(''k'', 10), (''k'', 20)]" 30000000 "''k''"]
  by (simp add: db_minute_def consts_defs)

text \<open>
  C7: the semaphore runs at most \<open>cap\<close> tasks, leaves no slot idle while a task waits,
  and starts tasks in arrival order.
\<close>

theorem semaphore_fifo_bound:
  assumes "sem_reach cap as s"
  shows "length (sem_running s) \<le> cap \<and> (sem_waiting s \<noteq> [] \<longrightarrow> length (sem_running s) = cap)
    \<and> sem_started s @ sem_waiting s = as"
  using sem_reach_inv [OF assms] by (auto simp: sem_inv_def)

theorem semaphore_fifo_bound_witness:
  "\<exists>s. sem_reach 1 [''a'', ''b'', ''c''] s \<and> sem_running s = [''b''] \<and> sem_waiting s = [''c'']
     \<and> sem_started s @ sem_waiting s = [''a'', ''b'', ''c'']"
proof -
  let ?s = "sem_finish ''a'' (sem_arrive 1 ''c'' (sem_arrive 1 ''b'' (sem_arrive 1 ''a'' sem_init)))"
  have "sem_reach 1 ((([] @ [''a'']) @ [''b'']) @ [''c'']) ?s"
    by (intro sem_reach.intros) (simp add: sem_arrive_def sem_init_def)
  then have r: "sem_reach 1 [''a'', ''b'', ''c''] ?s" by simp
  moreover have "sem_running ?s = [''b'']" "sem_waiting ?s = [''c'']"
    by (simp_all add: sem_arrive_def sem_init_def sem_finish_def)
  ultimately show ?thesis using semaphore_fifo_bound [OF r] by blast
qed

text \<open>
  Whatever the reader does (read, cancel, abort, hang until the timer), the slot is
  released at most once, and exactly once when the body has been read to its end; what was
  read is always a prefix of the body.
\<close>

theorem releasing_stream_once:
  "let s = stream_run bytes chunkBytes aborted es in
     st_released s \<le> 1 \<and> concat (st_chunks s) = take (st_offset s) bytes
     \<and> (st_closed s \<longrightarrow> st_released s = 1 \<and> concat (st_chunks s) = bytes)"
  using stream_run_inv [of bytes chunkBytes aborted es]
  by (auto simp: stream_inv_def Let_def)

theorem releasing_stream_once_witness:
  "st_closed (stream_run ''abcde'' 2 False [Pull, Pull, Pull, Pull, Cancel])
   \<and> st_released (stream_run ''abcde'' 2 False [Pull, Pull, Pull, Pull, Cancel]) = 1"
  using releasing_stream_once [of "''abcde''" 2 False "[Pull, Pull, Pull, Pull, Cancel]"]
  by (simp add: stream_run_def releasingStream_def stream_done_def Let_def)

end
