(* ===== verification/DomainStatus.thy ===== *)
theory DomainStatus
  imports Prelude
begin

text \<open>
  \<open>packages/core/src/domain-status.ts\<close>: how a record's live DNS answer and SES's
  verification combine, and the stored domain status the send gate reads. \<open>undefined\<close>
  and \<open>null\<close> are \<open>None\<close>.
\<close>

datatype domain_status = DomPending | DomVerified | DomFailed | DomTemporaryFailure

datatype live_dns = LiveFound | LiveMissing | LiveMismatch | LiveUnknown

datatype record_status = RecMissing | RecMismatch | RecPending | RecVerified

datatype ses_gate = GateVerified | GatePending

datatype ses_check = CheckVerified | CheckPending | CheckFailed

definition sesGateFromRecordStatus :: "ses_check option \<Rightarrow> ses_gate option" where
  "sesGateFromRecordStatus status =
     (case status of None \<Rightarrow> None
      | Some s \<Rightarrow> Some (if s = CheckVerified then GateVerified else GatePending))"

definition combineRecordStatus :: "live_dns option \<Rightarrow> ses_gate option \<Rightarrow> record_status" where
  "combineRecordStatus live sesGate =
     (case live of
        None \<Rightarrow> if sesGate = Some GateVerified then RecVerified else RecPending
      | Some l \<Rightarrow>
          if l = LiveMissing \<or> l = LiveUnknown then RecMissing
          else if l = LiveMismatch then RecMismatch
          else if sesGate = Some GatePending then RecPending else RecVerified)"

definition recordCheck :: "string \<Rightarrow> ses_check" where
  "recordCheck sesStatus =
     (if sesStatus = ''SUCCESS'' then CheckVerified
      else if sesStatus = ''FAILED'' then CheckFailed else CheckPending)"

record tracked_record =
  rec_status :: "ses_check option"
  rec_live :: "live_dns option"

definition strictDomainStatus :: "string \<Rightarrow> tracked_record list \<Rightarrow> domain_status" where
  "strictDomainStatus dkimStatus records =
     (if dkimStatus = ''FAILED'' then DomFailed
      else if dkimStatus = ''TEMPORARY_FAILURE'' then DomTemporaryFailure
      else
        let required = filter (\<lambda>r. rec_status r \<noteq> None) records;
            allVerified = list_all (\<lambda>r. combineRecordStatus (rec_live r)
                            (sesGateFromRecordStatus (rec_status r)) = RecVerified) required
        in if allVerified then DomVerified else DomPending)"

section \<open>Lemmas\<close>

lemma sesGate_verified [simp]:
  "sesGateFromRecordStatus (Some s) = Some GateVerified \<longleftrightarrow> s = CheckVerified"
  "sesGateFromRecordStatus (Some s) = Some GatePending \<longleftrightarrow> s \<noteq> CheckVerified"
  by (simp_all add: sesGateFromRecordStatus_def)

text \<open>A record SES checks passes when SES verified it and the lookup, if made, found it.\<close>

lemma combine_verified_iff:
  "combineRecordStatus live (sesGateFromRecordStatus (Some s)) = RecVerified
   \<longleftrightarrow> s = CheckVerified \<and> (live = None \<or> live = Some LiveFound)"
proof (cases live)
  case None
  then show ?thesis by (simp add: combineRecordStatus_def)
next
  case (Some l)
  then show ?thesis by (cases l) (simp_all add: combineRecordStatus_def)
qed

section \<open>Properties\<close>

text \<open>
  The send gate is strict. A domain is stored "verified" exactly when DKIM has not
  failed and every record SES checks is verified by SES and, where it was looked up, found
  by that lookup; a record SES does not check never gates, and a lookup that did not
  conclude demotes like a missing record.
\<close>

theorem strict_send_gate:
  "(strictDomainStatus dkim records = DomVerified \<longleftrightarrow>
      dkim \<notin> {''FAILED'', ''TEMPORARY_FAILURE''}
      \<and> list_all (\<lambda>r. rec_status r = None
           \<or> (rec_status r = Some CheckVerified \<and> rec_live r \<in> {None, Some LiveFound})) records)
   \<and> strictDomainStatus dkim (filter (\<lambda>r. rec_status r \<noteq> None) records) = strictDomainStatus dkim records"
proof
  have one: "(rec_status r \<noteq> None \<longrightarrow> combineRecordStatus (rec_live r)
        (sesGateFromRecordStatus (rec_status r)) = RecVerified)
      \<longleftrightarrow> rec_status r = None \<or> (rec_status r = Some CheckVerified \<and> rec_live r \<in> {None, Some LiveFound})"
    for r
    by (cases "rec_status r") (auto simp: combine_verified_iff)
  show "strictDomainStatus dkim records = DomVerified \<longleftrightarrow>
      dkim \<notin> {''FAILED'', ''TEMPORARY_FAILURE''}
      \<and> list_all (\<lambda>r. rec_status r = None
           \<or> (rec_status r = Some CheckVerified \<and> rec_live r \<in> {None, Some LiveFound})) records"
    unfolding one [symmetric] by (auto simp: strictDomainStatus_def Let_def list_all_iff)
  show "strictDomainStatus dkim (filter (\<lambda>r. rec_status r \<noteq> None) records) = strictDomainStatus dkim records"
    by (simp add: strictDomainStatus_def Let_def)
qed

end
