(* ===== verification/Deliverability.thy ===== *)
theory Deliverability
  imports Complex_Main Quota
begin

text \<open>
  \<open>packages/core/src/deliverability.ts\<close>: the thresholds of hard-bounce and complaint
  rates, the two-window verdict, the standing of a team or of its Free pool, and the rule
  for lifting a pause. Rates are exact rationals; below \<open>2^50\<close> sends the double quotient
  compares with these lines the same way. Tables are lists of keyed rows.
\<close>

section \<open>Thresholds\<close>

definition WARN_BOUNCE_RATE :: rat where [consts_defs]: "WARN_BOUNCE_RATE = 4 / 100"
definition WARN_COMPLAINT_RATE :: rat where [consts_defs]: "WARN_COMPLAINT_RATE = 5 / 10000"
definition PAUSE_BOUNCE_RATE :: rat where [consts_defs]: "PAUSE_BOUNCE_RATE = 5 / 100"
definition PAUSE_COMPLAINT_RATE :: rat where [consts_defs]: "PAUSE_COMPLAINT_RATE = 1 / 1000"
definition MIN_GUARDRAIL_VOLUME :: int where [consts_defs]: "MIN_GUARDRAIL_VOLUME = 100"
definition MIN_PAUSE_COMPLAINTS :: int where [consts_defs]: "MIN_PAUSE_COMPLAINTS = 3"
definition MIN_PAUSE_HARD_BOUNCES :: int where [consts_defs]: "MIN_PAUSE_HARD_BOUNCES = 10"
definition MIN_WARN_COMPLAINTS :: int where [consts_defs]: "MIN_WARN_COMPLAINTS = 2"
definition GUARDRAIL_WINDOW_DAYS :: int where [consts_defs]: "GUARDRAIL_WINDOW_DAYS = 7"
definition PAUSE_WINDOW_DAYS :: int where [consts_defs]: "PAUSE_WINDOW_DAYS = 2"
definition THROTTLED_BROADCAST_RATE_PER_SECOND :: int where
  [consts_defs]: "THROTTLED_BROADCAST_RATE_PER_SECOND = 1"

datatype deliverability_status = DOk | DWarning | DPaused

fun status_severity :: "deliverability_status \<Rightarrow> nat" where
  "status_severity DOk = 0" | "status_severity DWarning = 1" | "status_severity DPaused = 2"

instantiation deliverability_status :: linorder
begin

definition less_eq_deliverability_status :: "deliverability_status \<Rightarrow> deliverability_status \<Rightarrow> bool" where
  "less_eq_deliverability_status a b \<longleftrightarrow> status_severity a \<le> status_severity b"

definition less_deliverability_status :: "deliverability_status \<Rightarrow> deliverability_status \<Rightarrow> bool" where
  "less_deliverability_status a b \<longleftrightarrow> status_severity a < status_severity b"

instance
proof
  fix x y z :: deliverability_status
  show "(x < y) = (x \<le> y \<and> \<not> y \<le> x)"
    by (auto simp: less_deliverability_status_def less_eq_deliverability_status_def)
  show "x \<le> x" by (simp add: less_eq_deliverability_status_def)
  show "x \<le> y \<Longrightarrow> y \<le> z \<Longrightarrow> x \<le> z" by (simp add: less_eq_deliverability_status_def)
  show "x \<le> y \<Longrightarrow> y \<le> x \<Longrightarrow> x = y"
    by (cases x; cases y; simp add: less_eq_deliverability_status_def)
  show "x \<le> y \<or> y \<le> x" by (auto simp: less_eq_deliverability_status_def)
qed

end

datatype metric = MBounce | MComplaint
datatype tier = TWarning | TPaused

record deliverability_reason =
  re_metric :: metric
  re_rate :: rat
  re_tier :: tier
  re_windowDays :: int

record window_counts =
  w_sent :: int
  w_complaintSent :: int
  w_hardBounced :: int
  w_complained :: int

definition broadcastSendSpacingMs :: "deliverability_status \<Rightarrow> int" where
  "broadcastSendSpacingMs status =
     (if status = DOk then 0 else ceil_div 1000 THROTTLED_BROADCAST_RATE_PER_SECOND)"

definition rateOf :: "int \<Rightarrow> int \<Rightarrow> rat" where
  "rateOf events sent = (if 0 < sent then of_int events / of_int sent else 0)"

section \<open>The verdict\<close>

record judge_lines =
  jl_warn :: rat
  jl_pause :: rat
  jl_minPauseEvents :: int
  jl_minWarnEvents :: int

fun window_events :: "metric \<Rightarrow> window_counts \<Rightarrow> int" where
  "window_events MBounce w = w_hardBounced w"
| "window_events MComplaint w = w_complained w"

fun window_sends :: "metric \<Rightarrow> window_counts \<Rightarrow> int" where
  "window_sends MBounce w = w_sent w"
| "window_sends MComplaint w = w_complaintSent w"

definition judge_fires :: "metric \<Rightarrow> int \<Rightarrow> rat \<Rightarrow> int \<Rightarrow> window_counts \<Rightarrow> bool" where
  "judge_fires m least line minEvents w \<longleftrightarrow>
     least \<le> window_sends m w \<and> line \<le> rateOf (window_events m w) (window_sends m w)
     \<and> minEvents \<le> window_events m w"

definition judge :: "metric \<Rightarrow> judge_lines \<Rightarrow> int \<Rightarrow> window_counts \<Rightarrow> window_counts
    \<Rightarrow> deliverability_reason list" where
  "judge m lines least warn pause =
     (if judge_fires m least (jl_pause lines) (jl_minPauseEvents lines) pause then
        [\<lparr>re_metric = m, re_rate = rateOf (window_events m pause) (window_sends m pause),
          re_tier = TPaused, re_windowDays = PAUSE_WINDOW_DAYS\<rparr>]
      else if judge_fires m least (jl_warn lines) (jl_minWarnEvents lines) warn then
        [\<lparr>re_metric = m, re_rate = rateOf (window_events m warn) (window_sends m warn),
          re_tier = TWarning, re_windowDays = GUARDRAIL_WINDOW_DAYS\<rparr>]
      else [])"

fun judge_lines_of :: "metric \<Rightarrow> judge_lines" where
  "judge_lines_of MBounce = \<lparr>jl_warn = WARN_BOUNCE_RATE, jl_pause = PAUSE_BOUNCE_RATE,
     jl_minPauseEvents = MIN_PAUSE_HARD_BOUNCES, jl_minWarnEvents = 1\<rparr>"
| "judge_lines_of MComplaint = \<lparr>jl_warn = WARN_COMPLAINT_RATE, jl_pause = PAUSE_COMPLAINT_RATE,
     jl_minPauseEvents = MIN_PAUSE_COMPLAINTS, jl_minWarnEvents = MIN_WARN_COMPLAINTS\<rparr>"

record deliverability_evaluation =
  de_bounceRate :: rat
  de_complaintRate :: rat
  de_status :: deliverability_status
  de_reasons :: "deliverability_reason list"

definition status_of_reasons :: "deliverability_reason list \<Rightarrow> deliverability_status" where
  "status_of_reasons reasons =
     (if \<exists>r \<in> set reasons. re_tier r = TPaused then DPaused
      else if \<exists>r \<in> set reasons. re_tier r = TWarning then DWarning else DOk)"

definition evaluateDeliverability ::
    "window_counts \<Rightarrow> window_counts \<Rightarrow> int \<Rightarrow> int \<Rightarrow> deliverability_evaluation" where
  "evaluateDeliverability warn pause minVolume complaintMinVolume =
     (let reasons = judge MBounce (judge_lines_of MBounce) minVolume warn pause
                  @ judge MComplaint (judge_lines_of MComplaint) complaintMinVolume warn pause
      in \<lparr>de_bounceRate = rateOf (w_hardBounced warn) (w_sent warn),
          de_complaintRate = rateOf (w_complained warn) (w_complaintSent warn),
          de_status = status_of_reasons reasons, de_reasons = reasons\<rparr>)"

section \<open>A team's standing\<close>

record counter_row =
  uc_accepted :: int
  uc_sent :: int
  uc_sentNoFeedback :: int
  uc_hardBounced :: int
  uc_excludedSent :: int
  uc_excludedHardBounced :: int
  uc_complained :: int

definition counterComplaintSent :: "counter_row \<Rightarrow> int" where
  "counterComplaintSent c = uc_sent c - uc_sentNoFeedback c"
definition counterSent :: "counter_row \<Rightarrow> int" where
  "counterSent c = max (uc_sent c - uc_excludedSent c) 0"
definition counterHardBounced :: "counter_row \<Rightarrow> int" where
  "counterHardBounced c = max (uc_hardBounced c - uc_excludedHardBounced c) 0"

record standing_db =
  sd_teams :: "ident \<rightharpoonup> team_row"
  sd_counters :: "((ident \<times> int) \<times> counter_row) list"
  sd_pool :: "((ident \<times> int) \<times> pool_row) list"

definition sum_since :: "ident \<Rightarrow> int \<Rightarrow> ('r \<Rightarrow> int) \<Rightarrow> ((ident \<times> int) \<times> 'r) list \<Rightarrow> int" where
  "sum_since k since col rows =
     sum_list (map (\<lambda>(_, r). col r) (filter (\<lambda>((k', day), _). k' = k \<and> since \<le> day) rows))"

definition counter_window :: "ident \<Rightarrow> int \<Rightarrow> ((ident \<times> int) \<times> counter_row) list \<Rightarrow> window_counts" where
  "counter_window t since rows =
     \<lparr>w_sent = sum_since t since counterSent rows,
      w_complaintSent = sum_since t since counterComplaintSent rows,
      w_hardBounced = sum_since t since counterHardBounced rows,
      w_complained = sum_since t since uc_complained rows\<rparr>"

definition pool_window :: "ident \<Rightarrow> int \<Rightarrow> ((ident \<times> int) \<times> pool_row) list \<Rightarrow> window_counts" where
  "pool_window ow since rows =
     \<lparr>w_sent = sum_since ow since pr_sent rows,
      w_complaintSent = sum_since ow since (\<lambda>r. pr_sent r - pr_sentNoFeedback r) rows,
      w_hardBounced = sum_since ow since pr_hardBounced rows,
      w_complained = sum_since ow since pr_complained rows\<rparr>"

record deliverability_health = deliverability_evaluation +
  dh_sent :: int
  dh_complaintSent :: int
  dh_windowDays :: int
  dh_pause :: window_counts
  dh_pauseWindowDays :: int
  dh_liftedSent :: int
  dh_liftedHardBounced :: int

definition fetchDeliverabilityHealth :: "standing_db \<Rightarrow> ident \<Rightarrow> instant \<Rightarrow> deliverability_health" where
  "fetchDeliverabilityHealth db teamId now =
     (let sinceWarn = windowStartDay GUARDRAIL_WINDOW_DAYS now;
          sincePause = windowStartDay PAUSE_WINDOW_DAYS now;
          ownerId = (case sd_teams db teamId of None \<Rightarrow> None | Some team \<Rightarrow> freePoolOwner team now);
          window = (\<lambda>since. case ownerId of
                      Some ow \<Rightarrow> pool_window ow since (sd_pool db)
                    | None \<Rightarrow> counter_window teamId since (sd_counters db));
          warn = window sinceWarn; pause = window sincePause;
          e = evaluateDeliverability warn pause MIN_GUARDRAIL_VOLUME
                (if ownerId \<noteq> None then 0 else MIN_GUARDRAIL_VOLUME)
      in \<lparr>de_bounceRate = de_bounceRate e, de_complaintRate = de_complaintRate e,
          de_status = de_status e, de_reasons = de_reasons e,
          dh_sent = (case ownerId of
             Some ow \<Rightarrow> sum_since ow sinceWarn pr_sent (sd_pool db)
           | None \<Rightarrow> sum_since teamId sinceWarn uc_sent (sd_counters db)),
          dh_complaintSent = w_complaintSent warn,
          dh_windowDays = GUARDRAIL_WINDOW_DAYS,
          dh_pause = pause, dh_pauseWindowDays = PAUSE_WINDOW_DAYS,
          dh_liftedSent = (case ownerId of Some _ \<Rightarrow> 0
             | None \<Rightarrow> sum_since teamId sinceWarn uc_excludedSent (sd_counters db)),
          dh_liftedHardBounced = (case ownerId of Some _ \<Rightarrow> 0
             | None \<Rightarrow> sum_since teamId sinceWarn uc_excludedHardBounced (sd_counters db))\<rparr>)"

section \<open>Lifting a pause\<close>

definition PAUSE_LIFT_COOLDOWN_DAYS :: int where [consts_defs]: "PAUSE_LIFT_COOLDOWN_DAYS = 30"

definition pauseLiftCooldownEnd :: "instant \<Rightarrow> instant" where
  "pauseLiftCooldownEnd lastLiftAt = nextUtcDayStart (lastLiftAt + PAUSE_LIFT_COOLDOWN_DAYS * DAY_MS - 1)"

datatype pause_lift_refusal =
  PLSuspended | PLFree | PLNotPaused | PLComplaints | PLFlagged | PLMonitor | PLCooldown

record lift_facts =
  lf_suspended :: bool
  lf_freePool :: bool
  lf_reasons :: "deliverability_reason list"
  lf_openFlag :: "(string \<times> ident option) option"
  lf_monitorRisk :: "int option"
  lf_monitorFlagRisk :: int
  lf_lastLiftAt :: "instant option"
  lf_now :: instant

definition pauseLiftRefusal :: "lift_facts \<Rightarrow> pause_lift_refusal option" where
  "pauseLiftRefusal f =
     (if lf_suspended f then Some PLSuspended
      else if lf_freePool f then Some PLFree
      else let paused = filter (\<lambda>r. re_tier r = TPaused) (lf_reasons f) in
        if paused = [] then Some PLNotPaused
        else if \<exists>r \<in> set paused. re_metric r = MComplaint then Some PLComplaints
        else if (case lf_openFlag f of None \<Rightarrow> False
                 | Some (reason, openedBy) \<Rightarrow> reason \<noteq> ''guardrail'' \<or> openedBy \<noteq> None) then Some PLFlagged
        else if (case lf_monitorRisk f of None \<Rightarrow> False | Some r \<Rightarrow> lf_monitorFlagRisk f \<le> r) then Some PLMonitor
        else if (case lf_lastLiftAt f of None \<Rightarrow> False
                 | Some l \<Rightarrow> lf_now f < pauseLiftCooldownEnd l) then Some PLCooldown
        else None)"

section \<open>Lemmas\<close>

lemma rateOf_mono: "a \<le> b \<Longrightarrow> rateOf a s \<le> rateOf b s"
  by (auto simp: rateOf_def divide_right_mono)

lemma status_of_reasons_append:
  "status_of_reasons (xs @ ys) = max (status_of_reasons xs) (status_of_reasons ys)"
  by (auto simp: status_of_reasons_def max_def less_eq_deliverability_status_def)

lemma status_of_judge:
  "status_of_reasons (judge m lines least warn pause) =
     (if judge_fires m least (jl_pause lines) (jl_minPauseEvents lines) pause then DPaused
      else if judge_fires m least (jl_warn lines) (jl_minWarnEvents lines) warn then DWarning else DOk)"
  by (simp add: judge_def status_of_reasons_def)

lemma evaluate_status:
  "de_status (evaluateDeliverability warn pause v cv) =
     max (status_of_reasons (judge MBounce (judge_lines_of MBounce) v warn pause))
         (status_of_reasons (judge MComplaint (judge_lines_of MComplaint) cv warn pause))"
  by (simp add: evaluateDeliverability_def Let_def status_of_reasons_append)

text \<open>\<open>worse w w'\<close>: the same sends, no fewer events.\<close>

definition worse :: "window_counts \<Rightarrow> window_counts \<Rightarrow> bool" where
  "worse w w' \<longleftrightarrow> (\<forall>m. window_sends m w' = window_sends m w \<and> window_events m w \<le> window_events m w')"

lemma judge_fires_mono: "worse w w' \<Longrightarrow> judge_fires m v line n w \<Longrightarrow> judge_fires m v line n w'"
  unfolding worse_def judge_fires_def by (metis order_trans rateOf_mono)

lemma judge_status_mono:
  "worse warn warn' \<Longrightarrow> worse pause pause' \<Longrightarrow>
   status_of_reasons (judge m lines v warn pause) \<le> status_of_reasons (judge m lines v warn' pause')"
  using judge_fires_mono [of warn warn'] judge_fires_mono [of pause pause']
  by (auto simp: status_of_judge less_eq_deliverability_status_def)

lemma sum_since_zero:
  "(\<forall>e \<in> set rows. fst (fst e) = k \<and> since \<le> snd (fst e) \<longrightarrow> col (snd e) = 0)
   \<Longrightarrow> sum_since k since col rows = 0"
  by (induction rows) (auto simp: sum_since_def)

lemma no_events_no_pause:
  assumes "w_hardBounced pause = 0" "w_complained pause = 0"
  shows "de_status (evaluateDeliverability warn pause v cv) \<noteq> DPaused"
  using assms
  by (auto simp: evaluate_status status_of_judge judge_fires_def consts_defs max_def)

lemma health_status:
  "de_status (fetchDeliverabilityHealth db t now) =
     (let owner = (case sd_teams db t of None \<Rightarrow> None | Some team \<Rightarrow> freePoolOwner team now);
          w = (\<lambda>since. case owner of Some ow \<Rightarrow> pool_window ow since (sd_pool db)
                 | None \<Rightarrow> counter_window t since (sd_counters db))
      in de_status (evaluateDeliverability (w (windowStartDay GUARDRAIL_WINDOW_DAYS now))
           (w (windowStartDay PAUSE_WINDOW_DAYS now)) MIN_GUARDRAIL_VOLUME
           (if owner \<noteq> None then 0 else MIN_GUARDRAIL_VOLUME)))"
  by (simp add: fetchDeliverabilityHealth_def Let_def)

lemma pauseWindow_start: "windowStartDay PAUSE_WINDOW_DAYS now = utcDay now - 1"
  by (simp add: windowStartDay_eq PAUSE_WINDOW_DAYS_def)

lemma cooldown_bounds:
  "l + PAUSE_LIFT_COOLDOWN_DAYS * DAY_MS \<le> pauseLiftCooldownEnd l
   \<and> pauseLiftCooldownEnd l < l + (PAUSE_LIFT_COOLDOWN_DAYS + 1) * DAY_MS"
proof -
  define c where "c = PAUSE_LIFT_COOLDOWN_DAYS * DAY_MS"
  define d where "d = utcDay (l + c - 1)"
  have b: "d * DAY_MS \<le> l + c - 1" "l + c - 1 < d * DAY_MS + DAY_MS"
    using utcDay_bounds [of "l + c - 1"] unfolding d_def distrib_right by simp_all
  have e: "pauseLiftCooldownEnd l = d * DAY_MS + DAY_MS"
    unfolding pauseLiftCooldownEnd_def nextUtcDayStart_eq d_def c_def distrib_right by simp
  show ?thesis unfolding e distrib_right c_def [symmetric] using b by linarith
qed

lemma pauseLiftRefusal_None:
  "pauseLiftRefusal f = None \<longleftrightarrow> \<not> lf_suspended f \<and> \<not> lf_freePool f
     \<and> (\<exists>r \<in> set (lf_reasons f). re_tier r = TPaused)
     \<and> (\<forall>r \<in> set (lf_reasons f). re_tier r = TPaused \<longrightarrow> re_metric r \<noteq> MComplaint)
     \<and> (\<forall>reason by. lf_openFlag f = Some (reason, by) \<longrightarrow> reason = ''guardrail'' \<and> by = None)
     \<and> (\<forall>r. lf_monitorRisk f = Some r \<longrightarrow> r < lf_monitorFlagRisk f)
     \<and> (\<forall>l. lf_lastLiftAt f = Some l \<longrightarrow> pauseLiftCooldownEnd l \<le> lf_now f)"
  by (auto simp: pauseLiftRefusal_def Let_def filter_empty_conv not_less not_le split: option.splits)

section \<open>Properties\<close>

text \<open>
  The verdict is monotone. With the same sends, more hard bounces or more complaints
  in either window never improve a team's standing, whatever the volume floors.
\<close>

theorem deliverability_monotone:
  assumes "worse warn warn'" and "worse pause pause'"
  shows "de_status (evaluateDeliverability warn pause v cv)
       \<le> de_status (evaluateDeliverability warn' pause' v cv)"
  unfolding evaluate_status by (intro max.mono judge_status_mono assms)

definition example_window :: "int \<Rightarrow> int \<Rightarrow> int \<Rightarrow> window_counts" where
  "example_window s b c = \<lparr>w_sent = s, w_complaintSent = s, w_hardBounced = b, w_complained = c\<rparr>"

theorem deliverability_monotone_witness:
  "de_status (evaluateDeliverability (example_window 200 10 0) (example_window 200 9 0) 100 100) = DWarning
   \<and> de_status (evaluateDeliverability (example_window 200 10 0) (example_window 200 10 0) 100 100) = DPaused
   \<and> DWarning \<le> DPaused"
proof -
  have a: "de_status (evaluateDeliverability (example_window 200 10 0) (example_window 200 9 0) 100 100) = DWarning"
    and b: "de_status (evaluateDeliverability (example_window 200 10 0) (example_window 200 10 0) 100 100) = DPaused"
    by (simp_all add: evaluate_status status_of_judge judge_fires_def example_window_def rateOf_def
        consts_defs max_def less_eq_deliverability_status_def)
  have w: "worse (example_window 200 b c) (example_window 200 b' c)" if "b \<le> b'" for b b' c
    unfolding worse_def
  proof
    show "window_sends m (example_window 200 b' c) = window_sends m (example_window 200 b c)
      \<and> window_events m (example_window 200 b c) \<le> window_events m (example_window 200 b' c)" for m
      using that by (cases m) (simp_all add: example_window_def)
  qed
  have "DWarning \<le> DPaused"
    using deliverability_monotone [OF w [of 10 10 0] w [of 9 10 0], of 100 100] a b by simp
  with a b show ?thesis by blast
qed

text \<open>
  A pause lifts once the bad days leave its window. When the rows a team is judged on
  (its own, or its Free pool's) hold no hard bounce and no complaint dated yesterday or
  later, the team is not paused, whatever the older days of the week hold.
\<close>

theorem pause_leaves_with_its_days:
  assumes "\<forall>e \<in> set (sd_counters db). fst (fst e) = t \<and> utcDay now - 1 \<le> snd (fst e) \<longrightarrow>
       counterHardBounced (snd e) = 0 \<and> uc_complained (snd e) = 0"
    and "\<forall>e \<in> set (sd_pool db). utcDay now - 1 \<le> snd (fst e) \<longrightarrow>
       pr_hardBounced (snd e) = 0 \<and> pr_complained (snd e) = 0"
  shows "de_status (fetchDeliverabilityHealth db t now) \<noteq> DPaused"
proof -
  have "w_hardBounced (counter_window t (utcDay now - 1) (sd_counters db)) = 0"
    "w_complained (counter_window t (utcDay now - 1) (sd_counters db)) = 0"
    using assms(1) by (auto simp: counter_window_def intro!: sum_since_zero)
  moreover have "w_hardBounced (pool_window ow (utcDay now - 1) (sd_pool db)) = 0"
    "w_complained (pool_window ow (utcDay now - 1) (sd_pool db)) = 0" for ow
    using assms(2) by (auto simp: pool_window_def intro!: sum_since_zero)
  ultimately show ?thesis
    unfolding health_status Let_def pauseWindow_start
    by (intro no_events_no_pause) (simp_all split: option.split)
qed

definition example_counters :: "int \<Rightarrow> int \<Rightarrow> counter_row" where
  "example_counters s b = \<lparr>uc_accepted = s, uc_sent = s, uc_sentNoFeedback = 0, uc_hardBounced = b,
     uc_excludedSent = 0, uc_excludedHardBounced = 0, uc_complained = 0\<rparr>"

definition example_standing :: standing_db where
  "example_standing = \<lparr>sd_teams = Map.empty,
     sd_counters = [((''t1'', 0), example_counters 200 20), ((''t1'', 2), example_counters 100 0)],
     sd_pool = []\<rparr>"

theorem pause_leaves_with_its_days_witness:
  "de_status (fetchDeliverabilityHealth example_standing ''t1'' DAY_MS) = DPaused
   \<and> de_status (fetchDeliverabilityHealth example_standing ''t1'' (2 * DAY_MS)) \<noteq> DPaused"
proof -
  have "de_status (fetchDeliverabilityHealth example_standing ''t1'' DAY_MS) = DPaused"
    by (simp add: health_status pauseWindow_start windowStartDay_eq example_standing_def
        counter_window_def sum_since_def example_counters_def evaluate_status status_of_judge
        judge_fires_def rateOf_def utcDay_def counterSent_def counterHardBounced_def
        counterComplaintSent_def consts_defs max_def less_eq_deliverability_status_def)
  moreover have "de_status (fetchDeliverabilityHealth example_standing ''t1'' (2 * DAY_MS)) \<noteq> DPaused"
    by (rule pause_leaves_with_its_days)
      (simp_all add: example_standing_def example_counters_def utcDay_def consts_defs counterHardBounced_def)
  ultimately show ?thesis ..
qed

text \<open>
  The teams of one Free pool share one standing, whatever their own counters say, and
  complaints count from the first send: three of them over at most a thousand sends each
  pause every team of the pool, with no volume floor.
\<close>

theorem free_pool_shares_standing:
  assumes "sd_teams db t = Some row" and "freePoolOwner row now = Some ow"
    and "sd_teams db t' = Some row'" and "freePoolOwner row' now = Some ow"
  shows "fetchDeliverabilityHealth db t now = fetchDeliverabilityHealth db t' now
    \<and> (let c = sum_since ow (utcDay now - 1) pr_complained (sd_pool db);
           s = sum_since ow (utcDay now - 1) (\<lambda>r. pr_sent r - pr_sentNoFeedback r) (sd_pool db)
        in 3 \<le> c \<and> 0 < s \<and> s \<le> 1000 * c \<longrightarrow>
           de_status (fetchDeliverabilityHealth db t' now) = DPaused)"
proof -
  let ?c = "sum_since ow (utcDay now - 1) pr_complained (sd_pool db)"
  let ?s = "sum_since ow (utcDay now - 1) (\<lambda>r. pr_sent r - pr_sentNoFeedback r) (sd_pool db)"
  have "de_status (fetchDeliverabilityHealth db t' now) = DPaused" if "3 \<le> ?c" "0 < ?s" "?s \<le> 1000 * ?c"
  proof -
    have "(of_int ?s :: rat) \<le> of_int (1000 * ?c)" using that(3) by (simp only: of_int_le_iff)
    then have "1 / 1000 \<le> rateOf ?c ?s"
      using that(2) by (simp add: rateOf_def pos_le_divide_eq)
    then have "judge_fires MComplaint 0 PAUSE_COMPLAINT_RATE MIN_PAUSE_COMPLAINTS
        (pool_window ow (utcDay now - 1) (sd_pool db))"
      using that by (simp add: judge_fires_def pool_window_def consts_defs)
    then show ?thesis
      using assms(3,4)
      by (simp add: health_status Let_def pauseWindow_start evaluate_status status_of_judge max_def
          less_eq_deliverability_status_def)
  qed
  then show ?thesis using assms by (simp add: fetchDeliverabilityHealth_def Let_def)
qed

definition example_pool_team :: team_row where
  "example_pool_team = \<lparr>tr_plan = FreePlan, tr_planQuota = None, tr_planStatus = SNone,
     tr_currentPeriodStart = None, tr_currentPeriodEnd = None, tr_overageEnabled = True,
     tr_dailySendCeiling = None, tr_poolOwnerId = Some ''u1''\<rparr>"

theorem free_pool_shares_standing_witness:
  "de_status (fetchDeliverabilityHealth
     \<lparr>sd_teams = [''t1'' \<mapsto> example_pool_team, ''t2'' \<mapsto> example_pool_team], sd_counters = [],
      sd_pool = [((''u1'', 0), empty_pool_row\<lparr>pr_sent := 20, pr_complained := 3\<rparr>)]\<rparr> ''t2'' 0) = DPaused"
proof -
  have o: "freePoolOwner example_pool_team 0 = Some ''u1''"
    by (simp add: freePoolOwner_def example_pool_team_def effectivePlan_def)
  show ?thesis
    using free_pool_shares_standing [where now = 0 and t = "''t1''" and t' = "''t2''" and ow = "''u1''"
        and row = example_pool_team and row' = example_pool_team and db =
        "\<lparr>sd_teams = [''t1'' \<mapsto> example_pool_team, ''t2'' \<mapsto> example_pool_team], sd_counters = [],
          sd_pool = [((''u1'', 0), empty_pool_row\<lparr>pr_sent := 20, pr_complained := 3\<rparr>)]\<rparr>"] o
    by (simp add: sum_since_def utcDay_def empty_pool_row_def consts_defs)
qed

text \<open>
  An operator may lift a pause only where it is the team's own bounces: not suspended,
  not in a Free pool, paused and never for complaints, and at least thirty days after the
  last lift; the cooldown is over by the end of day thirty-one.
\<close>

theorem pause_lift_allowed:
  assumes "pauseLiftRefusal f = None"
  shows "\<not> lf_suspended f \<and> \<not> lf_freePool f
    \<and> (\<exists>r \<in> set (lf_reasons f). re_tier r = TPaused)
    \<and> (\<forall>r \<in> set (lf_reasons f). re_tier r = TPaused \<longrightarrow> re_metric r = MBounce)
    \<and> (\<forall>l. lf_lastLiftAt f = Some l \<longrightarrow> l + PAUSE_LIFT_COOLDOWN_DAYS * DAY_MS \<le> lf_now f)
    \<and> (\<forall>l n. lf_lastLiftAt f = Some l \<longrightarrow> l + (PAUSE_LIFT_COOLDOWN_DAYS + 1) * DAY_MS \<le> n \<longrightarrow>
         pauseLiftRefusal (f\<lparr>lf_now := n\<rparr>) = None)"
proof -
  have m: "x \<noteq> MComplaint \<Longrightarrow> x = MBounce" for x by (cases x) simp_all
  have lo: "l + PAUSE_LIFT_COOLDOWN_DAYS * DAY_MS \<le> lf_now f" if "lf_lastLiftAt f = Some l" for l
    using assms that cooldown_bounds [of l] unfolding pauseLiftRefusal_None by fastforce
  have hi: "pauseLiftRefusal (f\<lparr>lf_now := n\<rparr>) = None"
    if "lf_lastLiftAt f = Some l" "l + (PAUSE_LIFT_COOLDOWN_DAYS + 1) * DAY_MS \<le> n" for l n
    using assms that cooldown_bounds [of l] unfolding pauseLiftRefusal_None by fastforce
  show ?thesis using assms m lo hi unfolding pauseLiftRefusal_None by blast
qed

theorem pause_lift_allowed_witness:
  "pauseLiftRefusal \<lparr>lf_suspended = False, lf_freePool = False, lf_reasons =
       de_reasons (evaluateDeliverability (example_window 200 10 0) (example_window 200 10 0) 100 100),
     lf_openFlag = None, lf_monitorRisk = None, lf_monitorFlagRisk = 50, lf_lastLiftAt = Some 1,
     lf_now = 31 * DAY_MS\<rparr> = None \<and> 1 + 30 * DAY_MS \<le> 31 * DAY_MS"
  (is "pauseLiftRefusal ?f = None \<and> _")
proof -
  have "pauseLiftRefusal ?f = None"
    by (simp add: pauseLiftRefusal_def Let_def evaluateDeliverability_def judge_def judge_fires_def
        example_window_def rateOf_def consts_defs pauseLiftCooldownEnd_def nextUtcDayStart_eq utcDay_def)
  then show ?thesis using pause_lift_allowed [of ?f] by (simp add: PAUSE_LIFT_COOLDOWN_DAYS_def)
qed

end
