(* ===== verification/TeamPlan.thy ===== *)
theory TeamPlan
  imports Deliverability "HOL-Library.List_Lexorder" "HOL-Library.Char_ord"
    "HOL-Library.Product_Lexorder"
begin

text \<open>
  \<open>packages/core/src/team-plan.ts\<close> and the actor encoding of \<open>audit.ts\<close>: the plan and
  quota of a stored team, the SQL twin of \<open>effectivePlan\<close>, the volume the instance has
  promised, and the backfill that puts a team and its record into its creator's Free pool.
  Tables are lists of rows; \<open>map_of\<close> reads one by its key.
\<close>

section \<open>Audit actors\<close>

datatype audit_actor = ActUser ident | ActApiKey ident | ActOauth | ActStripe | ActSystem

definition encodeAuditActor :: "audit_actor \<Rightarrow> string" where
  "encodeAuditActor actor =
     (case actor of ActOauth \<Rightarrow> ''oauth'' | ActStripe \<Rightarrow> ''stripe'' | ActSystem \<Rightarrow> ''system''
      | ActUser u \<Rightarrow> ''user:'' @ u | ActApiKey k \<Rightarrow> ''api_key:'' @ k)"

definition starts_with :: "string \<Rightarrow> string \<Rightarrow> bool" where
  "starts_with p s \<longleftrightarrow> take (length p) s = p"

text \<open>The parsed kinds are the actors', so both are one type.\<close>

definition parseAuditActor :: "string option \<Rightarrow> audit_actor" where
  "parseAuditActor actorId =
     (case actorId of
        None \<Rightarrow> ActSystem
      | Some a \<Rightarrow>
          if a = ''oauth'' then ActOauth
          else if a = ''stripe'' then ActStripe
          else if starts_with ''user:'' a then ActUser (drop 5 a)
          else if starts_with ''api_key:'' a then ActApiKey (drop 8 a)
          else ActSystem)"

definition apiRequestActor :: "ident option \<Rightarrow> ident option \<Rightarrow> audit_actor" where
  "apiRequestActor apiKeyId userId =
     (case apiKeyId of
        Some k \<Rightarrow> if k \<noteq> [] then ActApiKey k
                  else (case userId of Some u \<Rightarrow> if u \<noteq> [] then ActUser u else ActOauth | None \<Rightarrow> ActOauth)
      | None \<Rightarrow> (case userId of Some u \<Rightarrow> if u \<noteq> [] then ActUser u else ActOauth | None \<Rightarrow> ActOauth))"

section \<open>Tables\<close>

record audit_row =
  al_teamId :: "ident option"
  al_actorId :: string
  al_action :: string
  al_createdAt :: instant

datatype team_role = RoleOwner | RoleAdmin | RoleMember

record member_row =
  mb_id :: ident
  mb_teamId :: ident
  mb_userId :: ident
  mb_role :: team_role
  mb_createdAt :: instant

record plan_db =
  pd_teams :: "(ident \<times> team_row) list"
  pd_audit :: "audit_row list"
  pd_members :: "member_row list"
  pd_counters :: "((ident \<times> int) \<times> counter_row) list"
  pd_pool :: "((ident \<times> int) \<times> pool_row) list"

section \<open>Plans of stored teams\<close>

definition effectivelyFree :: "instant \<Rightarrow> team_row \<Rightarrow> bool option" where
  "effectivelyFree now t =
     sql_or (Some (tr_plan t = FreePlan))
       (sql_and (Some (tr_plan t \<noteq> System))
          (sql_lt (tr_currentPeriodEnd t) (now - PLAN_GRACE_DAYS * DAY_MS)))"

definition fetchEffectivePlan :: "plan_db \<Rightarrow> ident \<Rightarrow> instant \<Rightarrow> plan option" where
  "fetchEffectivePlan db teamId now =
     map_option (\<lambda>t. effectivePlan (tr_plan t) (tr_currentPeriodEnd t) now) (map_of (pd_teams db) teamId)"

text \<open>The outer option is a missing team, the inner one \<open>teamQuota\<close>'s throw.\<close>

definition fetchTeamQuota :: "plan_db \<Rightarrow> ident \<Rightarrow> bool \<Rightarrow> instant \<Rightarrow> team_quota option option" where
  "fetchTeamQuota db teamId isCloud now =
     map_option (\<lambda>t. teamQuota t isCloud now) (map_of (pd_teams db) teamId)"

fun PLAN_RANK :: "plan \<Rightarrow> nat" where
  "PLAN_RANK FreePlan = 0" | "PLAN_RANK Starter = 1" | "PLAN_RANK Pro = 2"
| "PLAN_RANK Scale = 3" | "PLAN_RANK System = 4"

definition owned_plans :: "plan_db \<Rightarrow> ident \<Rightarrow> instant \<Rightarrow> plan list" where
  "owned_plans db userId now =
     concat (map (\<lambda>m. map (\<lambda>(_, t). effectivePlan (tr_plan t) (tr_currentPeriodEnd t) now)
                        (filter (\<lambda>(i, _). i = mb_teamId m) (pd_teams db)))
       (filter (\<lambda>m. mb_userId m = userId \<and> mb_role m = RoleOwner) (pd_members db)))"

definition fetchBestOwnedPlan :: "plan_db \<Rightarrow> ident \<Rightarrow> instant \<Rightarrow> plan" where
  "fetchBestOwnedPlan db userId now =
     foldl (\<lambda>best p. if PLAN_RANK best < PLAN_RANK p then p else best) FreePlan
       (owned_plans db userId now)"

text \<open>
  \<open>Math.round\<close> rounds halves up. A spread is a third of an integer on every rung, so the
  sum of doubles never sits near a half unless it is one exactly.
\<close>

fun daily_share :: "team_quota \<Rightarrow> rat" where
  "daily_share (QDay _ limit _ _) = of_int limit"
| "daily_share (QMonth _ included _ _ _ _ _ most) =
     (case most of None \<Rightarrow> of_int included / 30 | Some c \<Rightarrow> min (of_int included / 30) (of_int c))"
| "daily_share QNone = 0"

definition committedDailyVolume :: "plan_db \<Rightarrow> instant \<Rightarrow> int option" where
  "committedDailyVolume db now =
     map_option (\<lambda>x. \<lfloor>x + 1 / 2\<rfloor>)
       (foldl (\<lambda>acc (_, t). case acc of None \<Rightarrow> None
                | Some s \<Rightarrow> map_option (\<lambda>q. s + daily_share q) (teamQuota t True now))
          (Some 0) (pd_teams db))"

definition contactRoom :: "(ident \<Rightarrow> int) \<Rightarrow> ident \<Rightarrow> plan \<Rightarrow> bool \<Rightarrow> int option" where
  "contactRoom contacts teamId plan isCloud =
     (case (if isCloud then PLAN_CONTACT_LIMIT plan else None) of
        None \<Rightarrow> None
      | Some limit \<Rightarrow> Some (limit - contacts teamId))"

section \<open>The backfill of pool owners\<close>

definition pool_row_of :: "counter_row \<Rightarrow> pool_row" where
  "pool_row_of c = \<lparr>pr_accepted = uc_accepted c, pr_sent = uc_sent c,
     pr_sentNoFeedback = uc_sentNoFeedback c, pr_hardBounced = uc_hardBounced c,
     pr_complained = uc_complained c\<rparr>"

definition add_pool_rows :: "pool_row \<Rightarrow> pool_row \<Rightarrow> pool_row" where
  "add_pool_rows p x = \<lparr>pr_accepted = pr_accepted p + pr_accepted x, pr_sent = pr_sent p + pr_sent x,
     pr_sentNoFeedback = pr_sentNoFeedback p + pr_sentNoFeedback x,
     pr_hardBounced = pr_hardBounced p + pr_hardBounced x,
     pr_complained = pr_complained p + pr_complained x\<rparr>"

fun upsert_pool_day :: "ident \<times> int \<Rightarrow> pool_row \<Rightarrow> ((ident \<times> int) \<times> pool_row) list
    \<Rightarrow> ((ident \<times> int) \<times> pool_row) list" where
  "upsert_pool_day k x [] = [(k, x)]"
| "upsert_pool_day k x (e # es) =
     (if fst e = k then (k, add_pool_rows (snd e) x) # es else e # upsert_pool_day k x es)"

definition carry_record :: "ident \<Rightarrow> ident \<Rightarrow> int \<Rightarrow> plan_db \<Rightarrow> plan_db" where
  "carry_record teamId ownerId since db =
     db\<lparr>pd_pool := fold (\<lambda>((_, day), c). upsert_pool_day (ownerId, day) (pool_row_of c))
         (filter (\<lambda>((t, day), _). t = teamId \<and> since \<le> day) (pd_counters db)) (pd_pool db)\<rparr>"

definition backfill_candidate :: "plan_db \<Rightarrow> ident \<Rightarrow> string option \<times> ident option" where
  "backfill_candidate db teamId =
     (map_option al_actorId (first_by al_createdAt
        (filter (\<lambda>a. al_teamId a = Some teamId \<and> al_action a = ''team.created'') (pd_audit db))),
      map_option mb_userId (first_by (\<lambda>m. (mb_createdAt m, mb_id m))
        (filter (\<lambda>m. mb_teamId m = teamId \<and> mb_role m = RoleOwner) (pd_members db))))"

definition backfill_owner :: "string option \<times> ident option \<Rightarrow> ident option" where
  "backfill_owner c =
     (let owner = (case parseAuditActor (fst c) of ActUser u \<Rightarrow> Some u | _ \<Rightarrow> snd c)
      in if owner = Some [] then None else owner)"

definition set_pool_owner :: "ident \<Rightarrow> ident \<Rightarrow> plan_db \<Rightarrow> plan_db" where
  "set_pool_owner teamId ownerId db =
     db\<lparr>pd_teams := update_rows (\<lambda>(i, t). i = teamId \<and> tr_poolOwnerId t = None)
                     (\<lambda>(i, t). (i, t\<lparr>tr_poolOwnerId := Some ownerId\<rparr>)) (pd_teams db)\<rparr>"

definition backfill_team :: "instant \<Rightarrow> ident \<Rightarrow> ident \<Rightarrow> plan_db \<Rightarrow> plan_db \<times> bool" where
  "backfill_team now teamId ownerId db =
     (case map_of (pd_teams db) teamId of
        None \<Rightarrow> (db, False)
      | Some t \<Rightarrow>
          if tr_poolOwnerId t \<noteq> None then (db, False)
          else
            let db1 = set_pool_owner teamId ownerId db;
                since = utcDay (now - (GUARDRAIL_WINDOW_DAYS - 1) * DAY_MS)
            in (if freePoolOwner (t\<lparr>tr_poolOwnerId := Some ownerId\<rparr>) now \<noteq> None
                then carry_record teamId ownerId since db1 else db1, True))"

fun backfill_rows :: "instant \<Rightarrow> (ident \<times> string option \<times> ident option) list \<Rightarrow> plan_db \<Rightarrow> nat
    \<Rightarrow> plan_db \<times> nat" where
  "backfill_rows now [] db filled = (db, filled)"
| "backfill_rows now ((teamId, c) # rows) db filled =
     (case backfill_owner c of
        None \<Rightarrow> backfill_rows now rows db filled
      | Some ownerId \<Rightarrow>
          (case backfill_team now teamId ownerId db of
             (db', recorded) \<Rightarrow> backfill_rows now rows db' (if recorded then filled + 1 else filled)))"

definition backfillPoolOwners :: "plan_db \<Rightarrow> bool \<Rightarrow> instant \<Rightarrow> plan_db \<times> nat" where
  "backfillPoolOwners db isCloud now =
     (if \<not> isCloud then (db, 0)
      else backfill_rows now
             (map (\<lambda>(i, _). (i, backfill_candidate db i))
                (filter (\<lambda>(_, t). tr_poolOwnerId t = None \<and> tr_plan t \<noteq> System) (pd_teams db)))
             db 0)"

section \<open>Lemmas\<close>

lemma parse_encode: "parseAuditActor (Some (encodeAuditActor a)) = a"
  by (cases a) (simp_all add: parseAuditActor_def encodeAuditActor_def starts_with_def)

lemma sum_since_Nil [simp]: "sum_since k s col [] = 0"
  by (simp add: sum_since_def)

lemma sum_since_Cons: "sum_since k s col (e # es) =
    (if fst (fst e) = k \<and> s \<le> snd (fst e) then col (snd e) else 0) + sum_since k s col es"
  by (cases e) (simp add: sum_since_def split: prod.splits)

text \<open>Adding a day's row to the pool adds its columns to every sum that covers the day.\<close>

definition additive :: "(pool_row \<Rightarrow> int) \<Rightarrow> bool" where
  "additive col \<longleftrightarrow> (\<forall>p x. col (add_pool_rows p x) = col p + col x)"

lemma additive_columns [simp]:
  "additive pr_accepted" "additive pr_sent" "additive pr_sentNoFeedback"
  "additive pr_hardBounced" "additive pr_complained"
  by (simp_all add: additive_def add_pool_rows_def)

lemma sum_since_upsert:
  assumes "additive col"
  shows "sum_since ow s col (upsert_pool_day k x es)
     = sum_since ow s col es + (if fst k = ow \<and> s \<le> snd k then col x else 0)"
  using assms by (induction es) (auto simp: sum_since_Cons additive_def)

lemma sum_since_carry:
  assumes "additive col" and "since \<le> s"
  shows "sum_since ow s col (pd_pool (carry_record t owner since db)) =
     sum_since ow s col (pd_pool db) + (if ow = owner
        then sum_since t s (\<lambda>c. col (pool_row_of c)) (pd_counters db) else 0)"
proof -
  have "sum_since ow s col (fold (\<lambda>((_, day), c). upsert_pool_day (owner, day) (pool_row_of c))
         (filter (\<lambda>((t', day), _). t' = t \<and> since \<le> day) cs) pool) =
     sum_since ow s col pool
     + (if ow = owner then sum_since t s (\<lambda>c. col (pool_row_of c)) cs else 0)" for cs pool
  proof (induction cs arbitrary: pool)
    case (Cons c cs)
    obtain t' d r where c: "c = ((t', d), r)" by (metis prod.collapse)
    show ?case using assms(2) Cons
      by (auto simp: c sum_since_Cons sum_since_upsert [OF assms(1)])
  qed simp
  then show ?thesis by (simp add: carry_record_def)
qed

lemma map_of_set_pool_owner:
  "map_of (pd_teams db) i = Some t \<Longrightarrow> tr_poolOwnerId t = None \<Longrightarrow>
   map_of (pd_teams (set_pool_owner i ow db)) i = Some (t\<lparr>tr_poolOwnerId := Some ow\<rparr>)"
proof -
  have "map_of rows i = Some t \<Longrightarrow> tr_poolOwnerId t = None \<Longrightarrow>
    map_of (update_rows (\<lambda>(j, t). j = i \<and> tr_poolOwnerId t = None)
        (\<lambda>(j, t). (j, t\<lparr>tr_poolOwnerId := Some ow\<rparr>)) rows) i
      = Some (t\<lparr>tr_poolOwnerId := Some ow\<rparr>)" for rows
    by (induction rows) (auto simp: update_rows_def split: if_splits)
  then show "map_of (pd_teams db) i = Some t \<Longrightarrow> tr_poolOwnerId t = None \<Longrightarrow> ?thesis"
    by (simp add: set_pool_owner_def)
qed

lemma carry_frame [simp]:
  "pd_teams (carry_record t ow s db) = pd_teams db" "pd_audit (carry_record t ow s db) = pd_audit db"
  "pd_members (carry_record t ow s db) = pd_members db" "pd_counters (carry_record t ow s db) = pd_counters db"
  by (simp_all add: carry_record_def)

lemma set_pool_owner_frame [simp]:
  "pd_audit (set_pool_owner t ow db) = pd_audit db" "pd_members (set_pool_owner t ow db) = pd_members db"
  "pd_counters (set_pool_owner t ow db) = pd_counters db" "pd_pool (set_pool_owner t ow db) = pd_pool db"
  "map fst (pd_teams (set_pool_owner t ow db)) = map fst (pd_teams db)"
  by (auto simp: set_pool_owner_def intro!: map_update_rows)

text \<open>A team's backfill fills every unowned row of the team and nothing else.\<close>

lemma backfill_team_frame:
  assumes "backfill_team now i ow db = (db', b)" and "distinct (map fst (pd_teams db))"
  shows "pd_audit db' = pd_audit db \<and> pd_members db' = pd_members db
    \<and> map fst (pd_teams db') = map fst (pd_teams db)
    \<and> (\<forall>j t. (j, t) \<in> set (pd_teams db') \<and> tr_poolOwnerId t = None \<longrightarrow>
         j \<noteq> i \<and> (j, t) \<in> set (pd_teams db))"
proof (cases "map_of (pd_teams db) i")
  case None
  then have "db' = db" using assms(1) by (simp add: backfill_team_def)
  then show ?thesis using None by (force simp: map_of_eq_None_iff)
next
  case (Some t)
  show ?thesis
  proof (cases "tr_poolOwnerId t")
    case None
    have "j \<noteq> i \<and> (j, u) \<in> set (pd_teams db)"
      if "(j, u) \<in> set (pd_teams (set_pool_owner i ow db))" "tr_poolOwnerId u = None" for j u
      using that by (auto simp: set_pool_owner_def set_update_rows split: if_splits
          dest!: arg_cong [of u _ tr_poolOwnerId])
    then have "\<forall>j u. (j, u) \<in> set (pd_teams (set_pool_owner i ow db)) \<and> tr_poolOwnerId u = None
        \<longrightarrow> j \<noteq> i \<and> (j, u) \<in> set (pd_teams db)" by blast
    moreover have "pd_teams db' = pd_teams (set_pool_owner i ow db)"
      "pd_audit db' = pd_audit db" "pd_members db' = pd_members db"
      using assms(1) Some None by (auto simp: backfill_team_def Let_def split: if_splits)
    ultimately show ?thesis by simp
  next
    case (Some ow')
    have "u = t" if "(i, u) \<in> set (pd_teams db)" for u
      using that assms(2) \<open>map_of (pd_teams db) i = Some t\<close> by (simp add: map_of_is_SomeI)
    moreover have "db' = db"
      using Some assms(1) \<open>map_of (pd_teams db) i = Some t\<close> by (simp add: backfill_team_def)
    ultimately show ?thesis using Some by fastforce
  qed
qed

lemma backfill_rows_frame:
  "backfill_rows now rows db n = (db', n') \<Longrightarrow> distinct (map fst (pd_teams db)) \<Longrightarrow>
     pd_audit db' = pd_audit db \<and> pd_members db' = pd_members db
     \<and> (\<forall>j t. (j, t) \<in> set (pd_teams db') \<and> tr_poolOwnerId t = None \<longrightarrow>
          (j, t) \<in> set (pd_teams db) \<and> (\<forall>c. (j, c) \<in> set rows \<longrightarrow> backfill_owner c = None))"
proof (induction now rows db n rule: backfill_rows.induct)
  case (2 now i c rows db n)
  show ?case
  proof (cases "backfill_owner c")
    case None
    then show ?thesis using 2(1) 2(3,4) by fastforce
  next
    case (Some ow)
    obtain db1 b where T: "backfill_team now i ow db = (db1, b)" by fastforce
    note f = backfill_team_frame [OF T 2(4)]
    have "backfill_rows now rows db1 (if b then n + 1 else n) = (db', n')"
      using 2(3) Some T by simp
    from 2(2) [OF Some T [symmetric] this] f show ?thesis using 2(4) by fastforce
  qed
qed simp

lemma backfill_rows_none:
  "\<forall>r \<in> set rows. backfill_owner (snd r) = None \<Longrightarrow> backfill_rows now rows db n = (db, n)"
  by (induction rows) auto

section \<open>Properties\<close>

definition example_plan_db :: plan_db where
  "example_plan_db = \<lparr>pd_teams = [(''t1'', example_pool_team\<lparr>tr_poolOwnerId := None\<rparr>)],
     pd_audit = [\<lparr>al_teamId = Some ''t1'', al_actorId = ''user:u1'', al_action = ''team.created'',
       al_createdAt = 0\<rparr>], pd_members = [],
     pd_counters = [((''t1'', 0), example_counters 40 2)], pd_pool = []\<rparr>"

text \<open>
  The SQL condition and \<open>effectivePlan\<close> agree on every team row, missing period ends
  included: the row passes the filter exactly when the plan in force is Free.
\<close>

theorem effectivelyFree_agrees:
  "sql_holds (effectivelyFree now t) \<longleftrightarrow>
     effectivePlan (tr_plan t) (tr_currentPeriodEnd t) now = FreePlan"
  by (cases "tr_plan t"; cases "tr_currentPeriodEnd t")
    (auto simp: effectivelyFree_def effectivePlan_def)

text \<open>The stored actor of an audit row reads back as the actor that wrote it.\<close>

theorem audit_actor_roundtrip:
  "parseAuditActor (Some (encodeAuditActor a)) = a"
  by (rule parse_encode)

text \<open>
  A worker boot's backfill leaves nothing for the next one. Run again at any later
  instant on its own result it changes no table and fills no team, so no team's record is
  carried into a pool twice.
\<close>

theorem backfill_idempotent:
  assumes "distinct (map fst (pd_teams db))"
  shows "backfillPoolOwners (fst (backfillPoolOwners db isCloud now)) isCloud now'
     = (fst (backfillPoolOwners db isCloud now), 0)"
proof (cases isCloud)
  case True
  let ?rows = "\<lambda>db. map (\<lambda>(i, _). (i, backfill_candidate db i))
                (filter (\<lambda>(_, t). tr_poolOwnerId t = None \<and> tr_plan t \<noteq> System) (pd_teams db))"
  obtain db' n where R: "backfill_rows now (?rows db) db 0 = (db', n)" by fastforce
  note f = backfill_rows_frame [OF R assms]
  have "backfill_candidate db' = backfill_candidate db"
    using f by (simp add: backfill_candidate_def fun_eq_iff)
  then have "\<forall>r \<in> set (?rows db'). backfill_owner (snd r) = None"
    using f by (fastforce simp: image_iff)
  from backfill_rows_none [OF this] show ?thesis
    using True R by (simp add: backfillPoolOwners_def)
qed (simp add: backfillPoolOwners_def)

theorem backfill_idempotent_witness:
  "snd (backfillPoolOwners example_plan_db True 0) = 1
   \<and> snd (backfillPoolOwners (fst (backfillPoolOwners example_plan_db True 0)) True 5) = 0"
proof -
  have "snd (backfillPoolOwners example_plan_db True 0) = 1"
    by (simp add: backfillPoolOwners_def example_plan_db_def backfill_candidate_def backfill_owner_def
        parseAuditActor_def starts_with_def backfill_team_def example_pool_team_def Let_def)
  then show ?thesis
    using backfill_idempotent [of example_plan_db True 0 5] by (simp add: example_plan_db_def)
qed

text \<open>
  A team that joins a Free pool brings its record with it, once. The pool's window sums
  of every column grow by exactly the team's own sums, over each window of the guardrail;
  other owners' pools keep theirs, and a second attempt records nothing.
\<close>

theorem backfill_carries_record:
  assumes "map_of (pd_teams db) i = Some t" and "tr_poolOwnerId t = None"
    and "effectivePlan (tr_plan t) (tr_currentPeriodEnd t) now = FreePlan" and "ow \<noteq> []"
    and "utcDay now - (GUARDRAIL_WINDOW_DAYS - 1) \<le> s"
  shows "\<exists>db'. backfill_team now i ow db = (db', True)
    \<and> pool_window ow s (pd_pool db') =
        \<lparr>w_sent = w_sent (pool_window ow s (pd_pool db)) + sum_since i s uc_sent (pd_counters db),
         w_complaintSent = w_complaintSent (pool_window ow s (pd_pool db))
           + sum_since i s counterComplaintSent (pd_counters db),
         w_hardBounced = w_hardBounced (pool_window ow s (pd_pool db))
           + sum_since i s uc_hardBounced (pd_counters db),
         w_complained = w_complained (pool_window ow s (pd_pool db))
           + sum_since i s uc_complained (pd_counters db)\<rparr>
    \<and> (\<forall>ow'. ow' \<noteq> ow \<longrightarrow> pool_window ow' s (pd_pool db') = pool_window ow' s (pd_pool db))
    \<and> (\<forall>now' ow'. backfill_team now' i ow' db' = (db', False))"
proof -
  let ?since = "utcDay (now - (GUARDRAIL_WINDOW_DAYS - 1) * DAY_MS)"
  let ?db1 = "set_pool_owner i ow db"
  let ?db' = "carry_record i ow ?since ?db1"
  have since: "?since \<le> s"
    using assms(5) windowStartDay_eq [of GUARDRAIL_WINDOW_DAYS now] by (simp add: windowStartDay_def)
  have "freePoolOwner (t\<lparr>tr_poolOwnerId := Some ow\<rparr>) now \<noteq> None"
    using assms(3,4) by (simp add: freePoolOwner_def)
  then have B: "backfill_team now i ow db = (?db', True)"
    using assms(1,2) by (simp add: backfill_team_def Let_def)
  have add: "additive (\<lambda>r. pr_sent r - pr_sentNoFeedback r)"
    by (simp add: additive_def add_pool_rows_def)
  have cs: "(\<lambda>c. uc_sent c - uc_sentNoFeedback c) = counterComplaintSent"
    by (simp add: fun_eq_iff counterComplaintSent_def)
  have W: "pool_window ow' s (pd_pool ?db') = (if ow' = ow then
       \<lparr>w_sent = w_sent (pool_window ow s (pd_pool db)) + sum_since i s uc_sent (pd_counters db),
         w_complaintSent = w_complaintSent (pool_window ow s (pd_pool db))
           + sum_since i s counterComplaintSent (pd_counters db),
         w_hardBounced = w_hardBounced (pool_window ow s (pd_pool db))
           + sum_since i s uc_hardBounced (pd_counters db),
         w_complained = w_complained (pool_window ow s (pd_pool db))
           + sum_since i s uc_complained (pd_counters db)\<rparr> else pool_window ow' s (pd_pool db))" for ow'
    by (simp add: pool_window_def sum_since_carry [OF _ since] add pool_row_of_def cs)
  have "map_of (pd_teams ?db') i = Some (t\<lparr>tr_poolOwnerId := Some ow\<rparr>)"
    using map_of_set_pool_owner [OF assms(1,2)] by simp
  then have "backfill_team now' i ow' ?db' = (?db', False)" for now' ow'
    by (simp add: backfill_team_def)
  with B W show ?thesis by (intro exI [of _ ?db']) simp
qed

theorem backfill_carries_record_witness:
  "\<exists>db'. backfill_team 0 ''t1'' ''u1'' example_plan_db = (db', True)
     \<and> w_sent (pool_window ''u1'' 0 (pd_pool db')) = 40"
proof -
  have m: "map_of (pd_teams example_plan_db) ''t1'' = Some (example_pool_team\<lparr>tr_poolOwnerId := None\<rparr>)"
    by (simp add: example_plan_db_def)
  have e: "effectivePlan (tr_plan (example_pool_team\<lparr>tr_poolOwnerId := None\<rparr>))
      (tr_currentPeriodEnd (example_pool_team\<lparr>tr_poolOwnerId := None\<rparr>)) 0 = FreePlan"
    by (simp add: example_pool_team_def effectivePlan_def)
  have z: "w_sent (pool_window ''u1'' 0 (pd_pool example_plan_db)) = 0"
    "sum_since ''t1'' 0 uc_sent (pd_counters example_plan_db) = 40"
    by (simp_all add: example_plan_db_def pool_window_def sum_since_def example_counters_def)
  show ?thesis
    using backfill_carries_record [OF m _ e, of "''u1''" 0] z
    by (auto simp: utcDay_def consts_defs)
qed

end
