(* ===== verification/EmailStatus.thy ===== *)
theory EmailStatus
  imports Prelude "HOL-Library.Multiset"
begin

text \<open>
  \<open>packages/core/src/status.ts\<close>: the email status ladder of
  \<open>packages/db/src/schema/emails.ts\<close>, its compare-and-set, the queue-internal
  transitions, and \<open>endQueuedEmails\<close>. The emails table is a list of rows with an id each;
  every update is one atomic statement. The guard a caller of \<open>endQueuedEmails\<close> adds is a
  parameter. \<open>failedEmailExtras\<close> and \<open>suppressedEmailExtras\<close> of \<open>webhooks.ts\<close> carry the
  reason into the webhook event, which keeps the reason here. The SQL predicates
  \<open>complainedEmail\<close> and \<open>deliveredEmail\<close> are read-only and not modelled.
\<close>

section \<open>The ladder\<close>

datatype email_status =
  QueuedQuota | Queued | Sent | DeliveryDelayed | Delivered | Opened | Clicked | Bounced
| Complained | Suppressed | Failed | Canceled

text \<open>\<open>emailStatusEnum.enumValues\<close>: declaration order is comparison order.\<close>

definition email_statuses :: "email_status list" where
  "email_statuses = [QueuedQuota, Queued, Sent, DeliveryDelayed, Delivered, Opened, Clicked,
     Bounced, Complained, Suppressed, Failed, Canceled]"

fun status_rank :: "email_status \<Rightarrow> nat" where
  "status_rank QueuedQuota = 0" | "status_rank Queued = 1" | "status_rank Sent = 2"
| "status_rank DeliveryDelayed = 3" | "status_rank Delivered = 4" | "status_rank Opened = 5"
| "status_rank Clicked = 6" | "status_rank Bounced = 7" | "status_rank Complained = 8"
| "status_rank Suppressed = 9" | "status_rank Failed = 10" | "status_rank Canceled = 11"

fun status_name :: "email_status \<Rightarrow> string" where
  "status_name QueuedQuota = ''queued_quota''" | "status_name Queued = ''queued''"
| "status_name Sent = ''sent''" | "status_name DeliveryDelayed = ''delivery_delayed''"
| "status_name Delivered = ''delivered''" | "status_name Opened = ''opened''"
| "status_name Clicked = ''clicked''" | "status_name Bounced = ''bounced''"
| "status_name Complained = ''complained''" | "status_name Suppressed = ''suppressed''"
| "status_name Failed = ''failed''" | "status_name Canceled = ''canceled''"

instantiation email_status :: linorder
begin

definition less_eq_email_status :: "email_status \<Rightarrow> email_status \<Rightarrow> bool" where
  "less_eq_email_status a b \<longleftrightarrow> status_rank a \<le> status_rank b"

definition less_email_status :: "email_status \<Rightarrow> email_status \<Rightarrow> bool" where
  "less_email_status a b \<longleftrightarrow> status_rank a < status_rank b"

instance
proof
  fix x y z :: email_status
  show "(x < y) = (x \<le> y \<and> \<not> y \<le> x)"
    by (auto simp: less_email_status_def less_eq_email_status_def)
  show "x \<le> x" by (simp add: less_eq_email_status_def)
  show "x \<le> y \<Longrightarrow> y \<le> z \<Longrightarrow> x \<le> z" by (simp add: less_eq_email_status_def)
  show "x \<le> y \<Longrightarrow> y \<le> x \<Longrightarrow> x = y"
    by (cases x; cases y; simp add: less_eq_email_status_def)
  show "x \<le> y \<or> y \<le> x" by (auto simp: less_eq_email_status_def)
qed

end

lemmas status_order = less_eq_email_status_def less_email_status_def

text \<open>\<open>compareStatus\<close>: the difference of the positions in the enum.\<close>

definition compareStatus :: "email_status \<Rightarrow> email_status \<Rightarrow> int" where
  "compareStatus a b = int (status_rank a) - int (status_rank b)"

lemma email_statuses_all: "s \<in> set email_statuses"
  by (cases s) (simp_all add: email_statuses_def)

section \<open>Operations\<close>

record email_row =
  er_id :: ident
  er_teamId :: ident
  er_latestStatus :: email_status
  er_sentAt :: "instant option"
  er_parkReason :: "string option"
  er_sesMessageId :: "string option"
  er_from :: string
  er_to :: "string list"
  er_subject :: string

definition EVENT_LADDER_FLOOR :: email_status where "EVENT_LADDER_FLOOR = Sent"

text \<open>\<open>None\<close> is the thrown error; the flag says whether a row was returned.\<close>

definition applyStatusCas ::
    "ident \<Rightarrow> email_status \<Rightarrow> 'a email_row_scheme list \<Rightarrow> ('a email_row_scheme list \<times> bool) option" where
  "applyStatusCas emailId next rows =
     (if compareStatus next EVENT_LADDER_FLOOR < 0 then None
      else
        let P = (\<lambda>r. er_id r = emailId \<and> er_latestStatus r < next);
            f = (\<lambda>r. r\<lparr>er_latestStatus := next\<rparr>)
        in Some (update_rows P f rows, returning P f rows \<noteq> []))"

datatype queue_state = QSQueued | QSQueuedQuota

fun queue_status :: "queue_state \<Rightarrow> email_status" where
  "queue_status QSQueued = Queued"
| "queue_status QSQueuedQuota = QueuedQuota"

definition transitionQueueState ::
    "ident \<Rightarrow> queue_state \<Rightarrow> queue_state \<Rightarrow> 'a email_row_scheme list \<Rightarrow> 'a email_row_scheme list \<times> bool" where
  "transitionQueueState emailId from to rows =
     (let P = (\<lambda>r. er_id r = emailId \<and> er_latestStatus r = queue_status from \<and> er_sentAt r = None);
          f = (\<lambda>r. r\<lparr>er_latestStatus := queue_status to,
                     er_parkReason := (if to = QSQueued then None else er_parkReason r)\<rparr>)
      in (update_rows P f rows, returning P f rows \<noteq> []))"

datatype end_status = EndFailed | EndSuppressed

fun end_email_status :: "end_status \<Rightarrow> email_status" where
  "end_email_status EndFailed = Failed"
| "end_email_status EndSuppressed = Suppressed"

record email_event =
  ee_emailId :: ident
  ee_type :: email_status
  ee_occurredAt :: instant
  ee_reason :: string

record webhook_event =
  we_type :: email_status
  we_emailId :: ident
  we_from :: string
  we_to :: "string list"
  we_subject :: string
  we_occurredAt :: instant
  we_reason :: string

definition may_end :: "('a email_row_scheme \<Rightarrow> bool) \<Rightarrow> 'a email_row_scheme \<Rightarrow> bool" where
  "may_end guard r \<longleftrightarrow> er_latestStatus r \<in> {Queued, QueuedQuota} \<and> er_sesMessageId r = None \<and> guard r"

definition end_row :: "end_status \<Rightarrow> 'a email_row_scheme \<Rightarrow> 'a email_row_scheme" where
  "end_row status r = r\<lparr>er_latestStatus := end_email_status status,
     er_sentAt := (if status = EndFailed then None else er_sentAt r)\<rparr>"

text \<open>
  Returns the rows, the email events written with them, the webhook events handed to
  \<open>enqueueEmailWebhookEvents\<close> team by team, and how many rows ended.
\<close>

definition endQueuedEmails ::
    "end_status \<Rightarrow> ('a email_row_scheme \<Rightarrow> bool) \<Rightarrow> string \<Rightarrow> instant \<Rightarrow> 'a email_row_scheme list
     \<Rightarrow> 'a email_row_scheme list \<times> email_event list \<times> (ident \<times> webhook_event list) list \<times> nat" where
  "endQueuedEmails status guard reason now rows =
     (let ended = returning (may_end guard) (end_row status) rows;
          events = map (\<lambda>r. \<lparr>ee_emailId = er_id r, ee_type = end_email_status status,
                             ee_occurredAt = now, ee_reason = reason\<rparr>) ended;
          byTeam = group_pairs (map (\<lambda>r. (er_teamId r,
                     \<lparr>we_type = end_email_status status, we_emailId = er_id r, we_from = er_from r,
                      we_to = er_to r, we_subject = er_subject r, we_occurredAt = now,
                      we_reason = reason\<rparr>)) ended)
      in (update_rows (may_end guard) (end_row status) rows, events, byTeam, length ended))"

text \<open>\<open>findLast\<close> over the enum of a status whose name is among the types.\<close>

definition highestStatus :: "string list \<Rightarrow> email_status option" where
  "highestStatus types = List.find (\<lambda>s. status_name s \<in> set types) (rev email_statuses)"

section \<open>Lemmas\<close>

lemma cas_value:
  "applyStatusCas i s rows = Some (rows', b) \<Longrightarrow> Sent \<le> s
   \<and> rows' = map (\<lambda>r. if er_id r = i then r\<lparr>er_latestStatus := max (er_latestStatus r) s\<rparr> else r) rows"
proof -
  have idem: "r\<lparr>er_latestStatus := er_latestStatus r\<rparr> = r" for r by simp
  assume "applyStatusCas i s rows = Some (rows', b)"
  then show ?thesis
    by (auto simp: applyStatusCas_def update_rows_def compareStatus_def EVENT_LADDER_FLOOR_def
        Let_def max_absorb1 max_absorb2 not_less less_imp_le less_eq_email_status_def
        split: if_splits)
qed

lemma cas_defined: "Sent \<le> s \<Longrightarrow> \<exists>x. applyStatusCas i s rows = Some x"
  by (auto simp: applyStatusCas_def compareStatus_def EVENT_LADDER_FLOOR_def status_order Let_def)

text \<open>Deliveries of events for one email, each one compare-and-set; an error stops nothing here.\<close>

fun cas_all :: "ident \<Rightarrow> email_status list \<Rightarrow> email_row list \<Rightarrow> email_row list option" where
  "cas_all i [] rows = Some rows"
| "cas_all i (s # ss) rows =
     (case applyStatusCas i s rows of None \<Rightarrow> None | Some (rows', _) \<Rightarrow> cas_all i ss rows')"

lemma cas_all_value:
  assumes "\<forall>s \<in> set ss. Sent \<le> s"
  shows "cas_all i ss rows = Some (map (\<lambda>r. if er_id r = i
      then r\<lparr>er_latestStatus := fold max ss (er_latestStatus r)\<rparr> else r) rows)"
  using assms
proof (induction ss arbitrary: rows)
  case Nil
  then show ?case by (simp cong: if_cong map_cong)
next
  case (Cons s ss)
  obtain rows' b where R: "applyStatusCas i s rows = Some (rows', b)"
    using cas_defined [of s i rows] Cons.prems by auto
  note v = cas_value [OF R]
  show ?case using Cons R v by (simp add: comp_def max.commute if_distrib cong: if_cong)
qed

inductive status_step :: "email_row list \<Rightarrow> email_row list \<Rightarrow> bool" where
  cas: "applyStatusCas i s rows = Some (rows', b) \<Longrightarrow> status_step rows rows'"
| queue: "transitionQueueState i from to rows = (rows', b) \<Longrightarrow> status_step rows rows'"
| end_queued: "endQueuedEmails st guard reason now rows = (rows', es, ws, n) \<Longrightarrow> status_step rows rows'"

text \<open>What one step may do to one row: raise a status on the ladder, or move below it.\<close>

definition row_step_ok :: "email_row \<Rightarrow> email_row \<Rightarrow> bool" where
  "row_step_ok r r' \<longleftrightarrow> er_id r' = er_id r \<and> er_teamId r' = er_teamId r
     \<and> er_sesMessageId r' = er_sesMessageId r
     \<and> (Sent \<le> er_latestStatus r \<longrightarrow> er_latestStatus r \<le> er_latestStatus r')"

lemma status_step_rows:
  assumes "status_step rows rows'"
  shows "length rows' = length rows \<and> (\<forall>i < length rows. row_step_ok (rows ! i) (rows' ! i))"
  using assms
proof cases
  case (cas i s b)
  then show ?thesis using cas_value [OF cas] by (auto simp: row_step_ok_def)
next
  case (queue i qf qt b)
  have q: "\<not> Sent \<le> queue_status q" for q by (cases q) (simp_all add: status_order)
  show ?thesis using queue q by (auto simp: transitionQueueState_def Let_def row_step_ok_def)
next
  case (end_queued st guard reason now es ws n)
  then show ?thesis
    by (auto simp: endQueuedEmails_def Let_def row_step_ok_def may_end_def end_row_def status_order)
qed

section \<open>Properties\<close>

text \<open>
  C5: events may arrive in any order. Applying any list of event statuses to an email
  leaves it at the highest of them and the status it had, so two workers that see the same
  events in different orders store the same status.
\<close>

theorem cas_order_independent:
  assumes "\<forall>s \<in> set ss. Sent \<le> s" and "mset ss = mset ss'"
  shows "\<exists>rows'. cas_all i ss rows = Some rows' \<and> cas_all i ss' rows = Some rows'
     \<and> (\<forall>j < length rows. er_latestStatus (rows' ! j) =
          (if er_id (rows ! j) = i then Max (insert (er_latestStatus (rows ! j)) (set ss))
           else er_latestStatus (rows ! j)))"
proof -
  have m: "fold max xs s = Max (insert s (set xs))" for s :: email_status and xs
    by (simp flip: Max.set_eq_fold)
  have s: "set ss' = set ss" using assms(2) by (metis set_mset_mset)
  then have v: "cas_all i ss' rows = cas_all i ss rows"
    using assms(1) by (simp add: cas_all_value m)
  show ?thesis unfolding v using assms(1) by (simp add: cas_all_value m)
qed

definition example_email :: "ident \<Rightarrow> email_status \<Rightarrow> email_row" where
  "example_email i s = \<lparr>er_id = i, er_teamId = ''t1'', er_latestStatus = s, er_sentAt = None,
     er_parkReason = None, er_sesMessageId = None, er_from = ''a@b.c'', er_to = [''d@e.f''],
     er_subject = ''hi''\<rparr>"

theorem cas_order_independent_witness:
  "cas_all ''e1'' [Delivered, Sent, Opened] [example_email ''e1'' Queued]
   = cas_all ''e1'' [Sent, Opened, Delivered] [example_email ''e1'' Queued]"
proof -
  have "\<forall>s \<in> set [Delivered, Sent, Opened]. Sent \<le> s" by (simp add: status_order)
  moreover have "mset [Delivered, Sent, Opened] = mset [Sent, Opened, Delivered]" by simp
  ultimately show ?thesis
    using cas_order_independent [of "[Delivered, Sent, Opened]" "[Sent, Opened, Delivered]" "''e1''"
        "[example_email ''e1'' Queued]"] by auto
qed



text \<open>
  \<open>endQueuedEmails\<close> ends exactly the waiting rows its guards allow, never one SES
  accepted; each ended row gets one event, and each team one batch of webhook events, one
  per ended row of the team, in order.
\<close>

theorem endQueuedEmails_exact:
  assumes "endQueuedEmails st guard reason now rows = (rows', events, byTeam, n)"
  shows "rows' = map (\<lambda>r. if may_end guard r then end_row st r else r) rows
    \<and> n = length (filter (may_end guard) rows)
    \<and> map ee_emailId events = map er_id (filter (may_end guard) rows)
    \<and> distinct (map fst byTeam)
    \<and> set (map fst byTeam) = er_teamId ` set (filter (may_end guard) rows)
    \<and> (\<forall>(t, ws) \<in> set byTeam. map we_emailId ws
         = map er_id (filter (\<lambda>r. may_end guard r \<and> er_teamId r = t) rows))
    \<and> (\<forall>r \<in> set rows. er_sesMessageId r \<noteq> None \<longrightarrow> r \<in> set rows')"
proof -
  let ?ended = "returning (may_end guard) (end_row st) rows"
  let ?w = "\<lambda>r. \<lparr>we_type = end_email_status st, we_emailId = er_id r, we_from = er_from r,
                      we_to = er_to r, we_subject = er_subject r, we_occurredAt = now,
                      we_reason = reason\<rparr>"
  let ?kv = "map (\<lambda>r. (er_teamId r, ?w r)) ?ended"
  have R: "rows' = update_rows (may_end guard) (end_row st) rows" "byTeam = group_pairs ?kv"
    "events = map (\<lambda>r. \<lparr>ee_emailId = er_id r, ee_type = end_email_status st,
                             ee_occurredAt = now, ee_reason = reason\<rparr>) ?ended" "n = length ?ended"
    using assms by (simp_all add: endQueuedEmails_def Let_def)
  have ids: "er_id (end_row st r) = er_id r" "er_teamId (end_row st r) = er_teamId r" for r
    by (simp_all add: end_row_def)
  have "map we_emailId ws = map er_id (filter (\<lambda>r. may_end guard r \<and> er_teamId r = t) rows)"
    if "(t, ws) \<in> set byTeam" for t ws
  proof -
    have "ws = map snd (filter (\<lambda>p. fst p = t) ?kv)"
      using that group_pairs_spec [of ?kv] unfolding R(2) by blast
    then show ?thesis
      by (simp add: returning_def filter_map comp_def ids conj_commute)
  qed
  moreover have "r \<in> set rows'" if "r \<in> set rows" "er_sesMessageId r \<noteq> None" for r
    using that unfolding R(1) set_update_rows by (auto simp: may_end_def intro: exI [of _ r])
  moreover have "distinct (map fst byTeam)"
    and "set (map fst byTeam) = er_teamId ` set (filter (may_end guard) rows)"
    using group_pairs_spec [of ?kv] unfolding R(2)
    by (simp_all add: returning_def image_image ids)
  moreover have "map ee_emailId events = map er_id (filter (may_end guard) rows)"
    by (simp add: R(3) returning_def comp_def ids)
  ultimately show ?thesis
    by (auto simp: R(1,4) update_rows_def returning_def)
qed

theorem endQueuedEmails_exact_witness:
  "\<exists>rows' events byTeam n. endQueuedEmails EndFailed (\<lambda>_. True) ''r'' 5
       [example_email ''e1'' Queued, example_email ''e2'' Delivered] = (rows', events, byTeam, n)
     \<and> n = 1 \<and> map ee_emailId events = [''e1'']"
proof -
  obtain rows' events byTeam n where R: "endQueuedEmails EndFailed (\<lambda>_. True) ''r'' 5
       [example_email ''e1'' Queued, example_email ''e2'' Delivered] = (rows', events, byTeam, n)"
    by (cases "endQueuedEmails EndFailed (\<lambda>_. True) ''r'' 5
       [example_email ''e1'' Queued, example_email ''e2'' Delivered]") auto
  have f: "filter (may_end (\<lambda>_. True)) [example_email ''e1'' Queued, example_email ''e2'' Delivered]
      = [example_email ''e1'' Queued]"
    by (simp add: may_end_def example_email_def)
  have "n = 1 \<and> map ee_emailId events = [''e1'']"
    using endQueuedEmails_exact [OF R] unfolding f by (simp add: example_email_def)
  with R show ?thesis by (intro exI conjI) auto
qed

text \<open>C17: \<open>highestStatus\<close> is the maximum of the statuses named by the types, if there is one.\<close>

theorem highestStatus_is_max:
  "(highestStatus types = Some s \<longleftrightarrow>
      status_name s \<in> set types \<and> (\<forall>s'. status_name s' \<in> set types \<longrightarrow> s' \<le> s))
   \<and> (highestStatus types = None \<longleftrightarrow> (\<forall>s. status_name s \<notin> set types))"
proof -
  let ?xs = "rev email_statuses"
  have "sorted email_statuses" by (simp add: email_statuses_def status_order)
  then have desc: "i < j \<Longrightarrow> j < length ?xs \<Longrightarrow> ?xs ! j \<le> ?xs ! i" for i j
    by (simp add: rev_nth sorted_iff_nth_mono)
  have all: "\<exists>i < length ?xs. ?xs ! i = s" for s
    using email_statuses_all [of s] by (metis in_set_conv_nth set_rev)
  have fwd: "status_name s \<in> set types \<and> (\<forall>s'. status_name s' \<in> set types \<longrightarrow> s' \<le> s)"
    if "highestStatus types = Some s" for s
  proof -
    from that obtain i where i: "i < length ?xs" "status_name (?xs ! i) \<in> set types" "?xs ! i = s"
      "\<forall>j < i. status_name (?xs ! j) \<notin> set types"
      unfolding highestStatus_def find_Some_iff by blast
    have "s' \<le> s" if "status_name s' \<in> set types" for s'
    proof -
      obtain j where "j < length ?xs" "?xs ! j = s'" using all by blast
      then show ?thesis using i that desc [of i j] by (cases i j rule: linorder_cases) auto
    qed
    then show ?thesis using i by blast
  qed
  have none: "highestStatus types = None \<longleftrightarrow> (\<forall>s. status_name s \<notin> set types)"
    unfolding highestStatus_def find_None_iff using email_statuses_all by auto
  show ?thesis
  proof (intro conjI iffI)
    assume a: "status_name s \<in> set types \<and> (\<forall>s'. status_name s' \<in> set types \<longrightarrow> s' \<le> s)"
    then obtain s2 where s2: "highestStatus types = Some s2" using none by fastforce
    with fwd a have "s2 = s" by (meson antisym)
    then show "highestStatus types = Some s" using s2 by simp
  qed (use fwd none in blast)+
qed

theorem highestStatus_is_max_witness:
  "highestStatus [''sent'', ''prefetched'', ''opened''] = Some Opened \<and> Sent \<le> Opened"
proof -
  have h: "highestStatus [''sent'', ''prefetched'', ''opened''] = Some Opened"
    by (simp add: highestStatus_def email_statuses_def)
  have "Sent \<le> Opened"
    using highestStatus_is_max [of "[''sent'', ''prefetched'', ''opened'']" Opened] h
    by (metis list.set_intros(1) status_name.simps(3))
  with h show ?thesis ..
qed

end
