(* ===== verification/TeamStanding.thy ===== *)
theory TeamStanding
  imports TeamPlan EmailStatus
begin

text \<open>
  \<open>packages/core/src/team-standing.ts\<close> with \<open>unsubscribeSuspendedMembers\<close> of
  \<open>system-contacts.ts\<close>: suspensions, what they cancel and whom they unsubscribe, the review
  hold after complaints, and the admission every accept path applies. Postgres's \<open>lower\<close> is
  the parameter \<open>lower\<close>; \<open>clock\<close> is what \<open>new Date()\<close> and the database's \<open>now()\<close> read.
  Audit and timeline writes succeed (a failure is swallowed by the code and changes nothing else).
  The wordings of a refusal are display text.
\<close>

section \<open>State\<close>

datatype suspension_reason = SusManual | SusReputation | SusPhishing | SusNonPayment | SusReview

definition SUSPENSION_REASONS :: "suspension_reason list" where
  "SUSPENSION_REASONS = [SusManual, SusReputation, SusPhishing, SusNonPayment, SusReview]"

definition SILENT_SUSPENSIONS :: "suspension_reason list" where
  "SILENT_SUSPENSIONS = [SusPhishing, SusReview]"

definition ABUSE_SUSPENSIONS :: "suspension_reason list" where
  "ABUSE_SUSPENSIONS = [SusManual, SusReputation, SusPhishing]"

definition OPERATOR_PARK_REASONS :: "string list" where
  "OPERATOR_PARK_REASONS = [''screening'', ''destination'', ''media'', ''recipient'']"

record org_team =
  ot_row :: team_row
  ot_suspendedAt :: "instant option"
  ot_suspensionReason :: "suspension_reason option"
  ot_suspensionNote :: "string option"
  ot_broadcastsPausedByOperatorAt :: "instant option"

record contact_row =
  ct_id :: ident
  ct_teamId :: ident
  ct_email :: string
  ct_unsubscribed :: bool
  ct_unsubscribedAt :: "instant option"
  ct_updatedAt :: instant

record activity_row =
  ac_teamId :: ident
  ac_contactId :: ident
  ac_type :: string

record standing_audit = audit_row +
  sa_emails :: "nat option"
  sa_reason :: "suspension_reason option"

record flag_row =
  fl_teamId :: ident
  fl_reason :: string
  fl_open :: bool
  fl_suspension :: bool
  fl_openedAt :: instant

record org_db =
  og_teams :: "ident \<rightharpoonup> org_team"
  og_counters :: "((ident \<times> int) \<times> counter_row) list"
  og_pool :: "((ident \<times> int) \<times> pool_row) list"
  og_emails :: "email_row list"
  og_members :: "member_row list"
  og_users :: "(ident \<times> string) list"
  og_signups :: "(ident \<times> bool) list"
  og_contacts :: "contact_row list"
  og_activity :: "activity_row list"
  og_audit :: "standing_audit list"
  og_flags :: "flag_row list"

definition standing_db_of :: "org_db \<Rightarrow> standing_db" where
  "standing_db_of db = \<lparr>sd_teams = (\<lambda>i. map_option ot_row (og_teams db i)),
     sd_counters = og_counters db, sd_pool = og_pool db\<rparr>"

section \<open>Reading the standing\<close>

definition isSilentlySuspended :: "org_team \<Rightarrow> bool" where
  "isSilentlySuspended t \<longleftrightarrow> ot_suspendedAt t \<noteq> None
     \<and> (case ot_suspensionReason t of None \<Rightarrow> False | Some r \<Rightarrow> r \<in> set SILENT_SUSPENSIONS)"

record suspension =
  su_at :: instant
  su_reason :: suspension_reason
  su_note :: "string option"

record team_standing =
  ts_suspended :: "suspension option"
  ts_broadcastsPausedByOperatorAt :: "instant option"
  ts_dailySendCeiling :: "int option"

definition teamStandingOf :: "org_team \<Rightarrow> team_standing" where
  "teamStandingOf t =
     \<lparr>ts_suspended = (case (ot_suspendedAt t, ot_suspensionReason t) of
         (Some a, Some r) \<Rightarrow> Some \<lparr>su_at = a, su_reason = r, su_note = ot_suspensionNote t\<rparr>
       | _ \<Rightarrow> None),
      ts_broadcastsPausedByOperatorAt = ot_broadcastsPausedByOperatorAt t,
      ts_dailySendCeiling = tr_dailySendCeiling (ot_row t)\<rparr>"

definition linksDisabled :: "team_standing \<Rightarrow> bool" where
  "linksDisabled s = (case ts_suspended s of None \<Rightarrow> False | Some x \<Rightarrow> su_reason x \<noteq> SusNonPayment)"

definition fetchTeamStanding :: "org_db \<Rightarrow> ident \<Rightarrow> team_standing option" where
  "fetchTeamStanding db teamId = map_option teamStandingOf (og_teams db teamId)"

definition isTeamSuspended :: "org_db \<Rightarrow> ident \<Rightarrow> bool" where
  "isTeamSuspended db teamId =
     (case og_teams db teamId of None \<Rightarrow> False | Some t \<Rightarrow> ot_suspendedAt t \<noteq> None)"

section \<open>Suspending\<close>

definition member_addresses :: "(string \<Rightarrow> string) \<Rightarrow> ident \<Rightarrow> org_db \<Rightarrow> string list" where
  "member_addresses lower teamId db =
     concat (map (\<lambda>m. map (\<lambda>(_, e). lower e) (filter (\<lambda>(u, _). u = mb_userId m) (og_users db)))
       (filter (\<lambda>m. mb_teamId m = teamId) (og_members db)))"

definition on_system_team :: "org_db \<Rightarrow> contact_row \<Rightarrow> bool" where
  "on_system_team db c \<longleftrightarrow>
     (case og_teams db (ct_teamId c) of None \<Rightarrow> False | Some t \<Rightarrow> tr_plan (ot_row t) = System)"

definition unsubscribes :: "(string \<Rightarrow> string) \<Rightarrow> ident \<Rightarrow> org_db \<Rightarrow> contact_row \<Rightarrow> bool" where
  "unsubscribes lower teamId db c \<longleftrightarrow> \<not> ct_unsubscribed c \<and> on_system_team db c
     \<and> lower (ct_email c) \<in> set (member_addresses lower teamId db)"

definition unsubscribe_contact :: "instant \<Rightarrow> contact_row \<Rightarrow> contact_row" where
  "unsubscribe_contact now c =
     c\<lparr>ct_unsubscribed := True, ct_unsubscribedAt := Some now, ct_updatedAt := now\<rparr>"

definition unsubscribeSuspendedMembers ::
    "(string \<Rightarrow> string) \<Rightarrow> instant \<Rightarrow> ident \<Rightarrow> org_db \<Rightarrow> org_db \<times> activity_row list" where
  "unsubscribeSuspendedMembers lower clock teamId db =
     (let P = unsubscribes lower teamId db; f = unsubscribe_contact clock in
      (db\<lparr>og_contacts := update_rows P f (og_contacts db)\<rparr>,
       map (\<lambda>c. \<lparr>ac_teamId = ct_teamId c, ac_contactId = ct_id c,
                 ac_type = ''unsubscribed_team_suspended''\<rparr>) (returning P f (og_contacts db))))"

record suspend_input =
  si_teamId :: ident
  si_reason :: suspension_reason
  si_note :: "string option"
  si_now :: "instant option"
  si_ifNotSuspended :: bool

definition operator_parked :: "ident \<Rightarrow> email_row \<Rightarrow> bool" where
  "operator_parked teamId e \<longleftrightarrow> er_teamId e = teamId \<and> er_latestStatus e = QueuedQuota
     \<and> er_sentAt e = None
     \<and> (case er_parkReason e of None \<Rightarrow> False
        | Some r \<Rightarrow> r \<in> set (''review'' # ''fuse'' # OPERATOR_PARK_REASONS))"

definition cancel_row :: "email_row \<Rightarrow> email_row" where
  "cancel_row e = e\<lparr>er_latestStatus := Canceled\<rparr>"

definition suspend_row :: "instant \<Rightarrow> suspend_input \<Rightarrow> org_team \<Rightarrow> org_team" where
  "suspend_row clock inp t =
     t\<lparr>ot_suspendedAt := Some (case ot_suspendedAt t of Some a \<Rightarrow> a
          | None \<Rightarrow> (case si_now inp of Some n \<Rightarrow> n | None \<Rightarrow> clock)),
       ot_suspensionReason := Some (si_reason inp), ot_suspensionNote := si_note inp\<rparr>"

definition mark_signups :: "ident \<Rightarrow> org_db \<Rightarrow> org_db" where
  "mark_signups teamId db =
     (let users = map mb_userId (filter (\<lambda>m. mb_teamId m = teamId) (og_members db)) in
      db\<lparr>og_signups := update_rows (\<lambda>(u, _). u \<in> set users) (\<lambda>(u, _). (u, True)) (og_signups db)\<rparr>)"

text \<open>The transaction: the timeline rows and the number of emails canceled, unless nothing changed.\<close>

definition suspend_tx :: "(string \<Rightarrow> string) \<Rightarrow> instant \<Rightarrow> suspend_input \<Rightarrow> org_db
    \<Rightarrow> (org_db \<times> activity_row list \<times> nat) option" where
  "suspend_tx lower clock inp db =
     (case og_teams db (si_teamId inp) of
        None \<Rightarrow> None
      | Some before \<Rightarrow>
          if si_ifNotSuspended inp \<and> ot_suspendedAt before \<noteq> None then None
          else
            let db1 = db\<lparr>og_teams := (og_teams db)(si_teamId inp \<mapsto> suspend_row clock inp before)\<rparr>;
                P = (\<lambda>e. si_reason inp \<noteq> SusReview \<and> operator_parked (si_teamId inp) e);
                db2 = db1\<lparr>og_emails := update_rows P cancel_row (og_emails db1)\<rparr>;
                canceled = length (returning P cancel_row (og_emails db1))
            in if si_reason inp \<notin> set ABUSE_SUSPENSIONS then Some (db2, [], canceled)
               else
                 let db3 = mark_signups (si_teamId inp) db2 in
                 (case ot_suspensionReason before of
                    Some r \<Rightarrow>
                      if r \<in> set ABUSE_SUSPENSIONS then Some (db3, [], canceled)
                      else (case unsubscribeSuspendedMembers lower clock (si_teamId inp) db3 of
                              (db4, acts) \<Rightarrow> Some (db4, acts, canceled))
                  | None \<Rightarrow>
                      (case unsubscribeSuspendedMembers lower clock (si_teamId inp) db3 of
                         (db4, acts) \<Rightarrow> Some (db4, acts, canceled))))"

definition recordContactActivity :: "activity_row list \<Rightarrow> org_db \<Rightarrow> org_db" where
  "recordContactActivity rows db = db\<lparr>og_activity := og_activity db @ rows\<rparr>"

definition record_standing_audit :: "standing_audit \<Rightarrow> org_db \<Rightarrow> org_db" where
  "record_standing_audit a db = db\<lparr>og_audit := og_audit db @ [a]\<rparr>"

definition suspendTeam :: "(string \<Rightarrow> string) \<Rightarrow> instant \<Rightarrow> suspend_input \<Rightarrow> org_db \<Rightarrow> org_db \<times> bool" where
  "suspendTeam lower clock inp db =
     (case suspend_tx lower clock inp db of
        None \<Rightarrow> (db, False)
      | Some (db1, acts, canceled) \<Rightarrow>
          let db2 = recordContactActivity acts db1 in
          (if 0 < canceled
           then record_standing_audit
                  \<lparr>al_teamId = Some (si_teamId inp), al_actorId = encodeAuditActor ActSystem,
                   al_action = ''screening.canceled'', al_createdAt = clock,
                   sa_emails = Some canceled, sa_reason = Some (si_reason inp)\<rparr> db2
           else db2, True))"

section \<open>The review hold after complaints\<close>

definition reinstated_at :: "ident \<Rightarrow> org_db \<Rightarrow> instant option" where
  "reinstated_at teamId db =
     (case filter (\<lambda>a. al_teamId a = Some teamId \<and> al_action a = ''team.reinstated'') (og_audit db) of
        [] \<Rightarrow> None
      | a # as \<Rightarrow> Some (fold max (map al_createdAt as) (al_createdAt a)))"

definition open_flag :: "flag_row \<Rightarrow> org_db \<Rightarrow> org_db" where
  "open_flag f db =
     (if \<exists>g \<in> set (og_flags db). fl_teamId g = fl_teamId f \<and> fl_open g then db
      else db\<lparr>og_flags := og_flags db @ [f]\<rparr>)"

text \<open>An operator reinstated the team and no complaint arrived since.\<close>

definition reinstated_since :: "ident \<times> instant option \<Rightarrow> org_db \<Rightarrow> bool" where
  "reinstated_since team db =
     (case reinstated_at (fst team) db of None \<Rightarrow> False
      | Some back \<Rightarrow> \<not> (case snd team of None \<Rightarrow> False | Some c \<Rightarrow> back < c))"

definition hold_input :: "instant \<Rightarrow> ident \<Rightarrow> suspend_input" where
  "hold_input now teamId = \<lparr>si_teamId = teamId, si_reason = SusReview, si_note = None,
     si_now = Some now, si_ifNotSuspended = True\<rparr>"

definition hold_team :: "(string \<Rightarrow> string) \<Rightarrow> instant \<Rightarrow> instant \<Rightarrow> ident \<times> instant option
    \<Rightarrow> org_db \<Rightarrow> org_db \<times> bool" where
  "hold_team lower clock now team db =
     (if reinstated_since team db then (db, False)
      else case suspendTeam lower clock (hold_input now (fst team)) db of
              (db1, suspended) \<Rightarrow>
                if \<not> suspended then (db1, False)
                else (record_standing_audit
                        \<lparr>al_teamId = Some (fst team), al_actorId = encodeAuditActor ActSystem,
                         al_action = ''team.held_for_review'', al_createdAt = clock,
                         sa_emails = None, sa_reason = None\<rparr>
                        (open_flag \<lparr>fl_teamId = fst team, fl_reason = ''complaints'', fl_open = True,
                                    fl_suspension = True, fl_openedAt = now\<rparr> db1), True))"

fun holdComplaintTeams :: "(string \<Rightarrow> string) \<Rightarrow> instant \<Rightarrow> instant \<Rightarrow> (ident \<times> instant option) list
    \<Rightarrow> org_db \<Rightarrow> org_db \<times> ident list" where
  "holdComplaintTeams lower clock now [] db = (db, [])"
| "holdComplaintTeams lower clock now (team # teams) db =
     (case hold_team lower clock now team db of
        (db1, holding) \<Rightarrow>
          (case holdComplaintTeams lower clock now teams db1 of
             (db2, held) \<Rightarrow> (db2, if holding then fst team # held else held)))"

section \<open>Admission\<close>

datatype refusal_code = CodeTeamSuspended | CodeSendingPaused

definition suspendedSendRefusal :: "suspension_reason \<Rightarrow> refusal_code" where
  "suspendedSendRefusal reason = (if reason = SusReview then CodeSendingPaused else CodeTeamSuspended)"

datatype send_refusal = RefSuspended suspension_reason | RefPaused deliverability_reason

definition sendRefusal :: "org_db \<Rightarrow> ident \<Rightarrow> instant \<Rightarrow> send_refusal option" where
  "sendRefusal db teamId now =
     (case Option.bind (fetchTeamStanding db teamId) ts_suspended of
        Some s \<Rightarrow> Some (RefSuspended (su_reason s))
      | None \<Rightarrow>
          map_option RefPaused
            (List.find (\<lambda>r. re_tier r = TPaused)
              (de_reasons (fetchDeliverabilityHealth (standing_db_of db) teamId now))))"

definition sendRefusalError :: "send_refusal \<Rightarrow> refusal_code" where
  "sendRefusalError refusal =
     (case refusal of RefSuspended r \<Rightarrow> suspendedSendRefusal r | RefPaused _ \<Rightarrow> CodeSendingPaused)"

definition deliverabilityHold :: "org_db \<Rightarrow> ident \<Rightarrow> instant \<Rightarrow> bool" where
  "deliverabilityHold db teamId now =
     (case og_teams db teamId of
        None \<Rightarrow> False
      | Some t \<Rightarrow> if tr_plan (ot_row t) = System then False
          else de_status (fetchDeliverabilityHealth (standing_db_of db) teamId now) = DPaused)"

section \<open>Lemmas\<close>

lemma recordContactActivity_frame [simp]:
  "og_teams (recordContactActivity a db) = og_teams db" "og_emails (recordContactActivity a db) = og_emails db"
  "og_contacts (recordContactActivity a db) = og_contacts db" "og_audit (recordContactActivity a db) = og_audit db"
  "og_flags (recordContactActivity a db) = og_flags db" "og_signups (recordContactActivity a db) = og_signups db"
  by (simp_all add: recordContactActivity_def)

lemma record_standing_audit_frame [simp]:
  "og_teams (record_standing_audit a db) = og_teams db" "og_emails (record_standing_audit a db) = og_emails db"
  "og_contacts (record_standing_audit a db) = og_contacts db" "og_flags (record_standing_audit a db) = og_flags db"
  "og_audit (record_standing_audit a db) = og_audit db @ [a]" "og_signups (record_standing_audit a db) = og_signups db"
  by (simp_all add: record_standing_audit_def)

lemma mark_signups_frame [simp]:
  "og_teams (mark_signups t db) = og_teams db" "og_emails (mark_signups t db) = og_emails db"
  "og_contacts (mark_signups t db) = og_contacts db" "og_audit (mark_signups t db) = og_audit db"
  "og_flags (mark_signups t db) = og_flags db" "og_members (mark_signups t db) = og_members db"
  "og_users (mark_signups t db) = og_users db"
  by (simp_all add: mark_signups_def Let_def)

lemma unsubscribe_frame [simp]:
  assumes "unsubscribeSuspendedMembers lower clock t db = (db', acts)"
  shows "og_teams db' = og_teams db" "og_emails db' = og_emails db" "og_audit db' = og_audit db"
    "og_flags db' = og_flags db" "og_signups db' = og_signups db"
    "og_contacts db' = update_rows (unsubscribes lower t db) (unsubscribe_contact clock) (og_contacts db)"
  using assms by (auto simp: unsubscribeSuspendedMembers_def Let_def)

lemma suspend_row_fields [simp]:
  "ot_row (suspend_row clock inp t) = ot_row t"
  "ot_suspensionReason (suspend_row clock inp t) = Some (si_reason inp)"
  "ot_suspensionNote (suspend_row clock inp t) = si_note inp"
  "ot_suspendedAt (suspend_row clock inp t) \<noteq> None"
  "ot_suspendedAt t = Some a \<Longrightarrow> ot_suspendedAt (suspend_row clock inp t) = Some a"
  by (simp_all add: suspend_row_def)

lemma hold_input_fields [simp]:
  "si_teamId (hold_input now i) = i" "si_reason (hold_input now i) = SusReview"
  "si_ifNotSuspended (hold_input now i)"
  by (simp_all add: hold_input_def)

definition suspends :: "suspend_input \<Rightarrow> org_db \<Rightarrow> bool" where
  "suspends inp db \<longleftrightarrow> (case og_teams db (si_teamId inp) of None \<Rightarrow> False
     | Some t \<Rightarrow> \<not> (si_ifNotSuspended inp \<and> ot_suspendedAt t \<noteq> None))"

text \<open>Whether a suspension for \<open>r\<close> of a team whose reason was \<open>before\<close> unsubscribes its people.\<close>

definition enters_abuse :: "suspension_reason \<Rightarrow> suspension_reason option \<Rightarrow> bool" where
  "enters_abuse r before \<longleftrightarrow> r \<in> set ABUSE_SUSPENSIONS
     \<and> (case before of None \<Rightarrow> True | Some b \<Rightarrow> b \<notin> set ABUSE_SUSPENSIONS)"

lemma members_cong:
  "og_users db = og_users db' \<Longrightarrow> og_members db = og_members db' \<Longrightarrow>
     member_addresses l t db = member_addresses l t db'"
  by (simp add: member_addresses_def)

lemma unsubscribes_cong:
  assumes "og_users db = og_users db'" "og_members db = og_members db'"
    and "\<And>i. map_option (\<lambda>t. tr_plan (ot_row t)) (og_teams db i) = map_option (\<lambda>t. tr_plan (ot_row t)) (og_teams db' i)"
  shows "unsubscribes l t db = unsubscribes l t db'"
proof -
  have "on_system_team db c = on_system_team db' c" for c
    using assms(3) [of "ct_teamId c"] by (auto simp: on_system_team_def split: option.splits)
  then show ?thesis using members_cong [OF assms(1,2)] by (simp add: fun_eq_iff unsubscribes_def)
qed

text \<open>The tables after a suspension that took effect; every component proof rests on this.\<close>

lemma suspendTeam_tables:
  assumes "og_teams db (si_teamId inp) = Some t" and "suspends inp db"
    and "suspendTeam lower clock inp db = (db', b)"
  shows "b \<and> og_teams db' = (og_teams db)(si_teamId inp \<mapsto> suspend_row clock inp t)
    \<and> og_emails db' = update_rows (\<lambda>e. si_reason inp \<noteq> SusReview \<and> operator_parked (si_teamId inp) e)
         cancel_row (og_emails db)
    \<and> og_contacts db' = (if enters_abuse (si_reason inp) (ot_suspensionReason t)
         then update_rows (unsubscribes lower (si_teamId inp) db) (unsubscribe_contact clock) (og_contacts db)
         else og_contacts db)
    \<and> og_flags db' = og_flags db
    \<and> (\<exists>as. og_audit db' = og_audit db @ as \<and> (\<forall>a \<in> set as. al_action a = ''screening.canceled''))"
proof -
  let ?db2 = "db\<lparr>og_teams := (og_teams db)(si_teamId inp \<mapsto> suspend_row clock inp t),
      og_emails := update_rows (\<lambda>e. si_reason inp \<noteq> SusReview \<and> operator_parked (si_teamId inp) e)
         cancel_row (og_emails db)\<rparr>"
  have u: "unsubscribes lower (si_teamId inp) (mark_signups (si_teamId inp) ?db2)
      = unsubscribes lower (si_teamId inp) db"
    by (rule unsubscribes_cong) (use assms(1) in \<open>auto simp: suspend_row_def\<close>)
  obtain db1 acts n where tx: "suspend_tx lower clock inp db = Some (db1, acts, n)"
    using assms(1,2) by (fastforce simp: suspend_tx_def suspends_def Let_def split: option.splits prod.splits)
  have T: "og_teams db1 = og_teams ?db2 \<and> og_emails db1 = og_emails ?db2
    \<and> og_contacts db1 = (if enters_abuse (si_reason inp) (ot_suspensionReason t)
         then update_rows (unsubscribes lower (si_teamId inp) db) (unsubscribe_contact clock) (og_contacts db)
         else og_contacts db)
    \<and> og_flags db1 = og_flags db \<and> og_audit db1 = og_audit db"
    using tx assms(1,2) u
    by (auto simp: suspend_tx_def suspends_def enters_abuse_def Let_def
        split: option.splits prod.splits if_splits)
  show ?thesis using assms(3) T
    by (auto simp: suspendTeam_def tx Let_def split: if_splits)
qed

lemma suspendTeam_noop:
  "\<not> suspends inp db \<Longrightarrow> suspendTeam lower clock inp db = (db, False)"
  by (auto simp: suspendTeam_def suspend_tx_def suspends_def split: option.splits if_splits)

lemma open_flag_frame [simp]:
  "og_teams (open_flag f db) = og_teams db" "og_emails (open_flag f db) = og_emails db"
  "og_contacts (open_flag f db) = og_contacts db" "og_audit (open_flag f db) = og_audit db"
  by (simp_all add: open_flag_def)

definition has_open_flag :: "ident \<Rightarrow> org_db \<Rightarrow> bool" where
  "has_open_flag i db \<longleftrightarrow> (\<exists>g \<in> set (og_flags db). fl_teamId g = i \<and> fl_open g)"

lemma open_flag_opens: "fl_open f \<Longrightarrow> has_open_flag (fl_teamId f) (open_flag f db)"
  by (auto simp: has_open_flag_def open_flag_def)

lemma open_flag_keeps: "has_open_flag i db \<Longrightarrow> has_open_flag i (open_flag f db)"
  by (auto simp: has_open_flag_def open_flag_def)

lemma reinstated_at_append:
  "og_audit db' = og_audit db @ as \<Longrightarrow> \<forall>a \<in> set as. al_action a \<noteq> ''team.reinstated'' \<Longrightarrow>
     reinstated_at i db' = reinstated_at i db"
proof -
  assume a: "og_audit db' = og_audit db @ as" "\<forall>a \<in> set as. al_action a \<noteq> ''team.reinstated''"
  then have "filter (\<lambda>a. al_teamId a = Some i \<and> al_action a = ''team.reinstated'') as = []"
    by (auto simp: filter_empty_conv)
  then show ?thesis by (simp add: reinstated_at_def a(1))
qed

lemma update_rows_False [simp]: "update_rows (\<lambda>e. False) f rows = rows"
  by (simp add: update_rows_def)

lemma hold_team_noop:
  "reinstated_since team db \<or> \<not> suspends (hold_input now (fst team)) db \<Longrightarrow>
     hold_team lower clock now team db = (db, False)"
  by (auto simp: hold_team_def suspendTeam_noop)

lemma hold_team_effect:
  assumes "\<not> reinstated_since team db" and "og_teams db (fst team) = Some t" and "ot_suspendedAt t = None"
    and "hold_team lower clock now team db = (db', b)"
  shows "b \<and> og_teams db' = (og_teams db)(fst team \<mapsto> suspend_row clock (hold_input now (fst team)) t)
    \<and> og_emails db' = og_emails db \<and> og_contacts db' = og_contacts db
    \<and> has_open_flag (fst team) db' \<and> (\<forall>i. has_open_flag i db \<longrightarrow> has_open_flag i db')
    \<and> (\<forall>i. reinstated_at i db' = reinstated_at i db)"
proof -
  obtain db1 c where S: "suspendTeam lower clock (hold_input now (fst team)) db = (db1, c)" by fastforce
  have "suspends (hold_input now (fst team)) db"
    using assms(2,3) by (simp add: suspends_def hold_input_def)
  note T = suspendTeam_tables [OF _ this S, of t]
  have h: "si_teamId (hold_input now (fst team)) = fst team" "si_reason (hold_input now (fst team)) = SusReview"
    by (simp_all add: hold_input_def)
  have ne: "\<not> enters_abuse SusReview r" for r by (simp add: enters_abuse_def ABUSE_SUSPENSIONS_def)
  from T assms(2) have F: "c" "og_teams db1 = (og_teams db)(fst team \<mapsto> suspend_row clock (hold_input now (fst team)) t)"
    "og_emails db1 = og_emails db" "og_contacts db1 = og_contacts db" "og_flags db1 = og_flags db"
    and A: "\<exists>as. og_audit db1 = og_audit db @ as \<and> (\<forall>a \<in> set as. al_action a = ''screening.canceled'')"
    by (simp_all add: h ne)
  from A obtain as where as: "og_audit db1 = og_audit db @ as" "\<forall>a \<in> set as. al_action a = ''screening.canceled''"
    by blast
  let ?f = "\<lparr>fl_teamId = fst team, fl_reason = ''complaints'', fl_open = True,
      fl_suspension = True, fl_openedAt = now\<rparr>"
  let ?a = "\<lparr>al_teamId = Some (fst team), al_actorId = encodeAuditActor ActSystem,
      al_action = ''team.held_for_review'', al_createdAt = clock, sa_emails = None, sa_reason = None\<rparr>"
  have D: "db' = record_standing_audit ?a (open_flag ?f db1)" "b"
    using assms(1,4) S F(1) by (auto simp: hold_team_def)
  have "og_audit db' = og_audit db @ (as @ [?a])" by (simp add: D as(1))
  then have "reinstated_at i db' = reinstated_at i db" for i
    by (rule reinstated_at_append) (use as(2) in auto)
  moreover have "has_open_flag (fst team) db'"
    using open_flag_opens [of ?f db1] by (simp add: D(1) has_open_flag_def)
  moreover have "has_open_flag i db \<Longrightarrow> has_open_flag i db'" for i
    using open_flag_keeps [of i db1 ?f] F(5) by (simp add: D(1) has_open_flag_def)
  ultimately show ?thesis using F D(2) by (simp add: D(1))
qed

lemma holdComplaintTeams_noop:
  "\<forall>team \<in> set teams. reinstated_since team db \<or> \<not> suspends (hold_input now (fst team)) db \<Longrightarrow>
     holdComplaintTeams lower clock now teams db = (db, [])"
  by (induction teams) (simp_all add: hold_team_noop)

lemma holdComplaintTeams_effect:
  assumes "holdComplaintTeams lower clock now teams db = (db', held)"
  shows "set held \<subseteq> fst ` set teams
    \<and> (\<forall>i. i \<notin> set held \<longrightarrow> og_teams db' i = og_teams db i)
    \<and> (\<forall>i \<in> set held. has_open_flag i db' \<and> (\<exists>t. og_teams db i = Some t \<and> ot_suspendedAt t = None
          \<and> og_teams db' i = Some (suspend_row clock (hold_input now i) t)))
    \<and> (\<forall>team \<in> set teams. reinstated_since team db \<or> \<not> suspends (hold_input now (fst team)) db')
    \<and> (\<forall>i. reinstated_at i db' = reinstated_at i db)
    \<and> (\<forall>i. has_open_flag i db \<longrightarrow> has_open_flag i db')
    \<and> og_emails db' = og_emails db \<and> og_contacts db' = og_contacts db"
  using assms
proof (induction teams arbitrary: db db' held)
  case Nil
  then show ?case by simp
next
  case (Cons team teams)
  obtain db1 b where H: "hold_team lower clock now team db = (db1, b)" by fastforce
  obtain db2 held2 where R: "holdComplaintTeams lower clock now teams db1 = (db2, held2)" by fastforce
  have D: "db' = db2" "held = (if b then fst team # held2 else held2)"
    using Cons.prems H R by auto
  note IH = Cons.IH [OF R]
  show ?case
  proof (cases "reinstated_since team db \<or> \<not> suspends (hold_input now (fst team)) db")
    case True
    then have n: "db1 = db" "\<not> b" 
      using H hold_team_noop [OF True, of lower clock] by simp_all
    have "reinstated_since team db \<or> \<not> suspends (hold_input now (fst team)) db2"
    proof (cases "fst team \<in> set held2")
      case True
      then show ?thesis using IH by (fastforce simp: suspends_def suspend_row_def hold_input_def)
    next
      case False
      then have "og_teams db2 (fst team) = og_teams db (fst team)" using IH n by blast
      then show ?thesis using \<open>reinstated_since team db \<or> _\<close>
        by (simp add: suspends_def hold_input_def)
    qed
    then show ?thesis using IH n D by auto
  next
    case False
    then obtain t where t: "og_teams db (fst team) = Some t" "ot_suspendedAt t = None"
      by (auto simp: suspends_def hold_input_def split: option.splits)
    note E = hold_team_effect [OF _ t H]
    have E: "b" "og_teams db1 = (og_teams db)(fst team \<mapsto> suspend_row clock (hold_input now (fst team)) t)"
      "og_emails db1 = og_emails db" "og_contacts db1 = og_contacts db"
      "has_open_flag (fst team) db1" "\<And>i. has_open_flag i db \<Longrightarrow> has_open_flag i db1"
      "\<And>i. reinstated_at i db1 = reinstated_at i db"
      using E False by blast+
    have rs: "reinstated_since x db1 = reinstated_since x db" for x
      by (simp add: reinstated_since_def E(7))
    have notin: "fst team \<notin> set held2"
    proof
      assume "fst team \<in> set held2"
      then obtain u where "og_teams db1 (fst team) = Some u" "ot_suspendedAt u = None" using IH by blast
      then show False using suspend_row_fields(4) by (auto simp: E(2))
    qed
    then have same: "og_teams db2 (fst team) = og_teams db1 (fst team)" using IH by blast
    then have "\<not> suspends (hold_input now (fst team)) db2"
      using suspend_row_fields(4) by (simp add: suspends_def E(2))
    moreover have "og_teams db2 i = og_teams db i" if "i \<notin> set held" for i
      using that IH E(1,2) D(2) by auto
    moreover have "has_open_flag i db2 \<and> (\<exists>t. og_teams db i = Some t \<and> ot_suspendedAt t = None
          \<and> og_teams db2 i = Some (suspend_row clock (hold_input now i) t))" if "i \<in> set held" for i
    proof (cases "i = fst team")
      case True
      then show ?thesis using same E(2,5) t IH by simp
    next
      case False
      then have "i \<in> set held2" using that D(2) by (auto split: if_splits)
      then show ?thesis using IH E(2) False by auto
    qed
    ultimately show ?thesis using IH D E rs by (auto split: if_splits)
  qed
qed

lemma paused_has_reason:
  "de_status (fetchDeliverabilityHealth db t now) = DPaused \<longleftrightarrow>
     (\<exists>r \<in> set (de_reasons (fetchDeliverabilityHealth db t now)). re_tier r = TPaused)"
  by (simp add: fetchDeliverabilityHealth_def Let_def evaluateDeliverability_def status_of_reasons_def)

section \<open>Properties\<close>

text \<open>
  What a suspension does, in one transaction. The team's row takes the reason and keeps
  the instant it was first suspended; no other team's row changes; unless it is a review
  hold, none of the team's mail stays parked for an operator, a review or the fuse (all of
  it is canceled), and no other email changes; a review hold cancels nothing.
\<close>

theorem suspension_effects:
  assumes "og_teams db (si_teamId inp) = Some t" and "suspends inp db"
    and "suspendTeam lower clock inp db = (db', b)"
  shows "b \<and> isTeamSuspended db' (si_teamId inp)
    \<and> (\<exists>t'. og_teams db' (si_teamId inp) = Some t' \<and> ot_row t' = ot_row t
        \<and> ot_suspensionReason t' = Some (si_reason inp) \<and> ot_suspensionNote t' = si_note inp
        \<and> (\<forall>a. ot_suspendedAt t = Some a \<longrightarrow> ot_suspendedAt t' = Some a))
    \<and> (\<forall>i. i \<noteq> si_teamId inp \<longrightarrow> og_teams db' i = og_teams db i)
    \<and> (si_reason inp \<noteq> SusReview \<longrightarrow> (\<forall>e \<in> set (og_emails db'). \<not> operator_parked (si_teamId inp) e))
    \<and> (si_reason inp = SusReview \<longrightarrow> og_emails db' = og_emails db)
    \<and> (\<forall>j < length (og_emails db). \<not> operator_parked (si_teamId inp) (og_emails db ! j) \<longrightarrow>
         og_emails db' ! j = og_emails db ! j)"
proof -
  note T = suspendTeam_tables [OF assms]
  let ?P = "\<lambda>e. si_reason inp \<noteq> SusReview \<and> operator_parked (si_teamId inp) e"
  from T have b: b and te: "og_teams db' = (og_teams db)(si_teamId inp \<mapsto> suspend_row clock inp t)"
    and em: "og_emails db' = update_rows ?P cancel_row (og_emails db)" by blast+
  have np: "\<not> operator_parked i (cancel_row e)" for i e
    by (simp add: operator_parked_def cancel_row_def)
  have gone: "\<not> operator_parked (si_teamId inp) e"
    if "si_reason inp \<noteq> SusReview" "e \<in> set (og_emails db')" for e
  proof -
    note em_in = that(2)
    obtain r where "e = (if ?P r then cancel_row r else r)"
      using em_in unfolding em set_update_rows by blast
    then show ?thesis using that(1) np by (cases "operator_parked (si_teamId inp) r") simp_all
  qed
  show ?thesis
  proof (intro conjI)
    show "isTeamSuspended db' (si_teamId inp)" by (simp add: te isTeamSuspended_def suspend_row_def)
    show "\<exists>t'. og_teams db' (si_teamId inp) = Some t' \<and> ot_row t' = ot_row t
        \<and> ot_suspensionReason t' = Some (si_reason inp) \<and> ot_suspensionNote t' = si_note inp
        \<and> (\<forall>a. ot_suspendedAt t = Some a \<longrightarrow> ot_suspendedAt t' = Some a)"
      by (rule exI [of _ "suspend_row clock inp t"]) (simp add: te)
    show "\<forall>i. i \<noteq> si_teamId inp \<longrightarrow> og_teams db' i = og_teams db i" by (simp add: te)
    show "si_reason inp \<noteq> SusReview \<longrightarrow> (\<forall>e \<in> set (og_emails db'). \<not> operator_parked (si_teamId inp) e)"
      using gone by blast
  qed (use b in \<open>simp_all add: em\<close>)
qed

definition example_org :: "instant option \<Rightarrow> suspension_reason option \<Rightarrow> org_db" where
  "example_org a r =
     \<lparr>og_teams = [''t1'' \<mapsto> \<lparr>ot_row = example_pool_team, ot_suspendedAt = a, ot_suspensionReason = r,
                   ot_suspensionNote = None, ot_broadcastsPausedByOperatorAt = None\<rparr>,
                 ''sys'' \<mapsto> \<lparr>ot_row = example_pool_team\<lparr>tr_plan := System\<rparr>, ot_suspendedAt = None,
                   ot_suspensionReason = None, ot_suspensionNote = None,
                   ot_broadcastsPausedByOperatorAt = None\<rparr>],
      og_counters = [], og_pool = [],
      og_emails = [(example_email ''e1'' QueuedQuota)\<lparr>er_parkReason := Some ''fuse''\<rparr>],
      og_members = [\<lparr>mb_id = ''m1'', mb_teamId = ''t1'', mb_userId = ''u1'', mb_role = RoleOwner,
                     mb_createdAt = 0\<rparr>],
      og_users = [(''u1'', ''x@y.z'')], og_signups = [(''u1'', False)],
      og_contacts = [\<lparr>ct_id = ''c1'', ct_teamId = ''sys'', ct_email = ''x@y.z'', ct_unsubscribed = False,
                      ct_unsubscribedAt = None, ct_updatedAt = 0\<rparr>],
      og_activity = [], og_audit = [], og_flags = []\<rparr>"

definition example_suspend :: "suspension_reason \<Rightarrow> suspend_input" where
  "example_suspend r = \<lparr>si_teamId = ''t1'', si_reason = r, si_note = None, si_now = Some 9,
     si_ifNotSuspended = False\<rparr>"

lemma example_suspends: "suspends (example_suspend r) (example_org a q)"
  by (simp add: suspends_def example_suspend_def example_org_def)

theorem suspension_effects_witness:
  "isTeamSuspended (fst (suspendTeam id 10 (example_suspend SusPhishing) (example_org None None))) ''t1''"
proof -
  have s: "si_teamId (example_suspend SusPhishing) = ''t1''" by (simp add: example_suspend_def)
  obtain t where "og_teams (example_org None None) (si_teamId (example_suspend SusPhishing)) = Some t"
    by (simp add: s example_org_def)
  from suspension_effects [OF this example_suspends surjective_pairing] show ?thesis
    by (simp add: s)
qed

text \<open>
  Entering a suspension over the rules takes the team's people off the instance's own
  list, once. Afterwards no contact of the system team with a member's address is
  subscribed; a team already suspended over the rules, a review hold and an unpaid invoice
  leave every contact as it was; an unsubscribed contact is never resubscribed.
\<close>

theorem abuse_unsubscribes_once:
  assumes "og_teams db (si_teamId inp) = Some t" and "suspends inp db"
    and "suspendTeam lower clock inp db = (db', b)"
  shows "(enters_abuse (si_reason inp) (ot_suspensionReason t) \<longrightarrow>
       (\<forall>c \<in> set (og_contacts db'). on_system_team db c
          \<and> lower (ct_email c) \<in> set (member_addresses lower (si_teamId inp) db) \<longrightarrow> ct_unsubscribed c))
    \<and> (\<not> enters_abuse (si_reason inp) (ot_suspensionReason t) \<longrightarrow> og_contacts db' = og_contacts db)
    \<and> length (og_contacts db') = length (og_contacts db)
    \<and> (\<forall>j < length (og_contacts db). ct_unsubscribed (og_contacts db ! j) \<longrightarrow>
         og_contacts db' ! j = og_contacts db ! j)"
proof -
  note T = suspendTeam_tables [OF assms]
  let ?P = "unsubscribes lower (si_teamId inp) db"
  have u: "ct_unsubscribed (unsubscribe_contact clock c)" for c
    by (simp add: unsubscribe_contact_def)
  have "ct_unsubscribed c"
    if "enters_abuse (si_reason inp) (ot_suspensionReason t)" "c \<in> set (og_contacts db')"
      "on_system_team db c" "lower (ct_email c) \<in> set (member_addresses lower (si_teamId inp) db)" for c
  proof -
    have "og_contacts db' = update_rows ?P (unsubscribe_contact clock) (og_contacts db)"
      using T that(1) by simp
    then have "c \<in> set (update_rows ?P (unsubscribe_contact clock) (og_contacts db))"
      using that(2) by simp
    then obtain r where "c = (if ?P r then unsubscribe_contact clock r else r)"
      unfolding set_update_rows by auto
    then show ?thesis using that(3,4) u by (cases "?P r") (auto simp: unsubscribes_def)
  qed
  then show ?thesis using T by (auto simp: unsubscribes_def)
qed

theorem abuse_unsubscribes_once_witness:
  "\<exists>c. og_contacts (fst (suspendTeam id 10 (example_suspend SusPhishing) (example_org None None))) = [c]
     \<and> ct_email c = ''x@y.z'' \<and> ct_unsubscribed c"
proof -
  let ?db = "example_org None None"
  have s: "si_teamId (example_suspend SusPhishing) = ''t1''" "si_reason (example_suspend SusPhishing) = SusPhishing"
    by (simp_all add: example_suspend_def)
  obtain t where t: "og_teams ?db (si_teamId (example_suspend SusPhishing)) = Some t"
      "ot_suspensionReason t = None"
    by (simp add: s example_org_def)
  have e: "enters_abuse SusPhishing None" by (simp add: enters_abuse_def ABUSE_SUSPENSIONS_def)
  have m: "''x@y.z'' \<in> set (member_addresses id ''t1'' ?db)"
    by (simp add: member_addresses_def example_org_def)
  have o: "on_system_team ?db c" if "ct_teamId c = ''sys''" for c
    using that by (simp add: on_system_team_def example_org_def)
  obtain c where c: "og_contacts (fst (suspendTeam id 10 (example_suspend SusPhishing) ?db)) = [c]"
      "ct_teamId c = ''sys''" "ct_email c = ''x@y.z''"
    using suspendTeam_tables [OF t(1) example_suspends surjective_pairing, of id 10] e
    by (auto simp: s t(2) update_rows_def example_org_def unsubscribe_contact_def)
  have "ct_unsubscribed c"
    using abuse_unsubscribes_once [OF t(1) example_suspends surjective_pairing, of id 10] e m o c
    by (simp add: s t(2))
  with c show ?thesis by blast
qed

text \<open>
  The review hold after complaints. A team is held only if it was not suspended and no
  reinstatement stands against its last complaint, and then it is suspended for review with
  an open flag; every other team keeps its row, and no email or contact changes. Run again
  on the result with the same list, it holds no one and changes nothing.
\<close>

theorem complaint_hold_exact:
  assumes "holdComplaintTeams lower clock now teams db = (db', held)"
  shows "(\<forall>i \<in> set held. \<not> isTeamSuspended db i \<and> isTeamSuspended db' i \<and> has_open_flag i db'
       \<and> (\<exists>t. og_teams db' i = Some t \<and> ot_suspensionReason t = Some SusReview))
    \<and> (\<forall>i. i \<notin> set held \<longrightarrow> og_teams db' i = og_teams db i)
    \<and> og_emails db' = og_emails db \<and> og_contacts db' = og_contacts db
    \<and> (\<forall>clock' now'. holdComplaintTeams lower clock' now' teams db' = (db', []))"
proof -
  note E = holdComplaintTeams_effect [OF assms]
  have "suspends (hold_input now' i) db' = suspends (hold_input now i) db'" for now' i
    by (simp add: suspends_def split: option.split)
  moreover have "reinstated_since x db' = reinstated_since x db" for x
    using E by (simp add: reinstated_since_def)
  ultimately have "holdComplaintTeams lower clock' now' teams db' = (db', [])" for clock' now'
    using E by (intro holdComplaintTeams_noop) metis
  then show ?thesis using E
    by (fastforce simp: isTeamSuspended_def suspend_row_def hold_input_def)
qed

theorem complaint_hold_exact_witness:
  "snd (holdComplaintTeams id 10 9 [(''t1'', Some 8)] (example_org None None)) = [''t1'']
   \<and> isTeamSuspended (fst (holdComplaintTeams id 10 9 [(''t1'', Some 8)] (example_org None None))) ''t1''"
proof -
  have h: "snd (holdComplaintTeams id 10 9 [(''t1'', Some 8)] (example_org None None)) = [''t1'']"
    by (simp add: hold_team_def reinstated_since_def reinstated_at_def example_org_def suspendTeam_def
        suspend_tx_def hold_input_def ABUSE_SUSPENSIONS_def Let_def split: prod.split)
  then show ?thesis
    using complaint_hold_exact [OF surjective_pairing, of id 10 9 "[(''t1'', Some 8)]" "example_org None None"]
    by simp
qed

text \<open>
  Admission and the hold on waiting mail agree. A team that is not suspended is refused
  exactly when its deliverability pause holds its waiting mail (the system team's waiting
  mail apart); a suspended one is always refused, and a review hold reads like a pause.
\<close>

theorem admission_agrees_with_hold:
  assumes "og_teams db i = Some t"
  shows "(ts_suspended (teamStandingOf t) = None \<longrightarrow>
       (sendRefusal db i now \<noteq> None \<longleftrightarrow> deliverabilityHold db i now
          \<or> (tr_plan (ot_row t) = System
             \<and> de_status (fetchDeliverabilityHealth (standing_db_of db) i now) = DPaused)))
    \<and> (\<forall>s. ts_suspended (teamStandingOf t) = Some s \<longrightarrow>
         sendRefusal db i now = Some (RefSuspended (su_reason s)))
    \<and> (\<forall>r. sendRefusal db i now = Some r \<longrightarrow>
         (sendRefusalError r = CodeTeamSuspended \<longleftrightarrow>
            (\<exists>s. ts_suspended (teamStandingOf t) = Some s \<and> su_reason s \<noteq> SusReview)))"
proof -
  have p: "deliverabilityHold db i now \<longleftrightarrow> tr_plan (ot_row t) \<noteq> System
      \<and> de_status (fetchDeliverabilityHealth (standing_db_of db) i now) = DPaused"
    by (simp add: deliverabilityHold_def assms)
  have f: "List.find (\<lambda>r. re_tier r = TPaused) rs = None \<longleftrightarrow> \<not> (\<exists>r \<in> set rs. re_tier r = TPaused)" for rs
    by (auto simp: find_None_iff)
  show ?thesis
  proof (cases "ts_suspended (teamStandingOf t)")
    case None
    then show ?thesis
      by (auto simp: sendRefusal_def fetchTeamStanding_def assms p paused_has_reason f
          sendRefusalError_def)
  next
    case (Some s)
    then show ?thesis
      by (simp add: sendRefusal_def fetchTeamStanding_def assms sendRefusalError_def
          suspendedSendRefusal_def)
  qed
qed

theorem admission_agrees_with_hold_witness:
  "sendRefusal (example_org (Some 3) (Some SusReview)) ''t1'' 5 = Some (RefSuspended SusReview)"
proof -
  let ?db = "example_org (Some 3) (Some SusReview)"
  obtain t s where t: "og_teams ?db ''t1'' = Some t" "ts_suspended (teamStandingOf t) = Some s"
      "su_reason s = SusReview"
    by (simp add: example_org_def teamStandingOf_def)
  then show ?thesis using admission_agrees_with_hold [OF t(1), of 5] by simp
qed

end
