(* ===== verification/Doubles.thy ===== *)
theory Doubles
  imports Complex_Main Prelude
begin

text \<open>
  JavaScript numbers as exact rationals with IEEE rounding: \<open>dbl\<close> is round to nearest,
  ties to even, at 53 significant bits, so \<open>js_mul\<close>, \<open>js_div\<close> and \<open>js_add\<close> are the
  double operations wherever no result is subnormal or overflows, which no figure of the
  sources comes near. \<open>js_round\<close> is \<open>Math.round\<close>. The lemmas give the relative error
  of a rounding and its exactness on integers below \<open>2^53\<close>.
\<close>

fun nbits :: "nat \<Rightarrow> nat" where
  "nbits n = (if n = 0 then 0 else Suc (nbits (n div 2)))"

declare nbits.simps [simp del]

definition pow2 :: "int \<Rightarrow> rat" where
  "pow2 e = (if 0 \<le> e then 2 ^ nat e else 1 / 2 ^ nat (- e))"

text \<open>The exponent of a positive number: \<open>2^e \<le> x < 2^(e+1)\<close>.\<close>

definition dbl_exp :: "rat \<Rightarrow> int" where
  "dbl_exp x = (if 1 \<le> x then int (nbits (nat \<lfloor>x\<rfloor>)) - 1
                else - int (nbits (nat (\<lceil>1 / x\<rceil> - 1))))"

definition round_half_even :: "rat \<Rightarrow> int" where
  "round_half_even y =
     (let f = \<lfloor>y\<rfloor>; d = y - of_int f in
      if d < 1 / 2 then f else if 1 / 2 < d then f + 1 else if even f then f else f + 1)"

definition dbl_pos :: "rat \<Rightarrow> rat" where
  "dbl_pos x = of_int (round_half_even (x / pow2 (dbl_exp x - 52))) * pow2 (dbl_exp x - 52)"

definition dbl :: "rat \<Rightarrow> rat" where
  "dbl x = (if x = 0 then 0 else if 0 < x then dbl_pos x else - dbl_pos (- x))"

definition js_mul :: "rat \<Rightarrow> rat \<Rightarrow> rat" where "js_mul a b = dbl (a * b)"
definition js_div :: "rat \<Rightarrow> rat \<Rightarrow> rat" where "js_div a b = dbl (a / b)"
definition js_add :: "rat \<Rightarrow> rat \<Rightarrow> rat" where "js_add a b = dbl (a + b)"
definition js_round :: "rat \<Rightarrow> int" where "js_round y = \<lfloor>y + 1 / 2\<rfloor>"

lemma nbits_bounds: "0 < n \<Longrightarrow> 2 ^ (nbits n - 1) \<le> n \<and> n < 2 ^ nbits n"
proof (induction n rule: less_induct)
  case (less n)
  show ?case
  proof (cases "n = 1")
    case True
    then show ?thesis by (simp add: nbits.simps)
  next
    case False
    then have h: "0 < n div 2" "n div 2 < n" using less.prems by auto
    note IH = less.IH [OF h(2,1)]
    have b: "nbits n = Suc (nbits (n div 2))" using less.prems by (simp add: nbits.simps)
    have "0 < nbits (n div 2)" using h by (simp add: nbits.simps)
    then obtain k where k: "nbits (n div 2) = Suc k" using gr0_implies_Suc by blast
    show ?thesis using IH b k by auto
  qed
qed

lemma pow2_pos [simp]: "0 < pow2 e"
  by (simp add: pow2_def)

lemma pow2_add_nat: "pow2 (e + int k) = pow2 e * 2 ^ k"
proof -
  consider "0 \<le> e" | "e < 0" "0 \<le> e + int k" | "e < 0" "e + int k < 0" by linarith
  then show ?thesis
  proof cases
    case 1
    then show ?thesis by (simp add: pow2_def nat_add_distrib power_add)
  next
    case 2
    then have "k = nat (e + int k) + nat (- e)" by linarith
    then have "(2 :: rat) ^ k = 2 ^ nat (e + int k) * 2 ^ nat (- e)" by (metis power_add)
    then show ?thesis using 2 by (simp add: pow2_def)
  next
    case 3
    then have "nat (- e) = nat (- (e + int k)) + k" by linarith
    then have "(2 :: rat) ^ nat (- e) = 2 ^ nat (- (e + int k)) * 2 ^ k" by (metis power_add)
    then show ?thesis using 3 by (simp add: pow2_def)
  qed
qed

lemma pow2_mono: "a \<le> b \<Longrightarrow> pow2 a \<le> pow2 b"
proof -
  assume "a \<le> b"
  have "pow2 a * 1 \<le> pow2 a * 2 ^ nat (b - a)"
    by (intro mult_left_mono) (simp_all add: one_le_power less_imp_le)
  also have "\<dots> = pow2 b" using pow2_add_nat [of a "nat (b - a)"] \<open>a \<le> b\<close> by simp
  finally show ?thesis by simp
qed

lemma dbl_exp_le:
  assumes "0 < x"
  shows "pow2 (dbl_exp x) \<le> x"
proof (cases "1 \<le> x")
  case True
  let ?n = "nat \<lfloor>x\<rfloor>"
  have n: "0 < ?n" using True by simp
  have "nbits ?n \<noteq> 0" using n by (simp add: nbits.simps)
  then have e: "dbl_exp x = int (nbits ?n - 1)" using True by (simp add: dbl_exp_def of_nat_diff)
  have "(2 :: rat) ^ (nbits ?n - 1) = of_nat (2 ^ (nbits ?n - 1))" by simp
  also have "\<dots> \<le> of_nat ?n" using nbits_bounds [OF n] by (simp only: of_nat_le_iff)
  also have "of_nat ?n = (of_int \<lfloor>x\<rfloor> :: rat)" using True by simp
  also have "\<dots> \<le> x" by simp
  finally show ?thesis by (simp add: e pow2_def)
next
  case False
  let ?m = "\<lceil>1 / x\<rceil> - 1"
  have gt: "1 < 1 / x" using False assms by simp
  then have m: "0 < ?m" by (simp add: less_ceiling_iff)
  have "1 / x \<le> of_int (?m + 1)" by simp
  also have "(of_int (?m + 1) :: rat) \<le> 2 ^ nbits (nat ?m)"
  proof -
    have "nat ?m < 2 ^ nbits (nat ?m)" using nbits_bounds [of "nat ?m"] m by simp
    then have "?m + 1 \<le> 2 ^ nbits (nat ?m)" using m by (simp add: nat_less_iff)
    then have "(of_int (?m + 1) :: rat) \<le> of_int (2 ^ nbits (nat ?m))" by (simp only: of_int_le_iff)
    then show ?thesis by simp
  qed
  finally have "1 / 2 ^ nbits (nat ?m) \<le> x" using assms by (simp add: field_simps)
  moreover have "nbits (nat ?m) \<noteq> 0" using m by (simp add: nbits.simps)
  ultimately show ?thesis using False by (simp add: dbl_exp_def pow2_def)
qed

lemma round_half_even_error: "\<bar>of_int (round_half_even y) - y\<bar> \<le> 1 / 2"
proof -
  define d where "d = y - of_int \<lfloor>y\<rfloor>"
  have "0 \<le> d" "d < 1" unfolding d_def by linarith+
  moreover have "y = of_int \<lfloor>y\<rfloor> + d" by (simp add: d_def)
  ultimately show ?thesis
    unfolding round_half_even_def Let_def d_def [symmetric] by (auto simp: abs_le_iff)
qed

lemma round_half_even_int [simp]: "round_half_even (of_int k) = k"
  by (simp add: round_half_even_def)

lemma dbl_pos_error:
  assumes "0 < x"
  shows "\<bar>dbl_pos x - x\<bar> \<le> x / 2 ^ 53"
proof -
  define u where "u = pow2 (dbl_exp x - 52)"
  have u: "0 < u" by (simp add: u_def)
  have "pow2 (dbl_exp x) = u * 2 ^ 52"
    using pow2_add_nat [of "dbl_exp x - 52" 52] by (simp add: u_def)
  then have ux: "u * 2 ^ 52 \<le> x" using dbl_exp_le [OF assms] by simp
  have "dbl_pos x - x = (of_int (round_half_even (x / u)) - x / u) * u"
    using u by (simp add: dbl_pos_def u_def [symmetric] left_diff_distrib)
  then have "\<bar>dbl_pos x - x\<bar> = \<bar>of_int (round_half_even (x / u)) - x / u\<bar> * u"
    using u by (simp add: abs_mult)
  also have "\<dots> \<le> 1 / 2 * u" using round_half_even_error u by (intro mult_right_mono) auto
  also have "\<dots> \<le> x / 2 ^ 53" using ux by simp
  finally show ?thesis .
qed

lemma dbl_error: "\<bar>dbl x - x\<bar> \<le> \<bar>x\<bar> / 2 ^ 53"
proof (cases x "0 :: rat" rule: linorder_cases)
  case less
  have "\<bar>dbl x - x\<bar> = \<bar>dbl_pos (- x) - - x\<bar>"
    using less by (simp add: dbl_def abs_minus_commute)
  also have "\<dots> \<le> - x / 2 ^ 53" using less by (intro dbl_pos_error) simp
  finally show ?thesis using less by simp
next
  case greater
  then show ?thesis using dbl_pos_error [of x] by (simp add: dbl_def)
qed (simp add: dbl_def)

lemma dbl_nonneg: "0 \<le> x \<Longrightarrow> 0 \<le> dbl x"
proof -
  assume "0 \<le> x"
  then have "\<bar>dbl x - x\<bar> \<le> x" using dbl_error [of x] by (simp add: order_trans)
  then show ?thesis using \<open>0 \<le> x\<close> by linarith
qed

lemma dbl_le: "0 \<le> x \<Longrightarrow> dbl x \<le> x * (1 + 1 / 2 ^ 53)"
  using abs_le_D1 [OF dbl_error [of x]] by (simp add: field_simps)

lemma dbl_ge: "0 \<le> x \<Longrightarrow> x * (1 - 1 / 2 ^ 53) \<le> dbl x"
  using abs_le_D2 [OF dbl_error [of x]] by (simp add: field_simps)

lemma dbl_int:
  assumes "\<bar>k\<bar> < 2 ^ 53"
  shows "dbl (of_int k) = of_int k"
proof -
  have pos: "dbl_pos (of_int k) = of_int k" if "0 < k" "k < 2 ^ 53" for k
  proof -
    let ?e = "dbl_exp (of_int k)"
    have "?e < 53"
    proof (rule ccontr)
      assume "\<not> ?e < 53"
      then have "pow2 53 \<le> pow2 ?e" by (simp add: pow2_mono)
      also have "\<dots> \<le> of_int k" using that by (intro dbl_exp_le) simp
      also have "\<dots> < of_int (2 ^ 53)" using that(2) by (simp only: of_int_less_iff)
      finally show False by (simp add: pow2_def)
    qed
    define n where "n = nat (52 - ?e)"
    have "pow2 (?e - 52) = 1 / 2 ^ n" using \<open>?e < 53\<close>
      by (cases "?e = 52") (auto simp: pow2_def n_def)
    then have u: "pow2 (?e - 52) = 1 / 2 ^ n" .
    have "of_int k / (1 / 2 ^ n :: rat) = of_int (k * 2 ^ n)" by simp
    then have "round_half_even (of_int k / (1 / 2 ^ n)) = k * 2 ^ n" by (metis round_half_even_int)
    then show ?thesis by (simp add: dbl_pos_def u)
  qed
  show ?thesis using assms pos [of k] pos [of "- k"] by (auto simp: dbl_def)
qed

lemma round_half_even_ge: "of_int k \<le> y \<Longrightarrow> k \<le> round_half_even y"
proof -
  assume "of_int k \<le> y"
  then have "k \<le> \<lfloor>y\<rfloor>" by (simp add: le_floor_iff)
  then show ?thesis by (simp add: round_half_even_def Let_def)
qed

text \<open>Rounding never crosses a small integer from above.\<close>

lemma dbl_ge_int:
  assumes "0 < k" "k < 2 ^ 52" "of_int k \<le> x"
  shows "of_int k \<le> dbl x"
proof (cases "x < 2 ^ 53")
  case True
  have x: "0 < x" using assms by (meson of_int_0_less_iff order_less_le_trans)
  let ?e = "dbl_exp x"
  have "?e < 53"
  proof (rule ccontr)
    assume "\<not> ?e < 53"
    then have "pow2 53 \<le> pow2 ?e" by (simp add: pow2_mono)
    also have "\<dots> \<le> x" by (rule dbl_exp_le [OF x])
    finally show False using True by (simp add: pow2_def)
  qed
  define n where "n = nat (52 - ?e)"
  have u: "pow2 (?e - 52) = 1 / 2 ^ n" using \<open>?e < 53\<close>
    by (cases "?e = 52") (auto simp: pow2_def n_def)
  have "of_int (k * 2 ^ n) \<le> x * 2 ^ n" using assms(3) by simp
  then have "k * 2 ^ n \<le> round_half_even (x * 2 ^ n)" by (rule round_half_even_ge)
  then have "(of_int (k * 2 ^ n) :: rat) \<le> of_int (round_half_even (x * 2 ^ n))" by (simp only: of_int_le_iff)
  then have "of_int k \<le> of_int (round_half_even (x * 2 ^ n)) / (2 ^ n :: rat)" by (simp add: field_simps)
  then show ?thesis using x by (simp add: dbl_def dbl_pos_def u)
next
  case False
  have "(of_int k :: rat) \<le> 2 ^ 52" using assms(2) by (metis less_imp_le of_int_le_iff of_int_numeral of_int_power)
  also have "\<dots> \<le> 2 ^ 53 * (1 - 1 / 2 ^ 53)" by simp
  also have "\<dots> \<le> x * (1 - 1 / 2 ^ 53)" using False by (intro mult_right_mono) auto
  also have "\<dots> \<le> dbl x" using False by (intro dbl_ge) simp
  finally show ?thesis .
qed

lemma js_round_bounds: "y - 1 / 2 \<le> of_int (js_round y)" "of_int (js_round y) \<le> y + 1 / 2"
  unfolding js_round_def by linarith+

lemma js_round_nonneg: "0 \<le> y \<Longrightarrow> 0 \<le> js_round y"
  by (simp add: js_round_def)

end
