(* ===== verification/WarmupMoves.thy ===== *)
theory WarmupMoves
  imports Doubles JsDate
begin

text \<open>
  The pure part of \<open>packages/core/src/warmup-ramp.ts\<close>: how a warm-up's volume moves, its
  settings and their bounds, the signals of a checked day and the outcome they give, a
  contact's place in line, and the plan of a send over the coming days. Figures are
  doubles (\<open>Doubles\<close>); quotients of counts that are only rounded up are exact. Strings
  are Latin-1. The mail texts and the property options are display and not modelled.
\<close>

section \<open>Volumes\<close>

definition WARMUP_START_VOLUME :: int where [consts_defs]: "WARMUP_START_VOLUME = 1500"
definition MIN_VOLUME :: int where [consts_defs]: "MIN_VOLUME = 500"
definition WARMUP_SLICES_PER_DAY :: int where [consts_defs]: "WARMUP_SLICES_PER_DAY = 48"
definition RESTART_AFTER_IDLE_DAYS :: int where [consts_defs]: "RESTART_AFTER_IDLE_DAYS = 30"
definition WARMUP_INACTIVE_DAYS :: int where [consts_defs]: "WARMUP_INACTIVE_DAYS = 90"
definition BEST_DAY_WINDOW_DAYS :: int where [consts_defs]: "BEST_DAY_WINDOW_DAYS = 30"
definition DEFAULT_TARGET :: int where [consts_defs]: "DEFAULT_TARGET = 10000"
definition PLAN_MAX_DAYS :: nat where [consts_defs]: "PLAN_MAX_DAYS = 366"
definition SES_QUOTA_SLOT_MS :: int where [consts_defs]: "SES_QUOTA_SLOT_MS = 15 * 60000"

datatype volume_move = Grow | StepBack | Resume

fun VOLUME_MOVES :: "volume_move \<Rightarrow> rat" where
  "VOLUME_MOVES Grow = 3 / 2"
| "VOLUME_MOVES StepBack = dbl (7 / 10)"
| "VOLUME_MOVES Resume = 1 / 2"

definition roundWarmupVolume :: "rat \<Rightarrow> int \<Rightarrow> int" where
  "roundWarmupVolume volume target =
     (let step = (if volume < 1000 then 10 else 100)
      in min target (js_round (js_div volume (of_int step)) * step))"

definition movedWarmupVolume :: "int \<Rightarrow> volume_move \<Rightarrow> int \<Rightarrow> int" where
  "movedWarmupVolume volume move target =
     (let moved = roundWarmupVolume (js_mul (of_int volume) (VOLUME_MOVES move)) target
      in if move = Grow then moved else max (min MIN_VOLUME volume) moved)"

section \<open>Settings\<close>

record warmup_settings =
  ws_dailyTarget :: int
  ws_startVolume :: int
  ws_orderByEngagement :: bool
  ws_orderByTransactional :: bool
  ws_orderProperty :: "string option"
  ws_skipInactive :: bool

text \<open>\<open>None\<close> is a setting left out; numbers may be any finite number.\<close>

record warmup_settings_input =
  wi_dailyTarget :: "rat option"
  wi_startVolume :: "rat option"
  wi_orderByEngagement :: "bool option"
  wi_orderByTransactional :: "bool option"
  wi_orderProperty :: "string option option"
  wi_skipInactive :: "bool option"

definition DAILY_TARGET_LIMITS :: "int \<times> int" where "DAILY_TARGET_LIMITS = (1000, 10000000)"
definition START_VOLUME_LIMITS :: "int \<times> int" where "START_VOLUME_LIMITS = (100, 1000000)"
definition ORDER_PROPERTY_LENGTH :: nat where "ORDER_PROPERTY_LENGTH = 100"

lemmas warmup_limits = DAILY_TARGET_LIMITS_def START_VOLUME_LIMITS_def ORDER_PROPERTY_LENGTH_def

definition defaultSettings :: "int \<Rightarrow> int \<Rightarrow> warmup_settings" where
  "defaultSettings bestDay subscribed =
     (let target = min (snd DAILY_TARGET_LIMITS) (max DEFAULT_TARGET subscribed)
      in \<lparr>ws_dailyTarget = target,
          ws_startVolume = roundWarmupVolume (of_int (min (snd START_VOLUME_LIMITS)
             (max WARMUP_START_VOLUME (2 * bestDay)))) target,
          ws_orderByEngagement = True, ws_orderByTransactional = True, ws_orderProperty = None,
          ws_skipInactive = True\<rparr>)"

datatype settings_error = DailyTargetError | StartVolumeError | StartAboveTargetError | OrderPropertyError

definition within_limits :: "rat \<Rightarrow> int \<times> int \<Rightarrow> bool" where
  "within_limits n limits \<longleftrightarrow> of_int \<lfloor>n\<rfloor> = n \<and> of_int (fst limits) \<le> n \<and> n \<le> of_int (snd limits)"

definition given :: "'a option \<Rightarrow> 'a \<Rightarrow> 'a" where
  "given x base = (case x of Some v \<Rightarrow> v | None \<Rightarrow> base)"

definition trimmed :: "string option \<Rightarrow> string option" where
  "trimmed p = (case p of None \<Rightarrow> None | Some s \<Rightarrow> if js_trim s = [] then None else Some (js_trim s))"

definition mergeSettings ::
    "warmup_settings \<Rightarrow> warmup_settings_input option \<Rightarrow> settings_error + warmup_settings" where
  "mergeSettings base input =
     (let g = (\<lambda>f b. given (Option.bind input f) b);
          target = g wi_dailyTarget (of_int (ws_dailyTarget base));
          start = g wi_startVolume (of_int (ws_startVolume base));
          prop = trimmed (given (Option.bind input wi_orderProperty) (ws_orderProperty base))
      in if \<not> within_limits target DAILY_TARGET_LIMITS then Inl DailyTargetError
         else if \<not> within_limits start START_VOLUME_LIMITS then Inl StartVolumeError
         else if target < start then Inl StartAboveTargetError
         else if (case prop of None \<Rightarrow> False | Some p \<Rightarrow> ORDER_PROPERTY_LENGTH < length p)
           then Inl OrderPropertyError
         else Inr \<lparr>ws_dailyTarget = \<lfloor>target\<rfloor>, ws_startVolume = \<lfloor>start\<rfloor>,
                ws_orderByEngagement = given (Option.bind input wi_orderByEngagement) (ws_orderByEngagement base),
                ws_orderByTransactional =
                  given (Option.bind input wi_orderByTransactional) (ws_orderByTransactional base),
                ws_orderProperty = prop,
                ws_skipInactive = given (Option.bind input wi_skipInactive) (ws_skipInactive base)\<rparr>)"

section \<open>Signals\<close>

record side =
  gmail :: int
  other :: int

record warmup_day_counts =
  dc_sent :: side
  dc_delayed :: side
  dc_delivered :: side
  dc_opened :: side
  dc_hardBounced :: side
  dc_mailboxFull :: side
  dc_feedbackDelivered :: int
  dc_complained :: int

datatype signal_key = Delays | Opens | HardBounces | MailboxFull | Complaints

definition SIGNAL_KEYS :: "signal_key list" where
  "SIGNAL_KEYS = [Delays, Opens, HardBounces, MailboxFull, Complaints]"

datatype signal_result = Within | Missed | Severe | Unknown

record signal_figures =
  sf_sent :: side
  sf_gmail :: "signal_key \<Rightarrow> rat option"
  sf_other :: "signal_key \<Rightarrow> rat option"

record warmup_signals = signal_figures +
  sg_result :: "signal_key \<Rightarrow> signal_result"

text \<open>The missed and the severe line of a signal.\<close>

fun SIGNAL_LINES :: "signal_key \<Rightarrow> rat \<times> rat" where
  "SIGNAL_LINES Delays = (dbl (5 / 100), dbl (2 / 10))"
| "SIGNAL_LINES Opens = (1 / 2, 1 / 4)"
| "SIGNAL_LINES HardBounces = (dbl (2 / 100), dbl (5 / 100))"
| "SIGNAL_LINES MailboxFull = (dbl (2 / 100), dbl (5 / 100))"
| "SIGNAL_LINES Complaints = (dbl (5 / 10000), dbl (1 / 1000))"

definition or_zero :: "rat option \<Rightarrow> rat" where
  "or_zero x = given x 0"

definition warmupSignalFigure :: "('a) signal_figures_scheme \<Rightarrow> signal_key \<Rightarrow> rat option" where
  "warmupSignalFigure s key =
     (case key of
        Delays \<Rightarrow> sf_gmail s Delays
      | Opens \<Rightarrow> (case (sf_gmail s Opens, sf_other s Opens) of
           (Some g, Some ot) \<Rightarrow> if ot \<noteq> 0 then Some (js_div g ot) else None
         | _ \<Rightarrow> None)
      | Complaints \<Rightarrow> sf_other s Complaints
      | _ \<Rightarrow>
          (let n = gmail (sf_sent s) + other (sf_sent s) in
           if 0 < n
           then Some (js_div (js_add (js_mul (or_zero (sf_gmail s key)) (of_int (gmail (sf_sent s))))
                                     (js_mul (or_zero (sf_other s key)) (of_int (other (sf_sent s)))))
                             (of_int n))
           else None))"

definition share :: "int \<Rightarrow> int \<Rightarrow> rat option" where
  "share n of' = (if 0 < of' then Some (js_div (of_int n) (of_int of')) else None)"

fun side_counts :: "signal_key \<Rightarrow> warmup_day_counts \<Rightarrow> bool \<Rightarrow> (side \<times> side) option" where
  "side_counts Delays c openTracking = Some (dc_delayed c, dc_sent c)"
| "side_counts Opens c openTracking = (if openTracking then Some (dc_opened c, dc_delivered c) else None)"
| "side_counts HardBounces c openTracking = Some (dc_hardBounced c, dc_sent c)"
| "side_counts MailboxFull c openTracking = Some (dc_mailboxFull c, dc_sent c)"
| "side_counts Complaints c openTracking = None"

definition figures_of :: "warmup_day_counts \<Rightarrow> bool \<Rightarrow> signal_figures" where
  "figures_of c openTracking =
     \<lparr>sf_sent = dc_sent c,
      sf_gmail = (\<lambda>k. case side_counts k c openTracking of None \<Rightarrow> None
                    | Some (n, d) \<Rightarrow> share (gmail n) (gmail d)),
      sf_other = (\<lambda>k. if k = Complaints then share (dc_complained c) (dc_feedbackDelivered c)
                    else case side_counts k c openTracking of None \<Rightarrow> None
                    | Some (n, d) \<Rightarrow> share (other n) (other d))\<rparr>"

fun enough :: "signal_key \<Rightarrow> warmup_day_counts \<Rightarrow> bool \<Rightarrow> bool" where
  "enough Delays c openTracking \<longleftrightarrow> 100 \<le> gmail (dc_sent c)"
| "enough Opens c openTracking \<longleftrightarrow> openTracking \<and> 100 \<le> gmail (dc_delivered c) \<and> 100 \<le> other (dc_delivered c)"
| "enough HardBounces c openTracking \<longleftrightarrow> 100 \<le> gmail (dc_sent c) + other (dc_sent c)"
| "enough MailboxFull c openTracking \<longleftrightarrow> 100 \<le> gmail (dc_sent c) + other (dc_sent c)"
| "enough Complaints c openTracking \<longleftrightarrow> 200 \<le> dc_feedbackDelivered c"

definition signal_verdict :: "warmup_day_counts \<Rightarrow> bool \<Rightarrow> signal_key \<Rightarrow> signal_result" where
  "signal_verdict c openTracking key =
     (case warmupSignalFigure (figures_of c openTracking) key of
        None \<Rightarrow> Unknown
      | Some figure \<Rightarrow>
          if \<not> enough key c openTracking then Unknown
          else
            let past = (\<lambda>line. if key = Opens then figure < line else line \<le> figure);
                least = (\<lambda>n. key \<noteq> Complaints \<or> n \<le> dc_complained c)
            in if past (snd (SIGNAL_LINES key)) \<and> least 3 then Severe
               else if past (fst (SIGNAL_LINES key)) \<and> least 2 then Missed
               else Within)"

definition warmupSignals :: "warmup_day_counts \<Rightarrow> bool \<Rightarrow> warmup_signals" where
  "warmupSignals c openTracking =
     signal_figures.extend (figures_of c openTracking) \<lparr>sg_result = signal_verdict c openTracking\<rparr>"

datatype warmup_outcome = Grew | Held | SteppedBack | PausedDay | DoneDay | Light | Idle

definition warmupDayOutcome :: "(signal_key \<Rightarrow> signal_result) \<Rightarrow> int \<Rightarrow> int \<Rightarrow> int \<Rightarrow> int \<Rightarrow> warmup_outcome" where
  "warmupDayOutcome result sent allowance volume dailyTarget =
     (let results = map result SIGNAL_KEYS;
          missed = length (filter (\<lambda>r. r = Missed) results)
      in if Severe \<in> set results then PausedDay
         else if 2 \<le> missed then SteppedBack
         else if missed = 1 then Held
         else if 2 * sent < allowance then Light
         else if dailyTarget \<le> volume then DoneDay else Grew)"

section \<open>Who goes first\<close>

definition contactActivity ::
    "warmup_settings \<Rightarrow> instant option \<Rightarrow> instant option \<Rightarrow> instant option \<Rightarrow> instant \<Rightarrow> instant option" where
  "contactActivity s engagedAt transactionalAt propertyAt now =
     (let times = List.map_filter id
            [if ws_orderByEngagement s then engagedAt else None,
             if ws_orderByTransactional s then transactionalAt else None,
             if ws_orderProperty s \<noteq> None \<and> ws_orderProperty s \<noteq> Some [] then propertyAt else None]
      in case times of [] \<Rightarrow> None | t # ts \<Rightarrow> Some (min (fold max ts t) now))"

definition inactiveBefore :: "instant \<Rightarrow> instant" where
  "inactiveBefore now = now - WARMUP_INACTIVE_DAYS * DAY_MS"

definition isInactiveContact :: "instant option \<Rightarrow> instant \<Rightarrow> bool" where
  "isInactiveContact activity now =
     (case activity of None \<Rightarrow> False | Some a \<Rightarrow> a < inactiveBefore now)"

definition warmupSendOrder :: "instant option \<Rightarrow> instant \<Rightarrow> int" where
  "warmupSendOrder activity now = - (given activity (inactiveBefore now) div 1000)"

section \<open>The plan of a send\<close>

record warmup_plan =
  pl_perDay :: "(int \<times> int) list"
  pl_days :: int
  pl_finishesAt :: "instant option"

record plan_input =
  pi_now :: instant
  pi_paused :: bool
  pi_volume :: int
  pi_dailyTarget :: int
  pi_today :: "(int \<times> int \<times> int) option"
  pi_waitingAhead :: int
  pi_count :: int

text \<open>One day of the plan: its room and slice, before anything is taken from it.\<close>

definition plan_known :: "plan_input \<Rightarrow> nat \<Rightarrow> (int \<times> int) option" where
  "plan_known inp i =
     (case pi_today inp of
        Some (day, allowance, sent) \<Rightarrow>
          if i = 0 \<and> day = utcDay (pi_now inp) then Some (allowance, sent) else None
      | None \<Rightarrow> None)"

definition plan_start :: "plan_input \<Rightarrow> nat \<Rightarrow> instant" where
  "plan_start inp i = utcDay (pi_now inp) * DAY_MS + int i * DAY_MS"

definition plan_from :: "plan_input \<Rightarrow> nat \<Rightarrow> instant" where
  "plan_from inp i = (if i = 0 then pi_now inp else plan_start inp i)"

definition plan_allowance :: "plan_input \<Rightarrow> nat \<Rightarrow> int \<Rightarrow> int" where
  "plan_allowance inp i volume = (case plan_known inp i of Some (a, _) \<Rightarrow> a | None \<Rightarrow> volume)"

definition plan_slice :: "plan_input \<Rightarrow> nat \<Rightarrow> int \<Rightarrow> int" where
  "plan_slice inp i volume = ceil_div (plan_allowance inp i volume) WARMUP_SLICES_PER_DAY"

definition plan_room :: "plan_input \<Rightarrow> nat \<Rightarrow> int \<Rightarrow> int" where
  "plan_room inp i volume =
     (let runs = ceil_div (plan_start inp i + DAY_MS - plan_from inp i) SES_QUOTA_SLOT_MS;
          sent = (case plan_known inp i of Some (_, s) \<Rightarrow> s | None \<Rightarrow> 0)
      in max 0 (min (plan_allowance inp i volume - sent) (plan_slice inp i volume * runs)))"

text \<open>The loop, over the days left of \<open>PLAN_MAX_DAYS\<close>; \<open>acc\<close> is \<open>perDay\<close> so far.\<close>

fun plan_loop :: "plan_input \<Rightarrow> nat \<Rightarrow> nat \<Rightarrow> int \<Rightarrow> int \<Rightarrow> int \<Rightarrow> (int \<times> int) list \<Rightarrow> warmup_plan" where
  "plan_loop inp 0 i volume ahead left acc =
     \<lparr>pl_perDay = acc, pl_days = int (length acc), pl_finishesAt = None\<rparr>"
| "plan_loop inp (Suc k) i volume ahead left acc =
     (if left \<le> 0 then \<lparr>pl_perDay = acc, pl_days = int (length acc), pl_finishesAt = None\<rparr>
      else
        let room = plan_room inp i volume;
            drained = min ahead room;
            mine = min left (room - drained);
            acc' = acc @ [(utcDay (plan_start inp i), mine)]
        in if left - mine = 0 then
             (let lastRun = ceil_div (drained + mine) (plan_slice inp i volume) - 1;
                  finishesAt = plan_from inp i + lastRun * SES_QUOTA_SLOT_MS
              in \<lparr>pl_perDay = acc', pl_days = max 1 (ceil_div (finishesAt - pi_now inp) DAY_MS),
                  pl_finishesAt = Some finishesAt\<rparr>)
           else plan_loop inp k (i + 1) (movedWarmupVolume volume Grow (pi_dailyTarget inp))
                  (ahead - drained) (left - mine) acc')"

definition planWarmupDays :: "plan_input \<Rightarrow> warmup_plan" where
  "planWarmupDays inp =
     (if pi_paused inp \<or> pi_count inp \<le> 0
      then \<lparr>pl_perDay = [], pl_days = 0, pl_finishesAt = None\<rparr>
      else plan_loop inp PLAN_MAX_DAYS 0 (pi_volume inp) (pi_waitingAhead inp) (pi_count inp) [])"

text \<open>The volumes the overview projects, day by day from the day after \<open>day\<close>.\<close>

fun projection_loop :: "nat \<Rightarrow> int \<Rightarrow> int \<Rightarrow> int \<Rightarrow> (int \<times> int) list" where
  "projection_loop 0 target volume day = []"
| "projection_loop (Suc k) target volume day =
     (if volume < target
      then (day + 1, movedWarmupVolume volume Grow target)
             # projection_loop k target (movedWarmupVolume volume Grow target) (day + 1)
      else [])"

section \<open>Lemmas on moves\<close>

definition rounded_volume :: "rat \<Rightarrow> int" where
  "rounded_volume x = (let step = (if x < 1000 then 10 else 100) in js_round (js_div x (of_int step)) * step)"

lemma roundWarmupVolume_eq: "roundWarmupVolume x target = min target (rounded_volume x)"
  by (simp add: roundWarmupVolume_def rounded_volume_def Let_def)

text \<open>Rounding moves a volume by half a step, and the doubles by a thousandth at most.\<close>

lemma dbl_close:
  assumes "0 \<le> p"
  shows "p - p / 10000 \<le> dbl p" "dbl p \<le> p + p / 10000"
proof -
  have e: "\<bar>dbl p - p\<bar> \<le> p / 2 ^ 53" using dbl_error [of p] assms by simp
  have "p / 2 ^ 53 \<le> p / 10000" using assms by (intro divide_left_mono) simp_all
  with e have "\<bar>dbl p - p\<bar> \<le> p / 10000" by (rule order_trans)
  then show "p - p / 10000 \<le> dbl p" "dbl p \<le> p + p / 10000" by (simp_all only: abs_le_iff) linarith+
qed

lemma rounded_close:
  assumes "0 \<le> p" "p - p / 10000 \<le> x" "x \<le> p + p / 10000"
  shows "(\<bar>of_int (rounded_volume x) - p\<bar> \<le> 5 + p / 1000)
       \<or> (999 \<le> p \<and> \<bar>of_int (rounded_volume x) - p\<bar> \<le> 50 + p / 1000)"
proof -
  define step :: int where "step = (if x < 1000 then 10 else 100)"
  have s: "step = 10 \<or> step = 100" "step = 100 \<longleftrightarrow> 1000 \<le> x" by (auto simp: step_def)
  define y where "y = js_div x (of_int step)"
  define q where "q = x / of_int step"
  have x: "0 \<le> x" using assms by linarith
  have q0: "0 \<le> q" using x s(1) by (auto simp: q_def)
  have y: "q - q / 10000 \<le> y" "y \<le> q + q / 10000"
    using dbl_close [OF q0] by (simp_all add: y_def js_div_def q_def)
  define r where "r = (of_int (js_round y) :: rat)"
  have r: "y - 1 / 2 \<le> r" "r \<le> y + 1 / 2" unfolding r_def by (rule js_round_bounds)+
  have v: "of_int (rounded_volume x) = r * of_int step"
    by (simp add: rounded_volume_def Let_def step_def y_def r_def)
  show ?thesis
  proof (cases "step = 10")
    case True
    then have e: "of_int (rounded_volume x) = r * 10" "x = q * 10" by (simp_all add: v q_def)
    have "r * 10 - p \<le> 5 + p / 1000" "p - r * 10 \<le> 5 + p / 1000"
      using y r assms unfolding e(2) by linarith+
    then show ?thesis unfolding e(1) by (intro disjI1 abs_leI) linarith+
  next
    case False
    then have st: "step = 100" using s by blast
    then have e: "of_int (rounded_volume x) = r * 100" "x = q * 100" and x1: "1000 \<le> x"
      using s(2) by (simp_all add: v q_def)
    have "r * 100 - p \<le> 50 + p / 1000" "p - r * 100 \<le> 50 + p / 1000"
      using y r assms unfolding e(2) by linarith+
    moreover have "999 \<le> p" using assms x1 by linarith
    ultimately show ?thesis unfolding e(1) by (intro disjI2 conjI abs_leI) linarith+
  qed
qed

lemma moved_close:
  assumes "0 \<le> v" "0 \<le> m"
  defines "p \<equiv> of_int v * m"
  defines "r \<equiv> rounded_volume (js_mul (of_int v) m)"
  shows "\<bar>of_int r - p\<bar> \<le> 5 + p / 1000 \<or> 999 \<le> p \<and> \<bar>of_int r - p\<bar> \<le> 50 + p / 1000"
  unfolding r_def
proof (rule rounded_close)
  show p: "0 \<le> p" using assms by (simp add: p_def)
  show "p - p / 10000 \<le> js_mul (of_int v) m" "js_mul (of_int v) m \<le> p + p / 10000"
    using dbl_close [OF p] by (simp_all only: js_mul_def p_def)
qed

lemma grow_factor:
  assumes "100 \<le> v"
  shows "7 * v \<le> 5 * rounded_volume (js_mul (of_int v) (VOLUME_MOVES Grow))"
proof -
  let ?r = "rounded_volume (js_mul (of_int v) (VOLUME_MOVES Grow))"
  have v: "(100 :: rat) \<le> of_int v" using assms by simp
  define w :: rat where "w = of_int v"
  have "\<bar>of_int ?r - w * (3 / 2)\<bar> \<le> 5 + w * (3 / 2) / 1000
      \<or> 999 \<le> w * (3 / 2) \<and> \<bar>of_int ?r - w * (3 / 2)\<bar> \<le> 50 + w * (3 / 2) / 1000"
    using moved_close [of v "3 / 2"] assms unfolding w_def by (simp only: VOLUME_MOVES.simps)
  then have "7 * w \<le> 5 * of_int ?r"
    using v unfolding abs_le_iff w_def [symmetric] by linarith
  then have "(of_int (7 * v) :: rat) \<le> of_int (5 * ?r)" by (simp add: w_def)
  then show ?thesis by (simp only: of_int_le_iff)
qed

lemma shrink_factor:
  assumes "100 \<le> v" "move \<noteq> Grow"
  shows "5 * rounded_volume (js_mul (of_int v) (VOLUME_MOVES move)) \<le> 4 * v"
proof -
  let ?r = "rounded_volume (js_mul (of_int v) (VOLUME_MOVES move))"
  have v: "(100 :: rat) \<le> of_int v" using assms by simp
  define m where "m = VOLUME_MOVES move"
  have "0 \<le> dbl (7 / 10)" "dbl (7 / 10) \<le> 71 / 100"
    using dbl_nonneg [of "7 / 10"] dbl_le [of "7 / 10"] by simp_all
  then have m: "0 \<le> m" "m \<le> 71 / 100" using assms(2) by (cases move; simp add: m_def)+
  have p: "of_int v * m \<le> of_int v * (71 / 100)" using m v by (intro mult_left_mono) auto
  define q where "q = of_int v * m"
  have q: "0 \<le> q" "q \<le> of_int v * (71 / 100)" using m v p by (simp_all add: q_def)
  have "\<bar>of_int ?r - q\<bar> \<le> 5 + q / 1000 \<or> 999 \<le> q \<and> \<bar>of_int ?r - q\<bar> \<le> 50 + q / 1000"
    using moved_close [of v m] assms m(1) by (simp add: q_def m_def [symmetric])
  then have "5 * of_int ?r \<le> 4 * (of_int v :: rat)"
    using v q unfolding abs_le_iff by linarith
  then have "(of_int (5 * ?r) :: rat) \<le> of_int (4 * v)" by simp
  then show ?thesis by (simp only: of_int_le_iff)
qed

lemma moved_grow: "movedWarmupVolume v Grow target
    = min target (rounded_volume (js_mul (of_int v) (VOLUME_MOVES Grow)))"
  by (simp add: movedWarmupVolume_def Let_def roundWarmupVolume_eq)

lemma moved_shrink: "move \<noteq> Grow \<Longrightarrow> movedWarmupVolume v move target
    = max (min MIN_VOLUME v) (min target (rounded_volume (js_mul (of_int v) (VOLUME_MOVES move))))"
  by (simp add: movedWarmupVolume_def Let_def roundWarmupVolume_eq)

lemma moved_bounds:
  assumes "100 \<le> v" "v \<le> target"
  shows "100 \<le> movedWarmupVolume v move target \<and> movedWarmupVolume v move target \<le> target"
proof (cases "move = Grow")
  case True
  then show ?thesis using grow_factor [OF assms(1)] assms by (auto simp: moved_grow)
next
  case False
  then show ?thesis using assms by (auto simp: moved_shrink MIN_VOLUME_def)
qed

lemma grow_iterate:
  assumes "100 \<le> v" "v \<le> target"
  shows "min (5 ^ n * target) (7 ^ n * v) \<le> 5 ^ n * (((\<lambda>x. movedWarmupVolume x Grow target) ^^ n) v)
     \<and> 100 \<le> ((\<lambda>x. movedWarmupVolume x Grow target) ^^ n) v
     \<and> ((\<lambda>x. movedWarmupVolume x Grow target) ^^ n) v \<le> target"
proof (induction n)
  case 0
  then show ?case using assms by simp
next
  case (Suc n)
  define x where "x = ((\<lambda>x. movedWarmupVolume x Grow target) ^^ n) v"
  have x: "min (5 ^ n * target) (7 ^ n * v) \<le> 5 ^ n * x" "100 \<le> x" "x \<le> target"
    using Suc.IH by (simp_all add: x_def)
  define y where "y = movedWarmupVolume x Grow target"
  have y: "min (5 * target) (7 * x) \<le> 5 * y" "100 \<le> y \<and> y \<le> target"
    using grow_factor [OF x(2)] moved_bounds [OF x(2,3), of Grow] by (auto simp: y_def moved_grow)
  have "min (5 ^ Suc n * target) (7 ^ Suc n * v) \<le> 5 ^ Suc n * y"
  proof (cases "y = target")
    case True
    then show ?thesis by simp
  next
    case False
    then have y7: "7 * x \<le> 5 * y" using y by linarith
    have t: "0 \<le> target" using x by simp
    have "min (5 * a) (7 * b) \<le> 7 * min a b" if "0 \<le> a" for a b :: int
      using that by (simp add: min_def)
    from this [of "5 ^ n * target" "7 ^ n * v"]
    have "min (5 ^ Suc n * target) (7 ^ Suc n * v) \<le> 7 * min (5 ^ n * target) (7 ^ n * v)"
      using t by (simp add: mult.assoc)
    also have "\<dots> \<le> 7 * (5 ^ n * x)" using x(1) by simp
    also have "\<dots> = 5 ^ n * (7 * x)" by simp
    also have "\<dots> \<le> 5 ^ n * (5 * y)" using y7 by (intro mult_left_mono) auto
    finally show ?thesis by simp
  qed
  then show ?case using y(2) by (simp add: y_def x_def)
qed

lemma shrink_bounds:
  assumes "100 \<le> v" "v \<le> target" "move \<noteq> Grow"
  shows "min MIN_VOLUME v \<le> movedWarmupVolume v move target
    \<and> 5 * movedWarmupVolume v move target \<le> max (5 * min MIN_VOLUME v) (4 * v)"
  using shrink_factor [OF assms(1,3)] by (auto simp: moved_shrink assms(3))

lemma projection_loop_reaches:
  assumes "((\<lambda>x. movedWarmupVolume x Grow target) ^^ n) v = target" "v < target" "n \<le> k"
    and "\<And>x. 100 \<le> x \<Longrightarrow> x \<le> target \<Longrightarrow> 100 \<le> movedWarmupVolume x Grow target \<and> movedWarmupVolume x Grow target \<le> target"
    and "100 \<le> v"
  shows "projection_loop k target v day \<noteq> [] \<and> snd (last (projection_loop k target v day)) = target
    \<and> length (projection_loop k target v day) \<le> n"
  using assms
proof (induction n arbitrary: v k day)
  case (Suc n)
  let ?w = "movedWarmupVolume v Grow target"
  obtain k' where k: "k = Suc k'" "n \<le> k'" using Suc.prems(3) by (cases k) auto
  have w: "100 \<le> ?w" "?w \<le> target" using Suc.prems(4) [of v] Suc.prems(2,5) by auto
  have it: "((\<lambda>x. movedWarmupVolume x Grow target) ^^ n) ?w = target"
    using Suc.prems(1) funpow_swap1 [of "\<lambda>x. movedWarmupVolume x Grow target" n v] by simp
  show ?case
  proof (cases "?w < target")
    case True
    then show ?thesis using Suc.IH [OF it True k(2) Suc.prems(4) w(1), of "day + 1"] Suc.prems(2)
      by (simp add: k)
  next
    case False
    then have "?w = target" using w by simp
    then show ?thesis using Suc.prems(2) by (cases k') (simp_all add: k)
  qed
qed simp

section \<open>Lemmas on plans\<close>

lemma plan_room_nonneg: "0 \<le> plan_room inp i volume"
  by (simp add: plan_room_def Let_def)

lemma utcDay_midnight [simp]: "utcDay (a * DAY_MS) = a"
  by (simp add: utcDay_def DAY_MS_def)

lemma utcDay_plan_start: "utcDay (plan_start inp i) = utcDay (pi_now inp) + int i"
proof -
  have "plan_start inp i = (utcDay (pi_now inp) + int i) * DAY_MS"
    by (simp add: plan_start_def distrib_right)
  then show ?thesis by (simp only: utcDay_midnight)
qed

lemma plan_loop_Suc:
  assumes "0 < left" "room = plan_room inp i volume" "mine = min left (room - min ahead room)"
  shows "plan_loop inp (Suc k) i volume ahead left acc =
     (if left - mine = 0 then
        \<lparr>pl_perDay = acc @ [(utcDay (plan_start inp i), mine)],
         pl_days = max 1 (ceil_div (plan_from inp i
           + (ceil_div (min ahead room + mine) (plan_slice inp i volume) - 1) * SES_QUOTA_SLOT_MS
           - pi_now inp) DAY_MS),
         pl_finishesAt = Some (plan_from inp i
           + (ceil_div (min ahead room + mine) (plan_slice inp i volume) - 1) * SES_QUOTA_SLOT_MS)\<rparr>
      else plan_loop inp k (i + 1) (movedWarmupVolume volume Grow (pi_dailyTarget inp))
             (ahead - min ahead room) (left - mine) (acc @ [(utcDay (plan_start inp i), mine)]))"
  using assms(1) by (simp add: Let_def assms(2,3))

lemma plan_loop_spec:
  "0 < left \<Longrightarrow> \<exists>days. pl_perDay (plan_loop inp k i volume ahead left acc) = acc @ days
     \<and> length days \<le> k
     \<and> (\<forall>j < length days. fst (days ! j) = utcDay (pi_now inp) + int (i + j) \<and> 0 \<le> snd (days ! j))
     \<and> sum_list (map snd days) \<le> left
     \<and> (pl_finishesAt (plan_loop inp k i volume ahead left acc) = None \<longleftrightarrow> sum_list (map snd days) < left)"
proof (induction k arbitrary: i volume ahead left acc)
  case (Suc k)
  define room where "room = plan_room inp i volume"
  define mine where "mine = min left (room - min ahead room)"
  have m: "0 \<le> mine" "mine \<le> left" using Suc.prems by (auto simp: mine_def)
  let ?d = "(utcDay (plan_start inp i), mine)"
  note step = plan_loop_Suc [OF Suc.prems room_def mine_def, of k acc]
  show ?case
  proof (cases "left - mine = 0")
    case True
    then show ?thesis unfolding step using Suc.prems m
      by (intro exI [of _ "[?d]"]) (simp add: utcDay_plan_start)
  next
    case False
    then have "0 < left - mine" using m by simp
    from Suc.IH [OF this, of "i + 1" "movedWarmupVolume volume Grow (pi_dailyTarget inp)"
        "ahead - min ahead room" "acc @ [?d]"]
    obtain days where d: "pl_perDay (plan_loop inp (Suc k) i volume ahead left acc) = (acc @ [?d]) @ days"
      "length days \<le> k" "\<forall>j < length days. fst (days ! j) = utcDay (pi_now inp) + int (i + 1 + j) \<and> 0 \<le> snd (days ! j)"
      "sum_list (map snd days) \<le> left - mine"
      "pl_finishesAt (plan_loop inp (Suc k) i volume ahead left acc) = None
         \<longleftrightarrow> sum_list (map snd days) < left - mine"
      unfolding step using False by auto
    show ?thesis
    proof (intro exI [of _ "?d # days"] conjI allI impI)
      fix j assume "j < length (?d # days)"
      then show "fst ((?d # days) ! j) = utcDay (pi_now inp) + int (i + j)" "0 \<le> snd ((?d # days) ! j)"
        using d(3) m by (cases j; simp add: utcDay_plan_start)+
    qed (use d m in auto)
  qed
qed simp

section \<open>Properties\<close>

text \<open>
  C8: how a volume moves, doubles and rounding included. From 100 up, a growing volume
  gains at least two fifths until the target and never passes it; stepping back or resuming
  takes it to at most four fifths, or leaves it where the floor is, and never below the floor.
\<close>

theorem warmup_moves_bounded:
  assumes "100 \<le> v" and "v \<le> target"
  shows "(movedWarmupVolume v Grow target = target \<or> 7 * v \<le> 5 * movedWarmupVolume v Grow target)
    \<and> movedWarmupVolume v Grow target \<le> target
    \<and> (\<forall>move \<in> {StepBack, Resume}.
         min MIN_VOLUME v \<le> movedWarmupVolume v move target
         \<and> 5 * movedWarmupVolume v move target \<le> max (5 * min MIN_VOLUME v) (4 * v))"
  using grow_factor [OF assms(1)] moved_bounds [OF assms, of Grow] shrink_bounds [OF assms]
  by (auto simp: moved_grow)

theorem warmup_moves_bounded_witness:
  "5 * movedWarmupVolume 1000 StepBack 10000 \<le> 4000 \<and> 500 \<le> movedWarmupVolume 1000 Resume 10000"
  using warmup_moves_bounded [of 1000 10000] by (simp add: MIN_VOLUME_def)

text \<open>
  C9: a healthy warm-up finishes. From any volume of 100 or more, below a target of ten
  million, the projection the overview shows ends at the target, in 35 days at most: the
  bound of 366 days is never what stops it.
\<close>

theorem warmup_reaches_target:
  assumes "100 \<le> v" and "v < target" and "target \<le> 10000000"
  shows "projection_loop PLAN_MAX_DAYS target v day \<noteq> []
    \<and> snd (last (projection_loop PLAN_MAX_DAYS target v day)) = target
    \<and> length (projection_loop PLAN_MAX_DAYS target v day) \<le> 35"
proof (rule projection_loop_reaches)
  let ?x = "((\<lambda>x. movedWarmupVolume x Grow target) ^^ 35) v"
  have g: "min (5 ^ 35 * target) (7 ^ 35 * v) \<le> 5 ^ 35 * ?x" "?x \<le> target"
    using grow_iterate [of v target 35] assms by auto
  have "(5 :: int) ^ 35 * target \<le> 5 ^ 35 * 10000000" using assms(3) by simp
  also have "\<dots> \<le> 7 ^ 35 * 100" by simp
  also have "\<dots> \<le> 7 ^ 35 * v" using assms(1) by simp
  finally have "5 ^ 35 * target \<le> 5 ^ 35 * ?x" using g(1) by simp
  then show "?x = target" using g(2) by simp
qed (use assms moved_bounds in \<open>auto simp: PLAN_MAX_DAYS_def\<close>)

theorem warmup_reaches_target_witness:
  "snd (last (projection_loop PLAN_MAX_DAYS 10000 1500 7)) = 10000"
  using warmup_reaches_target [of 1500 10000 7] by simp

text \<open>
  The plan of a send accounts for every email. The days are consecutive from the start,
  at most 366; no day has a negative count; the counts never pass the send, and they add up
  to it exactly when the plan names an end.
\<close>

theorem plan_accounts_for_all:
  assumes "\<not> pi_paused inp" and "0 < pi_count inp"
  shows "length (pl_perDay (planWarmupDays inp)) \<le> 366
    \<and> (\<forall>j < length (pl_perDay (planWarmupDays inp)).
         fst (pl_perDay (planWarmupDays inp) ! j) = utcDay (pi_now inp) + int j
         \<and> 0 \<le> snd (pl_perDay (planWarmupDays inp) ! j))
    \<and> sum_list (map snd (pl_perDay (planWarmupDays inp))) \<le> pi_count inp
    \<and> (pl_finishesAt (planWarmupDays inp) \<noteq> None \<longleftrightarrow>
         sum_list (map snd (pl_perDay (planWarmupDays inp))) = pi_count inp)"
  using plan_loop_spec [OF assms(2), of inp PLAN_MAX_DAYS 0 "pi_volume inp" "pi_waitingAhead inp" "[]"] assms
  by (auto simp: planWarmupDays_def PLAN_MAX_DAYS_def)

theorem plan_accounts_for_all_witness:
  "\<exists>p. p = planWarmupDays \<lparr>pi_now = 0, pi_paused = False, pi_volume = 1500, pi_dailyTarget = 10000,
       pi_today = None, pi_waitingAhead = 0, pi_count = 1000\<rparr> \<and> length (pl_perDay p) \<le> 366
     \<and> sum_list (map snd (pl_perDay p)) \<le> 1000"
  using plan_accounts_for_all [of "\<lparr>pi_now = 0, pi_paused = False, pi_volume = 1500,
      pi_dailyTarget = 10000, pi_today = None, pi_waitingAhead = 0, pi_count = 1000\<rparr>"]
  by simp

end
