(* ===== verification/WarmupRamp.thy ===== *)
theory WarmupRamp
  imports WarmupMoves EmailStatus "HOL-Library.List_Lexorder" "HOL-Library.Char_ord"
    "HOL-Library.Product_Lexorder"
begin

text \<open>
  The state machine of \<open>packages/core/src/warmup-ramp.ts\<close>: turning a domain's warm-up on,
  pausing, resuming, turning off, its settings, the reservation of a day, and the day check.
  Tables are lists of keyed rows. \<open>send_facts\<close> is what the lateral join of \<open>dayCounts\<close>
  yields for one send (its event filters and patterns are not modelled). Every operation
  runs at once, except that a day's check is split at its commit (\<open>check_read\<close>,
  \<open>check_commit\<close>), whose guard the code relies on. A \<open>RangeError\<close> is \<open>Inl\<close>.
\<close>

section \<open>Tables\<close>

datatype warmup_status = WOff | Warming | WPaused | WDone

record warmup_row =
  wr_teamId :: ident
  wr_settings :: warmup_settings
  wr_status :: warmup_status
  wr_volume :: int
  wr_sendingDays :: int
  wr_checkedThrough :: "int option"
  wr_startedAt :: instant
  wr_pausedAt :: "instant option"
  wr_pauseSignals :: "warmup_signals option"
  wr_doneAt :: "instant option"

record day_row =
  dy_allowance :: int
  dy_sent :: int
  dy_outcome :: "warmup_outcome option"
  dy_signals :: "warmup_signals option"
  dy_checkedAt :: "instant option"

record ramp_domain =
  rn_teamId :: ident
  rn_name :: string
  rn_openTracking :: bool

record send_facts =
  sx_gmail :: bool
  sx_feedback :: bool
  sx_delivered :: bool
  sx_delayed :: bool
  sx_opened :: bool
  sx_hard :: bool
  sx_mailboxFull :: bool
  sx_complained :: bool
  sx_clipped :: bool

record ramp_mail =
  ml_teamId :: ident
  ml_domainId :: "ident option"
  ml_broadcastId :: "ident option"
  ml_contactId :: "ident option"
  ml_status :: email_status
  ml_parkReason :: "string option"
  ml_sentAt :: "instant option"
  ml_facts :: send_facts
  ml_engagements :: "instant list"

record ramp_contact =
  rc_id :: ident
  rc_teamId :: ident
  rc_unsubscribed :: bool
  rc_lastEngagedAt :: "instant option"

record ramp_broadcast =
  rb_scheduledAt :: "instant option"
  rb_createdAt :: instant

record ramp_db =
  rd_domains :: "(ident \<times> ramp_domain) list"
  rd_warmups :: "(ident \<times> warmup_row) list"
  rd_days :: "((ident \<times> int) \<times> day_row) list"
  rd_mails :: "ramp_mail list"
  rd_contacts :: "ramp_contact list"
  rd_broadcasts :: "(ident \<times> ramp_broadcast) list"

definition update_key :: "'k \<Rightarrow> ('v \<Rightarrow> 'v) \<Rightarrow> ('k \<times> 'v) list \<Rightarrow> ('k \<times> 'v) list" where
  "update_key k f rows = update_rows (\<lambda>(j, _). j = k) (\<lambda>(j, v). (j, f v)) rows"

definition yesterdayOf :: "instant \<Rightarrow> int" where
  "yesterdayOf now = utcDay (now - DAY_MS)"

section \<open>Reads\<close>

definition getWarmup :: "ramp_db \<Rightarrow> ident \<Rightarrow> ident \<Rightarrow> warmup_row option" where
  "getWarmup db teamId domainId =
     (case map_of (rd_warmups db) domainId of None \<Rightarrow> None
      | Some r \<Rightarrow> if wr_teamId r = teamId then Some r else None)"

definition teamDomain :: "ramp_db \<Rightarrow> ident \<Rightarrow> ident \<Rightarrow> bool option" where
  "teamDomain db teamId domainId =
     (case map_of (rd_domains db) domainId of None \<Rightarrow> None
      | Some d \<Rightarrow> if rn_teamId d = teamId then Some (rn_openTracking d) else None)"

definition bestDay :: "ramp_db \<Rightarrow> ident \<Rightarrow> ident \<Rightarrow> instant \<Rightarrow> int" where
  "bestDay db teamId domainId now =
     (let days = concat (map (\<lambda>m. if ml_teamId m = teamId \<and> ml_domainId m = Some domainId
                 then (case ml_sentAt m of None \<Rightarrow> []
                       | Some s \<Rightarrow> if now - BEST_DAY_WINDOW_DAYS * DAY_MS \<le> s then [utcDay s] else [])
                 else []) (rd_mails db))
      in fold max (map (\<lambda>d. int (count_list days d)) days) 0)"

definition subscribedContacts :: "ramp_db \<Rightarrow> ident \<Rightarrow> int" where
  "subscribedContacts db teamId =
     int (length (filter (\<lambda>c. rc_teamId c = teamId \<and> \<not> rc_unsubscribed c) (rd_contacts db)))"

definition warmupStartingSettings :: "ramp_db \<Rightarrow> ident \<Rightarrow> ident \<Rightarrow> instant \<Rightarrow> warmup_settings" where
  "warmupStartingSettings db teamId domainId now =
     defaultSettings (bestDay db teamId domainId now) (subscribedContacts db teamId)"

definition drain_key :: "ident \<Rightarrow> ramp_broadcast \<Rightarrow> jsnum \<times> instant \<times> ident" where
  "drain_key i b = (jsnum_of (rb_scheduledAt b), rb_createdAt b, i)"

definition waitingCount :: "ramp_db \<Rightarrow> ident \<Rightarrow> ident \<Rightarrow> ident option \<Rightarrow> int" where
  "waitingCount db teamId domainId aheadOf =
     int (length (filter (\<lambda>m. ml_teamId m = teamId \<and> ml_status m = QueuedQuota
       \<and> ml_domainId m = Some domainId \<and> ml_parkReason m = Some ''warmup''
       \<and> (case ml_broadcastId m of None \<Rightarrow> False
          | Some b \<Rightarrow> (case aheadOf of None \<Rightarrow> True
              | Some mine \<Rightarrow> (case (map_of (rd_broadcasts db) b, map_of (rd_broadcasts db) mine) of
                    (Some x, Some y) \<Rightarrow> drain_key b x < drain_key mine y | _ \<Rightarrow> False))))
       (rd_mails db)))"

section \<open>Operations\<close>

definition capToday :: "ident \<Rightarrow> int \<Rightarrow> instant \<Rightarrow> ramp_db \<Rightarrow> ramp_db" where
  "capToday domainId volume now db =
     db\<lparr>rd_days := update_key (domainId, utcDay now)
         (\<lambda>r. r\<lparr>dy_allowance := min (dy_allowance r) (max (dy_sent r) volume)\<rparr>) (rd_days db)\<rparr>"

definition stampStoredEngagement :: "ident \<Rightarrow> ramp_db \<Rightarrow> ramp_db" where
  "stampStoredEngagement teamId db =
     (let engaged = (\<lambda>c. concat (map ml_engagements (filter (\<lambda>m. ml_teamId m = teamId
            \<and> ml_contactId m = Some (rc_id c) \<and> ml_status m \<in> {Opened, Clicked, Complained}) (rd_mails db))));
          stamp = (\<lambda>c. case engaged c of [] \<Rightarrow> c
             | t # ts \<Rightarrow> (let newest = fold max ts t in
                 if (case rc_lastEngagedAt c of None \<Rightarrow> True | Some l \<Rightarrow> l < newest)
                 then c\<lparr>rc_lastEngagedAt := Some newest\<rparr> else c))
      in db\<lparr>rd_contacts := update_rows (\<lambda>c. rc_teamId c = teamId) stamp (rd_contacts db)\<rparr>)"

definition current_settings :: "ramp_db \<Rightarrow> ident \<Rightarrow> ident \<Rightarrow> instant \<Rightarrow> warmup_settings" where
  "current_settings db teamId domainId now =
     (case getWarmup db teamId domainId of Some r \<Rightarrow> wr_settings r
      | None \<Rightarrow> warmupStartingSettings db teamId domainId now)"

definition fresh_row :: "ident \<Rightarrow> warmup_settings \<Rightarrow> instant \<Rightarrow> warmup_row" where
  "fresh_row teamId s now =
     \<lparr>wr_teamId = teamId, wr_settings = s, wr_status = Warming, wr_volume = ws_startVolume s,
      wr_sendingDays = 0, wr_checkedThrough = Some (yesterdayOf now), wr_startedAt = now,
      wr_pausedAt = None, wr_pauseSignals = None, wr_doneAt = None\<rparr>"

text \<open>The upsert: a new row, or the fields of an existing row of the same team.\<close>

definition put_fresh :: "ident \<Rightarrow> warmup_row \<Rightarrow> ramp_db \<Rightarrow> ramp_db" where
  "put_fresh domainId fresh db =
     (case map_of (rd_warmups db) domainId of
        None \<Rightarrow> db\<lparr>rd_warmups := rd_warmups db @ [(domainId, fresh)]\<rparr>
      | Some r \<Rightarrow> if wr_teamId r = wr_teamId fresh
                  then db\<lparr>rd_warmups := update_key domainId (\<lambda>_. fresh) (rd_warmups db)\<rparr> else db)"

definition enableWarmup :: "ident \<Rightarrow> ident \<Rightarrow> warmup_settings_input option \<Rightarrow> instant \<Rightarrow> ramp_db
    \<Rightarrow> settings_error + ramp_db \<times> bool" where
  "enableWarmup teamId domainId settings now db =
     (if teamDomain db teamId domainId = None then Inr (db, False)
      else if (case getWarmup db teamId domainId of None \<Rightarrow> False
               | Some r \<Rightarrow> wr_status r = Warming \<or> wr_status r = WPaused) then Inr (db, True)
      else case mergeSettings (current_settings db teamId domainId now) settings of
             Inl e \<Rightarrow> Inl e
           | Inr s \<Rightarrow>
               Inr (capToday domainId (ws_startVolume s) now
                      (put_fresh domainId (fresh_row teamId s now) (stampStoredEngagement teamId db)), True))"

text \<open>A guarded update of one domain's row; the flag says whether it was hit.\<close>

definition guarded_update :: "ident \<Rightarrow> (warmup_row \<Rightarrow> bool) \<Rightarrow> (warmup_row \<Rightarrow> warmup_row) \<Rightarrow> ramp_db
    \<Rightarrow> ramp_db \<times> bool" where
  "guarded_update domainId P f db =
     (case map_of (rd_warmups db) domainId of
        None \<Rightarrow> (db, False)
      | Some r \<Rightarrow> if P r then (db\<lparr>rd_warmups := update_key domainId f (rd_warmups db)\<rparr>, True)
                  else (db, False))"

definition pauseWarmup :: "ident \<Rightarrow> ident \<Rightarrow> instant \<Rightarrow> ramp_db \<Rightarrow> ramp_db \<times> bool" where
  "pauseWarmup teamId domainId now db =
     guarded_update domainId (\<lambda>r. wr_teamId r = teamId \<and> wr_status r = Warming)
       (\<lambda>r. r\<lparr>wr_status := WPaused, wr_pausedAt := Some now, wr_pauseSignals := None\<rparr>) db"

definition resumeWarmup :: "ident \<Rightarrow> ident \<Rightarrow> instant \<Rightarrow> ramp_db \<Rightarrow> ramp_db \<times> bool" where
  "resumeWarmup teamId domainId now db =
     (case getWarmup db teamId domainId of
        None \<Rightarrow> (db, False)
      | Some row \<Rightarrow>
          if wr_status row \<noteq> WPaused then (db, False)
          else
            let volume = movedWarmupVolume (wr_volume row) Resume (ws_dailyTarget (wr_settings row)) in
            (case guarded_update domainId (\<lambda>r. wr_teamId r = teamId \<and> wr_status r = WPaused)
                (\<lambda>r. r\<lparr>wr_status := Warming, wr_volume := volume,
                       wr_checkedThrough := Some (yesterdayOf now), wr_pausedAt := None,
                       wr_pauseSignals := None\<rparr>) db of
               (db1, moved) \<Rightarrow> if \<not> moved then (db1, False)
                               else (capToday domainId volume now db1, True)))"

definition turnOffWarmup :: "ident \<Rightarrow> ident \<Rightarrow> ramp_db \<Rightarrow> ramp_db \<times> bool" where
  "turnOffWarmup teamId domainId db =
     guarded_update domainId (\<lambda>r. wr_teamId r = teamId \<and> wr_status r \<noteq> WOff)
       (\<lambda>r. r\<lparr>wr_status := WOff\<rparr>) db"

definition updateWarmupSettings :: "ident \<Rightarrow> ident \<Rightarrow> warmup_settings_input \<Rightarrow> instant \<Rightarrow> ramp_db
    \<Rightarrow> settings_error + ramp_db \<times> bool" where
  "updateWarmupSettings teamId domainId input now db =
     (if teamDomain db teamId domainId = None then Inr (db, False)
      else case mergeSettings (current_settings db teamId domainId now) (Some input) of
             Inl e \<Rightarrow> Inl e
           | Inr s \<Rightarrow>
               (case getWarmup db teamId domainId of
                  None \<Rightarrow>
                    Inr (if map_of (rd_warmups db) domainId = None
                         then db\<lparr>rd_warmups := rd_warmups db @ [(domainId,
                                (fresh_row teamId s now)\<lparr>wr_status := WOff, wr_checkedThrough := None\<rparr>)]\<rparr>
                         else db, True)
                | Some current \<Rightarrow>
                    let volume = (if wr_status current = WOff \<or> wr_sendingDays current = 0
                                  then ws_startVolume s
                                  else min (wr_volume current) (ws_dailyTarget s))
                    in Inr (fst (guarded_update domainId (\<lambda>r. wr_teamId r = teamId)
                              (\<lambda>r. r\<lparr>wr_settings := s, wr_volume := volume\<rparr>) db), True)))"

definition reserveWarmupDay :: "ident \<Rightarrow> int \<Rightarrow> int \<Rightarrow> int \<Rightarrow> ramp_db \<Rightarrow> ramp_db \<times> bool" where
  "reserveWarmupDay domainId day volume n db =
     (if volume < n then (db, False)
      else case map_of (rd_days db) (domainId, day) of
        None \<Rightarrow>
          (db\<lparr>rd_days := rd_days db @ [((domainId, day), \<lparr>dy_allowance = volume, dy_sent = n,
             dy_outcome = None, dy_signals = None, dy_checkedAt = None\<rparr>)]\<rparr>, True)
      | Some r \<Rightarrow>
          if dy_sent r + n \<le> dy_allowance r
          then (db\<lparr>rd_days := update_key (domainId, day)
                    (\<lambda>r. r\<lparr>dy_sent := dy_sent r + n\<rparr>) (rd_days db)\<rparr>, True)
          else (db, False))"

record warmup_release =
  wl_paused :: bool
  wl_ready :: bool
  wl_volume :: int
  wl_slice :: int

definition warmupRelease :: "ramp_db \<Rightarrow> ident \<Rightarrow> ident \<Rightarrow> instant \<Rightarrow> warmup_release option" where
  "warmupRelease db teamId domainId now =
     (case getWarmup db teamId domainId of
        None \<Rightarrow> None
      | Some row \<Rightarrow>
          if wr_status row \<noteq> Warming \<and> wr_status row \<noteq> WPaused then None
          else
            let today = map_of (rd_days db) (domainId, utcDay now)
            in Some \<lparr>wl_paused = (wr_status row = WPaused),
                 wl_ready = (case wr_checkedThrough row of None \<Rightarrow> False | Some d \<Rightarrow> yesterdayOf now \<le> d),
                 wl_volume = wr_volume row,
                 wl_slice = ceil_div (case today of Some t \<Rightarrow> dy_allowance t | None \<Rightarrow> wr_volume row)
                              WARMUP_SLICES_PER_DAY\<rparr>)"

definition planDomainWarmup :: "ramp_db \<Rightarrow> ident \<Rightarrow> ident \<Rightarrow> int \<Rightarrow> ident option \<Rightarrow> instant \<Rightarrow> warmup_plan option" where
  "planDomainWarmup db teamId domainId n broadcastId now =
     (case getWarmup db teamId domainId of
        None \<Rightarrow> None
      | Some row \<Rightarrow>
          if wr_status row \<noteq> Warming \<and> wr_status row \<noteq> WPaused then None
          else Some (planWarmupDays \<lparr>pi_now = now, pi_paused = (wr_status row = WPaused),
                 pi_volume = wr_volume row, pi_dailyTarget = ws_dailyTarget (wr_settings row),
                 pi_today = map_option (\<lambda>t. (utcDay now, dy_allowance t, dy_sent t))
                              (map_of (rd_days db) (domainId, utcDay now)),
                 pi_waitingAhead = waitingCount db teamId domainId broadcastId, pi_count = n\<rparr>))"

section \<open>The day check\<close>

definition count_sends :: "(send_facts \<Rightarrow> bool) \<Rightarrow> send_facts list \<Rightarrow> int" where
  "count_sends P fs = int (length (filter P fs))"

definition side_of :: "(send_facts \<Rightarrow> bool) \<Rightarrow> send_facts list \<Rightarrow> side" where
  "side_of P fs = \<lparr>gmail = count_sends (\<lambda>f. sx_gmail f \<and> P f) fs,
     other = count_sends (\<lambda>f. \<not> sx_gmail f \<and> P f) fs\<rparr>"

definition dayCounts :: "ramp_db \<Rightarrow> ident \<Rightarrow> ident \<Rightarrow> int \<Rightarrow> warmup_day_counts" where
  "dayCounts db teamId domainId day =
     (let fs = map ml_facts (filter (\<lambda>m. ml_teamId m = teamId \<and> ml_domainId m = Some domainId
            \<and> ml_broadcastId m \<noteq> None
            \<and> (case ml_sentAt m of None \<Rightarrow> False | Some s \<Rightarrow> utcDay s = day)) (rd_mails db))
      in \<lparr>dc_sent = side_of (\<lambda>f. True) fs, dc_delayed = side_of sx_delayed fs,
          dc_delivered = side_of (\<lambda>f. sx_delivered f \<and> \<not> sx_clipped f) fs,
          dc_opened = side_of (\<lambda>f. sx_delivered f \<and> sx_opened f \<and> \<not> sx_clipped f) fs,
          dc_hardBounced = side_of sx_hard fs, dc_mailboxFull = side_of sx_mailboxFull fs,
          dc_feedbackDelivered = count_sends (\<lambda>f. sx_feedback f \<and> sx_delivered f) fs,
          dc_complained = count_sends (\<lambda>f. sx_feedback f \<and> sx_complained f) fs\<rparr>)"

record check_state =
  cs_through :: int
  cs_volume :: int
  cs_sendingDays :: int
  cs_lastSent :: int

record day_commit =
  cm_checked :: int
  cm_volume :: int
  cm_sendingDays :: int
  cm_outcome :: warmup_outcome
  cm_signals :: "warmup_signals option"
  cm_sent :: "int option"
  cm_lastSent :: int

text \<open>What the loop body computes before its transaction, from the snapshot \<open>row\<close>.\<close>

definition check_read :: "ident \<Rightarrow> warmup_row \<Rightarrow> bool \<Rightarrow> check_state \<Rightarrow> ramp_db \<Rightarrow> day_commit" where
  "check_read domainId row openTracking s db =
     (let day = cs_through s + 1;
          target = ws_dailyTarget (wr_settings row);
          opened = map_of (rd_days db) (domainId, day)
      in case opened of
           Some o' \<Rightarrow>
             if 0 < dy_sent o' then
               let signals = warmupSignals (dayCounts db (wr_teamId row) domainId day) openTracking;
                   outcome = warmupDayOutcome (sg_result signals) (dy_sent o') (dy_allowance o')
                               (cs_volume s) target
               in \<lparr>cm_checked = cs_through s,
                   cm_volume = (if outcome = Grew then movedWarmupVolume (cs_volume s) Grow target
                     else if outcome = SteppedBack then movedWarmupVolume (cs_volume s) StepBack target
                     else cs_volume s),
                   cm_sendingDays = cs_sendingDays s + 1, cm_outcome = outcome,
                   cm_signals = Some signals, cm_sent = Some (dy_sent o'), cm_lastSent = day\<rparr>
             else
               \<lparr>cm_checked = cs_through s,
                cm_volume = (if RESTART_AFTER_IDLE_DAYS \<le> day - cs_lastSent s
                  then ws_startVolume (wr_settings row) else cs_volume s),
                cm_sendingDays = cs_sendingDays s, cm_outcome = Idle, cm_signals = None,
                cm_sent = Some (dy_sent o'), cm_lastSent = cs_lastSent s\<rparr>
         | None \<Rightarrow>
             \<lparr>cm_checked = cs_through s,
              cm_volume = (if RESTART_AFTER_IDLE_DAYS \<le> day - cs_lastSent s
                then ws_startVolume (wr_settings row) else cs_volume s),
              cm_sendingDays = cs_sendingDays s, cm_outcome = Idle, cm_signals = None,
              cm_sent = None, cm_lastSent = cs_lastSent s\<rparr>)"

definition commit_row :: "day_commit \<Rightarrow> instant \<Rightarrow> warmup_row \<Rightarrow> warmup_row" where
  "commit_row c now r =
     (let r1 = r\<lparr>wr_volume := cm_volume c, wr_sendingDays := cm_sendingDays c,
                 wr_checkedThrough := Some (cm_checked c + 1)\<rparr>
      in if cm_outcome c = PausedDay
         then r1\<lparr>wr_status := WPaused, wr_pausedAt := Some now, wr_pauseSignals := cm_signals c\<rparr>
         else if cm_outcome c = DoneDay then r1\<lparr>wr_status := WDone, wr_doneAt := Some now\<rparr> else r1)"

text \<open>The transaction of one day, guarded on the day checked before it.\<close>

definition check_commit :: "ident \<Rightarrow> day_commit \<Rightarrow> instant \<Rightarrow> ramp_db \<Rightarrow> ramp_db \<times> bool" where
  "check_commit domainId c now db =
     (case guarded_update domainId
         (\<lambda>r. wr_status r = Warming \<and> wr_checkedThrough r = Some (cm_checked c)) (commit_row c now) db of
        (db1, hit) \<Rightarrow>
          if \<not> hit then (db1, False)
          else if cm_sent c = None then (db1, True)
          else (db1\<lparr>rd_days := update_key (domainId, cm_checked c + 1)
                 (\<lambda>d. d\<lparr>dy_outcome := Some (cm_outcome c), dy_signals := cm_signals c,
                        dy_checkedAt := Some now\<rparr>) (rd_days db1)\<rparr>, True))"

datatype warmup_event =
  WarmupPaused ident ident string instant warmup_signals int
| WarmupDone ident ident string instant int

definition check_event :: "ident \<Rightarrow> warmup_row \<Rightarrow> string \<Rightarrow> day_commit \<Rightarrow> instant \<Rightarrow> ramp_db \<Rightarrow> warmup_event option" where
  "check_event domainId row name c now db =
     (case cm_outcome c of
        PausedDay \<Rightarrow> map_option (\<lambda>g. WarmupPaused (wr_teamId row) domainId name now g
                       (waitingCount db (wr_teamId row) domainId None)) (cm_signals c)
      | DoneDay \<Rightarrow> map_option (WarmupDone (wr_teamId row) domainId name (wr_startedAt row)) (cm_sent c)
      | _ \<Rightarrow> None)"

function check_loop :: "ident \<Rightarrow> warmup_row \<Rightarrow> string \<Rightarrow> bool \<Rightarrow> int \<Rightarrow> instant \<Rightarrow> check_state
    \<Rightarrow> ramp_db \<Rightarrow> ramp_db \<times> warmup_event option" where
  "check_loop domainId row name openTracking yesterday now s db =
     (if \<not> cs_through s < yesterday then (db, None)
      else
        let c = check_read domainId row openTracking s db in
        (case check_commit domainId c now db of
           (db1, moved) \<Rightarrow>
             if \<not> moved then (db1, None)
             else (case check_event domainId row name c now db1 of
                Some e \<Rightarrow> (db1, Some e)
              | None \<Rightarrow> check_loop domainId row name openTracking yesterday now
                  \<lparr>cs_through = cs_through s + 1, cs_volume = cm_volume c,
                   cs_sendingDays = cm_sendingDays c, cs_lastSent = cm_lastSent c\<rparr> db1)))"
  by pat_completeness auto

termination
  by (relation "measure (\<lambda>(d, r, n, t, yesterday, now, s, db). nat (yesterday - cs_through s))") auto

declare check_loop.simps [simp del]

definition last_sent_day :: "ident \<Rightarrow> ramp_db \<Rightarrow> int option" where
  "last_sent_day domainId db =
     (case map (\<lambda>((_, day), _). day) (filter (\<lambda>((i, _), r). i = domainId \<and> 0 < dy_sent r) (rd_days db)) of
        [] \<Rightarrow> None | d # ds \<Rightarrow> Some (fold max ds d))"

definition checkWarmup :: "ident \<Rightarrow> warmup_row \<Rightarrow> string \<Rightarrow> bool \<Rightarrow> int \<Rightarrow> instant \<Rightarrow> ramp_db
    \<Rightarrow> ramp_db \<times> warmup_event option" where
  "checkWarmup domainId row name openTracking yesterday now db =
     check_loop domainId row name openTracking yesterday now
       \<lparr>cs_through = given (wr_checkedThrough row) yesterday, cs_volume = wr_volume row,
        cs_sendingDays = wr_sendingDays row,
        cs_lastSent = given (last_sent_day domainId db) (utcDay (wr_startedAt row))\<rparr> db"

definition check_due :: "int \<Rightarrow> warmup_row \<Rightarrow> bool" where
  "check_due yesterday r \<longleftrightarrow> wr_status r = Warming
     \<and> (case wr_checkedThrough r of None \<Rightarrow> False | Some d \<Rightarrow> d < yesterday)"

fun check_rows :: "(ident \<times> warmup_row \<times> ramp_domain) list \<Rightarrow> int \<Rightarrow> instant \<Rightarrow> ramp_db
    \<Rightarrow> ramp_db \<times> warmup_event list" where
  "check_rows [] yesterday now db = (db, [])"
| "check_rows ((i, row, d) # rows) yesterday now db =
     (case checkWarmup i row (rn_name d) (rn_openTracking d) yesterday now db of
        (db1, e) \<Rightarrow> (case check_rows rows yesterday now db1 of
           (db2, es) \<Rightarrow> (db2, (case e of Some x \<Rightarrow> x # es | None \<Rightarrow> es))))"

definition due_rows :: "int \<Rightarrow> ramp_db \<Rightarrow> (ident \<times> warmup_row \<times> ramp_domain) list" where
  "due_rows yesterday db =
     concat (map (\<lambda>(i, row). case map_of (rd_domains db) i of
         Some d \<Rightarrow> if check_due yesterday row then [(i, row, d)] else [] | None \<Rightarrow> []) (rd_warmups db))"

definition checkWarmups :: "instant \<Rightarrow> ramp_db \<Rightarrow> ramp_db \<times> warmup_event list" where
  "checkWarmups now db = check_rows (due_rows (yesterdayOf now) db) (yesterdayOf now) now db"

section \<open>Lemmas\<close>

lemma map_of_update_key:
  "map_of (update_key k f rows) j = (if j = k then map_option f (map_of rows k) else map_of rows j)"
  by (induction rows) (auto simp: update_key_def update_rows_def)

lemma keys_update_key [simp]: "map fst (update_key k f rows) = map fst rows"
  by (auto simp: update_key_def intro!: map_update_rows)

lemma map_of_snoc: "map_of rows k = None \<Longrightarrow> map_of (rows @ [(k, v)]) j = (if j = k then Some v else map_of rows j)"
  by (simp add: map_add_def split: option.split)

definition settings_ok :: "warmup_settings \<Rightarrow> bool" where
  "settings_ok s \<longleftrightarrow> 1000 \<le> ws_dailyTarget s \<and> ws_dailyTarget s \<le> 10000000
     \<and> 100 \<le> ws_startVolume s \<and> ws_startVolume s \<le> ws_dailyTarget s"

definition row_ok :: "warmup_row \<Rightarrow> bool" where
  "row_ok r \<longleftrightarrow> settings_ok (wr_settings r)
     \<and> 100 \<le> wr_volume r \<and> wr_volume r \<le> ws_dailyTarget (wr_settings r)
     \<and> (wr_status r = Warming \<longrightarrow> wr_checkedThrough r \<noteq> None)
     \<and> (wr_status r = WPaused \<longrightarrow> wr_pausedAt r \<noteq> None)
     \<and> (wr_status r = WDone \<longrightarrow> wr_doneAt r \<noteq> None)"

definition ramp_inv :: "ramp_db \<Rightarrow> bool" where
  "ramp_inv db \<longleftrightarrow> distinct (map fst (rd_warmups db))
     \<and> (\<forall>i r. map_of (rd_warmups db) i = Some r \<longrightarrow> row_ok r)
     \<and> (\<forall>k d. map_of (rd_days db) k = Some d \<longrightarrow> 0 \<le> dy_sent d \<and> dy_sent d \<le> dy_allowance d)"

lemma mergeSettings_ok: "mergeSettings base input = Inr s \<Longrightarrow> settings_ok s"
proof -
  assume m: "mergeSettings base input = Inr s"
  define target where "target = given (Option.bind input wi_dailyTarget) (of_int (ws_dailyTarget base))"
  define start where "start = given (Option.bind input wi_startVolume) (of_int (ws_startVolume base))"
  have s: "ws_dailyTarget s = \<lfloor>target\<rfloor>" "ws_startVolume s = \<lfloor>start\<rfloor>" and
    w: "within_limits target DAILY_TARGET_LIMITS" "within_limits start START_VOLUME_LIMITS" "start \<le> target"
    using m by (auto simp: mergeSettings_def Let_def target_def start_def not_less split: if_splits)
  have "1000 \<le> \<lfloor>target\<rfloor>" "\<lfloor>target\<rfloor> \<le> 10000000" "100 \<le> \<lfloor>start\<rfloor>" "\<lfloor>start\<rfloor> \<le> \<lfloor>target\<rfloor>"
    using w floor_mono [of start target]
    by (auto simp: within_limits_def warmup_limits le_floor_iff floor_le_iff)
  then show ?thesis by (simp add: settings_ok_def s)
qed

lemma guarded_update_inv:
  assumes "ramp_inv db" and "guarded_update i P f db = (db', b)"
    and "\<And>r. map_of (rd_warmups db) i = Some r \<Longrightarrow> P r \<Longrightarrow> row_ok r \<Longrightarrow> row_ok (f r)"
  shows "ramp_inv db'"
  using assms
  by (auto simp: guarded_update_def ramp_inv_def map_of_update_key split: option.splits if_splits)

lemma capToday_inv: "ramp_inv db \<Longrightarrow> ramp_inv (capToday i v now db)"
  by (fastforce simp: capToday_def ramp_inv_def map_of_update_key split: if_splits)

lemma stamp_tables [simp]:
  "rd_warmups (stampStoredEngagement t db) = rd_warmups db" "rd_days (stampStoredEngagement t db) = rd_days db"
  "rd_domains (stampStoredEngagement t db) = rd_domains db"
  by (simp_all add: stampStoredEngagement_def Let_def)

lemma stamp_inv: "ramp_inv (stampStoredEngagement t db) \<longleftrightarrow> ramp_inv db"
  by (simp add: ramp_inv_def)

lemma put_fresh_inv:
  assumes "ramp_inv db" "row_ok fresh"
  shows "ramp_inv (put_fresh i fresh db)"
proof (cases "map_of (rd_warmups db) i")
  case None
  have e: "put_fresh i fresh db = db\<lparr>rd_warmups := rd_warmups db @ [(i, fresh)]\<rparr>"
    using None by (simp add: put_fresh_def)
  have "i \<notin> fst ` set (rd_warmups db)" using None by (simp add: map_of_eq_None_iff)
  then have "distinct (map fst (rd_warmups db @ [(i, fresh)]))" using assms(1) by (simp add: ramp_inv_def)
  moreover have "map_of (rd_warmups db) j = Some r \<Longrightarrow> row_ok r" for j r
    using assms(1) unfolding ramp_inv_def by blast
  then have "map_of (rd_warmups db @ [(i, fresh)]) j = Some r \<Longrightarrow> row_ok r" for j r
    unfolding map_of_snoc [OF None] using assms(2) by (auto split: if_splits)
  ultimately show ?thesis using assms(1) unfolding e ramp_inv_def by simp
next
  case (Some r)
  obtain db1 h where g: "guarded_update i (\<lambda>r. wr_teamId r = wr_teamId fresh) (\<lambda>_. fresh) db = (db1, h)"
    by fastforce
  have "ramp_inv db1" by (rule guarded_update_inv [OF assms(1) g]) (rule assms(2))
  then show ?thesis using Some g assms(1) by (auto simp: put_fresh_def guarded_update_def split: if_splits)
qed

lemma fresh_row_ok: "settings_ok s \<Longrightarrow> row_ok (fresh_row t s now)"
  by (simp add: row_ok_def fresh_row_def settings_ok_def)

lemma enableWarmup_inv:
  assumes "ramp_inv db" "enableWarmup t i settings now db = Inr (db', b)"
  shows "ramp_inv db'"
  using assms
  by (auto simp: enableWarmup_def stamp_inv split: if_splits sum.splits
      intro!: capToday_inv put_fresh_inv fresh_row_ok dest!: mergeSettings_ok)

lemma getWarmup_SomeD: "getWarmup db t i = Some r \<Longrightarrow> map_of (rd_warmups db) i = Some r \<and> wr_teamId r = t"
  by (auto simp: getWarmup_def split: option.splits if_splits)

lemma resumeWarmup_inv:
  assumes "ramp_inv db" "resumeWarmup t i now db = (db', b)"
  shows "ramp_inv db'"
proof (cases "\<exists>row. getWarmup db t i = Some row \<and> wr_status row = WPaused")
  case True
  then obtain row where row: "getWarmup db t i = Some row" "wr_status row = WPaused" by blast
  note m = getWarmup_SomeD [OF row(1)]
  define v where "v = movedWarmupVolume (wr_volume row) Resume (ws_dailyTarget (wr_settings row))"
  have v: "100 \<le> v \<and> v \<le> ws_dailyTarget (wr_settings row)"
    using assms(1) m moved_bounds [of "wr_volume row" "ws_dailyTarget (wr_settings row)" Resume]
    by (auto simp: ramp_inv_def row_ok_def v_def)
  obtain db1 moved where g: "guarded_update i (\<lambda>r. wr_teamId r = t \<and> wr_status r = WPaused)
      (\<lambda>r. r\<lparr>wr_status := Warming, wr_volume := v, wr_checkedThrough := Some (yesterdayOf now),
            wr_pausedAt := None, wr_pauseSignals := None\<rparr>) db = (db1, moved)" by fastforce
  have "ramp_inv db1"
    by (rule guarded_update_inv [OF assms(1) g]) (use m v in \<open>auto simp: row_ok_def\<close>)
  then show ?thesis using assms(1,2) row g capToday_inv
    by (auto simp: resumeWarmup_def Let_def v_def split: if_splits)
next
  case False
  then show ?thesis using assms by (auto simp: resumeWarmup_def split: option.splits)
qed

lemma updateWarmupSettings_inv:
  assumes "ramp_inv db" "updateWarmupSettings t i inp now db = Inr (db', b)"
  shows "ramp_inv db'"
proof (cases "teamDomain db t i = None")
  case False
  then obtain s where s: "mergeSettings (current_settings db t i now) (Some inp) = Inr s"
    using assms(2) by (auto simp: updateWarmupSettings_def split: sum.splits)
  note ok = mergeSettings_ok [OF s]
  show ?thesis
  proof (cases "getWarmup db t i")
    case None
    have "row_ok ((fresh_row t s now)\<lparr>wr_status := WOff, wr_checkedThrough := None\<rparr>)"
      using ok by (simp add: row_ok_def fresh_row_def settings_ok_def)
    then show ?thesis using assms None s False
      by (auto simp: updateWarmupSettings_def ramp_inv_def map_of_snoc map_of_eq_None_iff split: if_splits)
  next
    case (Some cur)
    define v where "v = (if wr_status cur = WOff \<or> wr_sendingDays cur = 0 then ws_startVolume s
                  else min (wr_volume cur) (ws_dailyTarget s))"
    have "row_ok cur" using assms(1) getWarmup_SomeD [OF Some] by (auto simp: ramp_inv_def)
    then have v: "100 \<le> v" "v \<le> ws_dailyTarget s" using ok by (auto simp: v_def settings_ok_def row_ok_def)
    obtain db1 h where g: "guarded_update i (\<lambda>r. wr_teamId r = t)
        (\<lambda>r. r\<lparr>wr_settings := s, wr_volume := v\<rparr>) db = (db1, h)" by fastforce
    have "ramp_inv db1"
      by (rule guarded_update_inv [OF assms(1) g]) (use ok v in \<open>auto simp: row_ok_def\<close>)
    then show ?thesis using assms(2) False s Some g
      by (simp add: updateWarmupSettings_def Let_def v_def)
  qed
qed (use assms in \<open>simp add: updateWarmupSettings_def\<close>)

lemma reserveWarmupDay_inv:
  assumes "ramp_inv db" "0 \<le> n" "reserveWarmupDay i day v n db = (db', b)"
  shows "ramp_inv db'"
  using assms
  by (fastforce simp: reserveWarmupDay_def ramp_inv_def map_of_update_key map_of_snoc
      split: option.splits if_splits)

section \<open>Lemmas on the day check\<close>

lemma check_read_volume:
  assumes "settings_ok (wr_settings row)" "100 \<le> cs_volume s" "cs_volume s \<le> ws_dailyTarget (wr_settings row)"
  shows "100 \<le> cm_volume (check_read i row ot s db)
    \<and> cm_volume (check_read i row ot s db) \<le> ws_dailyTarget (wr_settings row)"
  using moved_bounds [OF assms(2,3)] assms
  by (auto simp: check_read_def Let_def settings_ok_def split: option.split)

lemma check_read_fields:
  "cm_checked (check_read i row ot s db) = cs_through s"
  "cm_outcome (check_read i row ot s db) \<in> {PausedDay, DoneDay} \<Longrightarrow>
     cm_signals (check_read i row ot s db) \<noteq> None \<and> cm_sent (check_read i row ot s db) \<noteq> None"
  by (auto simp: check_read_def Let_def split: option.splits if_splits)

text \<open>The snapshot still describes the stored row: same settings, warming, checked through the loop's day.\<close>

definition in_step :: "ident \<Rightarrow> warmup_row \<Rightarrow> int \<Rightarrow> ramp_db \<Rightarrow> bool" where
  "in_step i row through db \<longleftrightarrow> (\<exists>r. map_of (rd_warmups db) i = Some r \<and> wr_settings r = wr_settings row
     \<and> wr_status r = Warming \<and> wr_checkedThrough r = Some through)"

text \<open>What a commit may change: the domain's own warm-up row and its days' verdicts.\<close>

definition only_domain :: "ident \<Rightarrow> ramp_db \<Rightarrow> ramp_db \<Rightarrow> bool" where
  "only_domain i db db' \<longleftrightarrow> rd_domains db' = rd_domains db \<and> map fst (rd_warmups db') = map fst (rd_warmups db)
     \<and> (\<forall>j. j \<noteq> i \<longrightarrow> map_of (rd_warmups db') j = map_of (rd_warmups db) j)"

lemma only_domain_refl [simp]: "only_domain i db db"
  by (simp add: only_domain_def)

lemma only_domain_trans: "only_domain i a b \<Longrightarrow> only_domain i b c \<Longrightarrow> only_domain i a c"
  by (simp add: only_domain_def)

lemma check_commit_spec:
  assumes "check_commit i c now db = (db', b)" "ramp_inv db"
    and "\<And>r. map_of (rd_warmups db) i = Some r \<Longrightarrow> wr_checkedThrough r = Some (cm_checked c) \<Longrightarrow>
           100 \<le> cm_volume c \<and> cm_volume c \<le> ws_dailyTarget (wr_settings r)"
  shows "ramp_inv db' \<and> only_domain i db db'
    \<and> (b \<longleftrightarrow> (\<exists>r. map_of (rd_warmups db) i = Some r \<and> wr_status r = Warming
              \<and> wr_checkedThrough r = Some (cm_checked c)))
    \<and> (b \<longrightarrow> (\<exists>r. map_of (rd_warmups db) i = Some r
              \<and> map_of (rd_warmups db') i = Some (commit_row c now r)))"
proof -
  obtain db1 hit where g: "guarded_update i
      (\<lambda>r. wr_status r = Warming \<and> wr_checkedThrough r = Some (cm_checked c)) (commit_row c now) db = (db1, hit)"
    by fastforce
  have inv1: "ramp_inv db1"
  proof (rule guarded_update_inv [OF assms(2) g])
    fix r assume "map_of (rd_warmups db) i = Some r" "row_ok r"
      "wr_status r = Warming \<and> wr_checkedThrough r = Some (cm_checked c)"
    then show "row_ok (commit_row c now r)" using assms(3) by (simp add: row_ok_def commit_row_def Let_def)
  qed
  have d: "ramp_inv (db1\<lparr>rd_days := update_key k (\<lambda>d. d\<lparr>dy_outcome := x, dy_signals := y, dy_checkedAt := z\<rparr>)
      (rd_days db1)\<rparr>)" for k x y z
    using inv1 by (auto simp: ramp_inv_def map_of_update_key split: if_splits)
  have o: "only_domain i db db1" "hit \<longleftrightarrow> (\<exists>r. map_of (rd_warmups db) i = Some r \<and> wr_status r = Warming
              \<and> wr_checkedThrough r = Some (cm_checked c))"
    "hit \<longrightarrow> (\<exists>r. map_of (rd_warmups db) i = Some r \<and> map_of (rd_warmups db1) i = Some (commit_row c now r))"
    using g by (auto simp: guarded_update_def only_domain_def map_of_update_key split: option.splits if_splits)
  have db': "b = hit" "db' = db1 \<or> db' = db1\<lparr>rd_days := update_key (i, cm_checked c + 1)
       (\<lambda>d. d\<lparr>dy_outcome := Some (cm_outcome c), dy_signals := cm_signals c, dy_checkedAt := Some now\<rparr>)
       (rd_days db1)\<rparr>"
    using assms(1) g by (auto simp: check_commit_def split: if_splits)
  then have "ramp_inv db'" "rd_warmups db' = rd_warmups db1" "rd_domains db' = rd_domains db1"
    using inv1 d by auto
  then show ?thesis using o db'(1) by (simp add: only_domain_def)
qed

lemma commit_row_fields:
  "wr_settings (commit_row c now r) = wr_settings r"
  "wr_checkedThrough (commit_row c now r) = Some (cm_checked c + 1)"
  "wr_status (commit_row c now r) = (if cm_outcome c = PausedDay then WPaused
     else if cm_outcome c = DoneDay then WDone else wr_status r)"
  by (simp_all add: commit_row_def Let_def)

lemma check_loop_spec:
  "ramp_inv db \<Longrightarrow> settings_ok (wr_settings row) \<Longrightarrow> in_step i row (cs_through s) db \<Longrightarrow>
   100 \<le> cs_volume s \<Longrightarrow> cs_volume s \<le> ws_dailyTarget (wr_settings row) \<Longrightarrow>
   check_loop i row name ot yesterday now s db = (db', e) \<Longrightarrow>
     ramp_inv db' \<and> only_domain i db db'
     \<and> (\<exists>r. map_of (rd_warmups db') i = Some r \<and> \<not> check_due yesterday r)"
proof (induction i row name ot yesterday now s db rule: check_loop.induct)
  case (1 i row name ot yesterday now s db)
  show ?case
  proof (cases "cs_through s < yesterday")
    case False
    then show ?thesis using "1.prems"
      by (auto simp: check_loop.simps [of i row name ot yesterday now s db] in_step_def check_due_def)
  next
    case True
    define c where "c = check_read i row ot s db"
    obtain db1 moved where C: "check_commit i c now db = (db1, moved)" by fastforce
    have cc: "cm_checked c = cs_through s" by (simp add: c_def check_read_fields)
    have cv: "100 \<le> cm_volume c \<and> cm_volume c \<le> ws_dailyTarget (wr_settings row)"
      using check_read_volume [OF "1.prems"(2,4,5)] by (simp add: c_def)
    from "1.prems"(3) obtain r where r: "map_of (rd_warmups db) i = Some r" "wr_settings r = wr_settings row"
      "wr_status r = Warming" "wr_checkedThrough r = Some (cs_through s)" by (auto simp: in_step_def)
    note S = check_commit_spec [OF C "1.prems"(1)]
    have S: "ramp_inv db1" "only_domain i db db1" moved "map_of (rd_warmups db1) i = Some (commit_row c now r)"
      using S cv r cc by auto
    define s' where "s' = \<lparr>cs_through = cs_through s + 1, cs_volume = cm_volume c,
        cs_sendingDays = cm_sendingDays c, cs_lastSent = cm_lastSent c\<rparr>"
    have L: "check_loop i row name ot yesterday now s db =
        (case check_event i row name c now db1 of Some e \<Rightarrow> (db1, Some e)
         | None \<Rightarrow> check_loop i row name ot yesterday now s' db1)"
      using True C S(3) unfolding check_loop.simps [of i row name ot yesterday now s db] s'_def
      by (simp add: Let_def c_def [symmetric])
    show ?thesis
    proof (cases "check_event i row name c now db1")
      case (Some ev)
      then have "cm_outcome c = PausedDay \<or> cm_outcome c = DoneDay"
        by (auto simp: check_event_def split: warmup_outcome.splits)
      then have "\<not> check_due yesterday (commit_row c now r)"
        by (auto simp: check_due_def commit_row_fields)
      then show ?thesis using Some L S "1.prems"(6) by auto
    next
      case None
      then have "cm_outcome c \<noteq> PausedDay \<and> cm_outcome c \<noteq> DoneDay"
        using check_read_fields(2) [of i row ot s db]
        by (auto simp: check_event_def c_def [symmetric])
      then have "in_step i row (cs_through s') db1"
        using S(4) r cc by (simp add: in_step_def commit_row_fields s'_def)
      then have "ramp_inv db' \<and> only_domain i db1 db'
        \<and> (\<exists>r. map_of (rd_warmups db') i = Some r \<and> \<not> check_due yesterday r)"
        using "1.IH" [of c db1 moved] True C S(1,3) None "1.prems"(2,6) cv L
        by (simp add: c_def s'_def)
      then show ?thesis using S(2) only_domain_trans by blast
    qed
  qed
qed

lemma check_rows_spec:
  "ramp_inv db \<Longrightarrow> distinct (map fst rows) \<Longrightarrow>
   (\<And>i row d. (i, row, d) \<in> set rows \<Longrightarrow> map_of (rd_warmups db) i = Some row \<and> check_due yesterday row) \<Longrightarrow>
   check_rows rows yesterday now db = (db', es) \<Longrightarrow>
     ramp_inv db' \<and> rd_domains db' = rd_domains db
     \<and> map fst (rd_warmups db') = map fst (rd_warmups db)
     \<and> (\<forall>j. j \<notin> fst ` set rows \<longrightarrow> map_of (rd_warmups db') j = map_of (rd_warmups db) j)
     \<and> (\<forall>j \<in> fst ` set rows. \<exists>r. map_of (rd_warmups db') j = Some r \<and> \<not> check_due yesterday r)"
proof (induction rows yesterday now db arbitrary: db' es rule: check_rows.induct)
  case (1 yesterday now db)
  then show ?case by simp
next
  case (2 i row d rows yesterday now db)
  obtain db1 e where C: "checkWarmup i row (rn_name d) (rn_openTracking d) yesterday now db = (db1, e)" by fastforce
  obtain db2 fs where R: "check_rows rows yesterday now db1 = (db2, fs)" by fastforce
  have db': "db' = db2" using "2.prems"(4) C R by simp
  have row: "map_of (rd_warmups db) i = Some row" "check_due yesterday row"
    using "2.prems"(3) [of i row d] by auto
  then have ok: "row_ok row" using "2.prems"(1) by (simp add: ramp_inv_def)
  from row(2) obtain t where t: "wr_status row = Warming" "wr_checkedThrough row = Some t"
    by (auto simp: check_due_def split: option.splits)
  define s where "s = \<lparr>cs_through = t, cs_volume = wr_volume row, cs_sendingDays = wr_sendingDays row,
      cs_lastSent = given (last_sent_day i db) (utcDay (wr_startedAt row))\<rparr>"
  have L: "check_loop i row (rn_name d) (rn_openTracking d) yesterday now s db = (db1, e)"
    using C t(2) by (simp add: checkWarmup_def s_def given_def)
  have S: "ramp_inv db1" "only_domain i db db1"
    "\<exists>r. map_of (rd_warmups db1) i = Some r \<and> \<not> check_due yesterday r"
    using check_loop_spec [OF "2.prems"(1) _ _ _ _ L] ok row(1) t
    by (auto simp: row_ok_def in_step_def s_def)
  have new: "i \<notin> fst ` set rows" "distinct (map fst rows)" using "2.prems"(2) by auto
  have keep: "map_of (rd_warmups db1) j = Some r \<and> check_due yesterday r" if m: "(j, r, x) \<in> set rows" for j r x
  proof -
    have "j \<noteq> i" using new(1) m by force
    then show ?thesis using "2.prems"(3) [of j r x] m S(2) by (simp add: only_domain_def)
  qed
  from "2.IH" [OF C [symmetric] S(1) new(2) keep R]
  show ?case using S(2,3) new(1) by (auto simp: db' only_domain_def)
qed

lemma due_rows_keys:
  assumes "distinct (map fst (rd_warmups db))"
  shows "distinct (map fst (due_rows y db))"
    and "(i, row, d) \<in> set (due_rows y db) \<longleftrightarrow>
      map_of (rd_warmups db) i = Some row \<and> map_of (rd_domains db) i = Some d \<and> check_due y row"
proof -
  have m: "map fst (concat (map (\<lambda>(i, row). case map_of D i of Some d \<Rightarrow> if check_due y row then [(i, row, d)] else []
      | None \<Rightarrow> []) rows)) = map fst (filter (\<lambda>(i, row). map_of D i \<noteq> None \<and> check_due y row) rows)" for D rows
    by (induction rows) (auto split: option.splits if_splits)
  show "distinct (map fst (due_rows y db))"
    unfolding due_rows_def m using assms distinct_map_filter by blast
  have k: "map_of (rd_warmups db) i = Some row \<longleftrightarrow> (i, row) \<in> set (rd_warmups db)"
    using assms by simp
  show "(i, row, d) \<in> set (due_rows y db) \<longleftrightarrow>
      map_of (rd_warmups db) i = Some row \<and> map_of (rd_domains db) i = Some d \<and> check_due y row"
    unfolding k by (auto simp: due_rows_def split: option.splits if_splits)
qed

lemma checkWarmups_spec:
  assumes "ramp_inv db" "checkWarmups now db = (db', es)"
  shows "ramp_inv db' \<and> due_rows (yesterdayOf now) db' = []"
proof -
  let ?y = "yesterdayOf now"
  have dist: "distinct (map fst (rd_warmups db))" using assms(1) by (simp add: ramp_inv_def)
  note K = due_rows_keys [OF dist]
  have R: "check_rows (due_rows ?y db) ?y now db = (db', es)" using assms(2) by (simp add: checkWarmups_def)
  have S: "ramp_inv db' \<and> rd_domains db' = rd_domains db
     \<and> map fst (rd_warmups db') = map fst (rd_warmups db)
     \<and> (\<forall>j. j \<notin> fst ` set (due_rows ?y db) \<longrightarrow> map_of (rd_warmups db') j = map_of (rd_warmups db) j)
     \<and> (\<forall>j \<in> fst ` set (due_rows ?y db). \<exists>r. map_of (rd_warmups db') j = Some r \<and> \<not> check_due ?y r)"
    by (rule check_rows_spec [OF assms(1) K(1) _ R]) (simp add: K(2))
  then have dist': "distinct (map fst (rd_warmups db'))" using dist by simp
  have "(i, row, d) \<notin> set (due_rows ?y db')" for i row d
  proof
    assume "(i, row, d) \<in> set (due_rows ?y db')"
    then have D: "map_of (rd_warmups db') i = Some row" "map_of (rd_domains db) i = Some d" "check_due ?y row"
      using due_rows_keys(2) [OF dist'] S by auto
    show False
    proof (cases "i \<in> fst ` set (due_rows ?y db)")
      case True
      then show False using S D by force
    next
      case False
      then have "map_of (rd_warmups db) i = Some row" using S D(1) by simp
      then have "(i, row, d) \<in> set (due_rows ?y db)" using D K(2) by blast
      then show False using False by force
    qed
  qed
  then have "due_rows ?y db' = []" by (metis list.set_intros(1) neq_Nil_conv prod_cases3)
  then show ?thesis using S by simp
qed

lemma guarded_update_missed: "guarded_update i P f db = (db', False) \<Longrightarrow> db' = db"
  by (auto simp: guarded_update_def split: option.splits if_splits)

lemma check_commit_refused:
  assumes "\<And>r. map_of (rd_warmups db) i = Some r \<Longrightarrow>
    \<not> (wr_status r = Warming \<and> wr_checkedThrough r = Some (cm_checked c))"
  shows "check_commit i c now db = (db, False)"
  using assms by (auto simp: check_commit_def guarded_update_def split: option.split)

lemma check_commit_row:
  assumes "check_commit i c now db = (db', True)"
  shows "\<exists>r. map_of (rd_warmups db') i = Some (commit_row c now r)"
  using assms
  by (auto simp: check_commit_def guarded_update_def map_of_update_key split: option.splits if_splits)

section \<open>Steps of the system\<close>

text \<open>
  What may happen to the tables: the operations above, the reservation of sends, the day check,
  and anything that leaves the warm-up rows and their days alone (mail, contacts, broadcasts).
\<close>

inductive ramp_step :: "ramp_db \<Rightarrow> ramp_db \<Rightarrow> bool" where
  enable: "enableWarmup t i st now db = Inr (db', b) \<Longrightarrow> ramp_step db db'"
| pause: "pauseWarmup t i now db = (db', b) \<Longrightarrow> ramp_step db db'"
| resume: "resumeWarmup t i now db = (db', b) \<Longrightarrow> ramp_step db db'"
| turn_off: "turnOffWarmup t i db = (db', b) \<Longrightarrow> ramp_step db db'"
| settings: "updateWarmupSettings t i inp now db = Inr (db', b) \<Longrightarrow> ramp_step db db'"
| reserve: "0 \<le> n \<Longrightarrow> reserveWarmupDay i day v n db = (db', b) \<Longrightarrow> ramp_step db db'"
| check: "checkWarmups now db = (db', es) \<Longrightarrow> ramp_step db db'"
| other: "rd_warmups db' = rd_warmups db \<Longrightarrow> rd_days db' = rd_days db \<Longrightarrow> ramp_step db db'"

inductive ramp_reachable :: "ramp_db \<Rightarrow> bool" where
  start: "rd_warmups db = [] \<Longrightarrow> rd_days db = [] \<Longrightarrow> ramp_reachable db"
| step: "ramp_reachable db \<Longrightarrow> ramp_step db db' \<Longrightarrow> ramp_reachable db'"

lemma pauseWarmup_inv: "ramp_inv db \<Longrightarrow> pauseWarmup t i now db = (db', b) \<Longrightarrow> ramp_inv db'"
  unfolding pauseWarmup_def by (erule (1) guarded_update_inv) (auto simp: row_ok_def)

lemma turnOffWarmup_inv: "ramp_inv db \<Longrightarrow> turnOffWarmup t i db = (db', b) \<Longrightarrow> ramp_inv db'"
  unfolding turnOffWarmup_def by (erule (1) guarded_update_inv) (auto simp: row_ok_def)

lemma ramp_step_inv: "ramp_step db db' \<Longrightarrow> ramp_inv db \<Longrightarrow> ramp_inv db'"
proof (induction rule: ramp_step.induct)
  case (other db' db)
  then show ?case by (simp add: ramp_inv_def)
qed (blast intro: enableWarmup_inv pauseWarmup_inv resumeWarmup_inv turnOffWarmup_inv
    updateWarmupSettings_inv reserveWarmupDay_inv checkWarmups_spec [THEN conjunct1])+

lemma ramp_reachable_ramp_inv: "ramp_reachable db \<Longrightarrow> ramp_inv db"
proof (induction rule: ramp_reachable.induct)
  case (start db)
  then show ?case by (simp add: ramp_inv_def)
qed (rule ramp_step_inv)

lemma ramp_inv_row: "ramp_inv db \<Longrightarrow> map_of (rd_warmups db) i = Some r \<Longrightarrow> row_ok r"
  unfolding ramp_inv_def by blast

lemma ramp_inv_day:
  "ramp_inv db \<Longrightarrow> map_of (rd_days db) k = Some d \<Longrightarrow> 0 \<le> dy_sent d \<and> dy_sent d \<le> dy_allowance d"
  unfolding ramp_inv_def by blast

section \<open>A demonstration instance\<close>

definition demo_row :: "int \<Rightarrow> int \<Rightarrow> warmup_row" where
  "demo_row volume target = \<lparr>wr_teamId = ''t'',
     wr_settings = \<lparr>ws_dailyTarget = target, ws_startVolume = 1500, ws_orderByEngagement = True,
       ws_orderByTransactional = True, ws_orderProperty = None, ws_skipInactive = False\<rparr>,
     wr_status = Warming, wr_volume = volume, wr_sendingDays = 3, wr_checkedThrough = Some 9,
     wr_startedAt = 0, wr_pausedAt = None, wr_pauseSignals = None, wr_doneAt = None\<rparr>"

definition demo_db :: "(ident \<times> warmup_row) list \<Rightarrow> ramp_db" where
  "demo_db rows = \<lparr>rd_domains = [(''d'', \<lparr>rn_teamId = ''t'', rn_name = ''a.example'', rn_openTracking = False\<rparr>)],
     rd_warmups = rows, rd_days = [], rd_mails = [], rd_contacts = [], rd_broadcasts = []\<rparr>"

definition demo_settings :: warmup_settings_input where
  "demo_settings = \<lparr>wi_dailyTarget = Some 5000, wi_startVolume = Some 1500, wi_orderByEngagement = Some True,
     wi_orderByTransactional = Some True, wi_orderProperty = Some None, wi_skipInactive = Some False\<rparr>"

definition demo_enabled :: ramp_db where
  "demo_enabled = (case enableWarmup ''t'' ''d'' (Some demo_settings) (9 * DAY_MS) (demo_db []) of
     Inl _ \<Rightarrow> demo_db [] | Inr (db, _) \<Rightarrow> db)"

lemmas demo_defs = demo_enabled_def demo_settings_def enableWarmup_def demo_db_def teamDomain_def getWarmup_def
  current_settings_def put_fresh_def stamp_tables capToday_def mergeSettings_def
  given_def Let_def trimmed_def within_limits_def
  warmup_limits

lemma demo_enabled_row: "map_of (rd_warmups demo_enabled) ''d'' \<noteq> None"
  by (simp add: demo_defs)

lemma demo_enabled_reachable: "ramp_reachable demo_enabled"
proof -
  have "ramp_reachable (demo_db [])" by (rule start) (simp_all add: demo_db_def)
  then show ?thesis
    by (auto simp: demo_enabled_def split: sum.split intro: ramp_reachable.step ramp_step.enable)
qed

section \<open>Properties\<close>



text \<open>
  C11: the day check finishes its work. After it ran, no domain is left to check, whatever
  days were open, so running it again at the same time changes nothing and reports nothing.
\<close>

theorem check_leaves_none_due:
  assumes "ramp_reachable db" and "checkWarmups now db = (db', es)"
  shows "checkWarmups now db' = (db', [])"
  using checkWarmups_spec [OF ramp_reachable_ramp_inv [OF assms(1)] assms(2)]
  by (simp add: checkWarmups_def)

theorem check_leaves_none_due_witness:
  "checkWarmups (13 * DAY_MS) (fst (checkWarmups (13 * DAY_MS) demo_enabled))
     = (fst (checkWarmups (13 * DAY_MS) demo_enabled), [])"
  by (rule check_leaves_none_due [OF demo_enabled_reachable, of _ _ "snd (checkWarmups (13 * DAY_MS) demo_enabled)"])
    simp

text \<open>
  A check that read its domain earlier cannot write over what happened since. Its commit
  of a day changes nothing once the domain was paused or turned off, or once another check
  committed that day.
\<close>

theorem late_check_writes_nothing:
  assumes "pauseWarmup t i t0 db = (db1, True) \<or> turnOffWarmup t i db = (db1, True)
    \<or> (check_commit i c' t0 db = (db1, True) \<and> cm_checked c' = cm_checked c)"
  shows "check_commit i c now db1 = (db1, False)"
  using assms
proof (elim disjE conjE)
  assume "pauseWarmup t i t0 db = (db1, True)"
  then show ?thesis
    by (intro check_commit_refused) (auto simp: pauseWarmup_def guarded_update_def
        map_of_update_key split: option.splits if_splits)
next
  assume "turnOffWarmup t i db = (db1, True)"
  then show ?thesis
    by (intro check_commit_refused) (auto simp: turnOffWarmup_def guarded_update_def
        map_of_update_key split: option.splits if_splits)
next
  assume "check_commit i c' t0 db = (db1, True)" "cm_checked c' = cm_checked c"
  with check_commit_row [of i c' t0 db db1] show ?thesis
    by (intro check_commit_refused) (auto simp: commit_row_fields)
qed

theorem late_check_writes_nothing_witness:
  "\<exists>c. check_commit ''d'' c (12 * DAY_MS)
      (fst (pauseWarmup ''t'' ''d'' (11 * DAY_MS) (demo_db [(''d'', demo_row 5000 10000)])))
    = (fst (pauseWarmup ''t'' ''d'' (11 * DAY_MS) (demo_db [(''d'', demo_row 5000 10000)])), False)"
proof -
  have "snd (pauseWarmup ''t'' ''d'' (11 * DAY_MS) (demo_db [(''d'', demo_row 5000 10000)]))"
    by (simp add: pauseWarmup_def guarded_update_def demo_db_def demo_row_def)
  then show ?thesis
    using late_check_writes_nothing [of "''t''" "''d''" "11 * DAY_MS" "demo_db [(''d'', demo_row 5000 10000)]"
        "fst (pauseWarmup ''t'' ''d'' (11 * DAY_MS) (demo_db [(''d'', demo_row 5000 10000)]))"]
    by (simp add: prod_eq_iff)
qed


end
