(* ===== verification/NewDomainLimit.thy ===== *)
theory NewDomainLimit
  imports QuotaProps TeamPlan DomainStatus WarmupRamp
begin

text \<open>
  The new-domain limit of \<open>packages/core/src/domain-warmup.ts\<close> and the requests to lift it
  of \<open>limit-requests.ts\<close> and \<open>limit-rules.ts\<close>. Parameters stand for what the files get
  from elsewhere: \<open>owner\<close> is \<open>ownerDomain\<close> (the public suffix list), \<open>isNew\<close> the
  monitor's standing of the team, the settings a resolved row, \<open>newId\<close> a fresh uuid. Days
  and instants are as in the other theories; a share is a double quotient.
\<close>

section \<open>Tables\<close>

record new_domain =
  nd_teamId :: ident
  nd_name :: string
  nd_status :: domain_status
  nd_registeredAt :: "instant option"
  nd_warmupTier :: "int option"
  nd_warmupTierAt :: "instant option"
  nd_trustedAt :: "instant option"

record limit_team =
  lt_plan :: plan
  lt_trustedAt :: "instant option"

record cap_settings =
  mw_enabled :: bool
  mw_capFirstDay :: int
  mw_capFirstWeek :: int
  mw_capFirstMonth :: int

text \<open>One send with what its events say, and one judged verdict of the content monitor.\<close>

record settled_send =
  st_teamId :: ident
  st_domainId :: "ident option"
  st_sentAt :: "instant option"
  st_delivered :: bool
  st_bounced :: bool
  st_complained :: bool
  st_simulator :: bool

record abuse_verdict =
  av_teamId :: ident
  av_judgedAt :: "instant option"
  av_categories :: "string list option"
  av_reasons :: "string list option"

datatype request_status = ReqOpen | ReqGranted | ReqDeclined

record limit_request =
  lr_id :: ident
  lr_teamId :: ident
  lr_domainId :: ident
  lr_requestedBy :: "ident option"
  lr_sends :: string
  lr_perDay :: int
  lr_source :: string
  lr_note :: "string option"
  lr_status :: request_status
  lr_createdAt :: instant
  lr_resolvedAt :: "instant option"
  lr_resolvedBy :: "string option"

record limit_audit = audit_row +
  la_domainId :: ident
  la_name :: string
  la_perDay :: int
  la_sends :: string
  la_source :: string

record limit_db =
  lb_domains :: "(ident \<times> new_domain) list"
  lb_teams :: "(ident \<times> limit_team) list"
  lb_domainUsage :: "string \<times> int \<rightharpoonup> int"
  lb_teamUsage :: "ident \<times> int \<rightharpoonup> int"
  lb_sends :: "settled_send list"
  lb_verdicts :: "abuse_verdict list"
  lb_requests :: "limit_request list"
  lb_audit :: "limit_audit list"

section \<open>Tiers\<close>

definition WARMUP_TIER_DAYS :: "int list" where "WARMUP_TIER_DAYS = [1, 7, 30]"
definition WARMUP_FULL_TIER :: int where "WARMUP_FULL_TIER = 3"
definition UNKNOWN_AGE_TIER :: int where "UNKNOWN_AGE_TIER = 1"
definition WARMUP_GRADUATION_SENDS :: int where "WARMUP_GRADUATION_SENDS = 50"
definition WARMUP_GRADUATION_MAX_BOUNCE_RATE :: rat where
  "WARMUP_GRADUATION_MAX_BOUNCE_RATE = dbl (2 / 100)"
definition WARMUP_GRADUATION_MAX_COMPLAINT_RATE :: rat where
  "WARMUP_GRADUATION_MAX_COMPLAINT_RATE = dbl (1 / 1000)"
definition WARMUP_GRADUATION_SETTLE_MS :: int where "WARMUP_GRADUATION_SETTLE_MS = 3600000"
definition WARMUP_GRADUATION_MIN_SPAN_MS :: int where "WARMUP_GRADUATION_MIN_SPAN_MS = DAY_MS"

definition ageTier :: "instant \<Rightarrow> instant \<Rightarrow> int" where
  "ageTier registeredAt t =
     (let days = js_div (of_int (t - registeredAt)) (of_int DAY_MS)
      in case map fst (filter (\<lambda>(i, limit). days < of_int limit) (zip [0..2] WARMUP_TIER_DAYS)) of
           [] \<Rightarrow> WARMUP_FULL_TIER | i # _ \<Rightarrow> i)"

definition tierStart :: "instant \<Rightarrow> int \<Rightarrow> instant" where
  "tierStart registeredAt tier =
     registeredAt + (if 1 \<le> tier \<and> tier \<le> 3 then WARMUP_TIER_DAYS ! nat (tier - 1) else 0) * DAY_MS"

definition capOf :: "cap_settings \<Rightarrow> int \<Rightarrow> int" where
  "capOf s tier =
     (if 0 \<le> tier \<and> tier \<le> 2
      then [mw_capFirstDay s, mw_capFirstWeek s, mw_capFirstMonth s] ! nat tier else 0)"

definition mayWarmUp :: "instant \<Rightarrow> new_domain \<Rightarrow> bool" where
  "mayWarmUp t d \<longleftrightarrow> nd_status d = DomVerified \<and> nd_trustedAt d = None
     \<and> (case nd_registeredAt d of None \<Rightarrow> True | Some r \<Rightarrow> t - WARMUP_TIER_DAYS ! 2 * DAY_MS \<le> r)
     \<and> (case nd_warmupTier d of None \<Rightarrow> True | Some n \<Rightarrow> n < WARMUP_FULL_TIER)"

datatype row_tier = FullVolume | UnknownAge | TierAt int

definition earned_of :: "new_domain \<Rightarrow> int" where
  "earned_of d = given (nd_warmupTier d) 0"

definition rowTier :: "new_domain \<Rightarrow> instant \<Rightarrow> row_tier" where
  "rowTier d t =
     (if nd_trustedAt d \<noteq> None \<or> WARMUP_FULL_TIER \<le> earned_of d then FullVolume
      else case nd_registeredAt d of
             None \<Rightarrow> UnknownAge
           | Some r \<Rightarrow>
               (let tier = max (ageTier r t) (earned_of d)
                in if WARMUP_FULL_TIER \<le> tier then FullVolume else TierAt tier))"

definition tierOf :: "bool \<Rightarrow> instant \<Rightarrow> new_domain \<Rightarrow> int option" where
  "tierOf isNew t d =
     (case rowTier d t of
        FullVolume \<Rightarrow> None
      | TierAt n \<Rightarrow> Some n
      | UnknownAge \<Rightarrow> if isNew then Some (max UNKNOWN_AGE_TIER (earned_of d)) else None)"

section \<open>The cap of a send\<close>

record warmup_cap =
  wc_key :: string
  wc_cap :: int
  wc_tier :: int
  wc_fullAt :: "instant option"
  wc_teamId :: ident
  wc_pool :: int
  wc_poolDomains :: int

definition other_tiers :: "bool \<Rightarrow> ident \<Rightarrow> ident \<Rightarrow> instant \<Rightarrow> limit_db \<Rightarrow> int list" where
  "other_tiers isNew teamId domainId t db =
     List.map_filter (\<lambda>(i, d). if nd_teamId d = teamId \<and> i \<noteq> domainId \<and> mayWarmUp t d
        then tierOf isNew t d else None) (lb_domains db)"

definition warmupCap :: "(string \<Rightarrow> string) \<Rightarrow> cap_settings \<Rightarrow> (ident \<Rightarrow> bool) \<Rightarrow> ident
    \<Rightarrow> ident option \<Rightarrow> instant \<Rightarrow> limit_db \<Rightarrow> warmup_cap option" where
  "warmupCap owner s isNew teamId domainId t db =
     (case domainId of None \<Rightarrow> None | Some i \<Rightarrow>
      (case (map_of (lb_domains db) i, map_of (lb_teams db) teamId) of
         (Some d, Some team) \<Rightarrow>
           if nd_teamId d \<noteq> teamId \<or> lt_plan team = System \<or> lt_trustedAt team \<noteq> None
              \<or> rowTier d t = FullVolume then None
           else if \<not> mw_enabled s then None
           else (case tierOf (isNew teamId) t d of
               None \<Rightarrow> None
             | Some tier \<Rightarrow>
                 (let others = other_tiers (isNew teamId) teamId i t db
                  in Some \<lparr>wc_key = owner (nd_name d), wc_cap = capOf s tier, wc_tier = tier,
                       wc_fullAt = map_option (\<lambda>r. tierStart r WARMUP_FULL_TIER) (nd_registeredAt d),
                       wc_teamId = teamId, wc_pool = fold max (map (capOf s) others) (capOf s tier),
                       wc_poolDomains = 1 + int (length others)\<rparr>))
       | _ \<Rightarrow> None))"

definition warmupSteps :: "cap_settings \<Rightarrow> warmup_cap \<Rightarrow> instant option \<Rightarrow> instant
    \<Rightarrow> (instant \<times> int option) list" where
  "warmupSteps s cap registeredAt t =
     (case (registeredAt, wc_fullAt cap) of
        (Some r, Some full) \<Rightarrow>
          (t, Some (wc_cap cap))
            # map (\<lambda>tier. (tierStart r tier, Some (capOf s tier))) [wc_tier cap + 1..WARMUP_FULL_TIER - 1]
            @ [(full, None)]
      | _ \<Rightarrow> [])"

text \<open>Mail the limit holds; SQL's \<open>not in\<close> is false for a null domain unless the set is empty.\<close>

definition heldByNewDomainLimit :: "(ident \<times> warmup_row) list \<Rightarrow> ramp_mail \<Rightarrow> bool" where
  "heldByNewDomainLimit warmups m \<longleftrightarrow>
     (let live = map fst (filter (\<lambda>(_, r). wr_status r = Warming \<or> wr_status r = WPaused) warmups)
      in ml_status m = QueuedQuota \<and> ml_parkReason m = Some ''warmup''
         \<and> (ml_broadcastId m = None
            \<or> (case ml_domainId m of None \<Rightarrow> live = [] | Some i \<Rightarrow> i \<notin> set live)))"

section \<open>Reserving\<close>

text \<open>One guarded upsert; the key is the row, the count its only column.\<close>

definition take_within :: "'k \<Rightarrow> int \<Rightarrow> int \<Rightarrow> ('k \<rightharpoonup> int) \<Rightarrow> ('k \<rightharpoonup> int) option" where
  "take_within k limit n m =
     map_option fst (upsert k n (\<lambda>a. if a + n \<le> limit then Some (a + n) else None) m)"

definition addWithinLimit :: "'k \<Rightarrow> int \<Rightarrow> int \<Rightarrow> ('k \<rightharpoonup> int) \<Rightarrow> ('k \<rightharpoonup> int) \<times> bool" where
  "addWithinLimit k n limit m =
     (case take_within k limit n m of None \<Rightarrow> (m, False) | Some m' \<Rightarrow> (m', True))"

datatype reservation = Reserved | DomainFull | PoolFull

definition reserveWarmup :: "warmup_cap \<Rightarrow> int \<Rightarrow> int \<Rightarrow> limit_db \<Rightarrow> limit_db \<times> reservation" where
  "reserveWarmup cap n day db =
     (if wc_cap cap < n then (db, DomainFull)
      else case addWithinLimit (wc_teamId cap, day) n (wc_pool cap) (lb_teamUsage db) of
        (_, False) \<Rightarrow> (db, PoolFull)
      | (p, True) \<Rightarrow>
          (case addWithinLimit (wc_key cap, day) n (wc_cap cap) (lb_domainUsage db) of
             (u, True) \<Rightarrow> (db\<lparr>lb_teamUsage := p, lb_domainUsage := u\<rparr>, Reserved)
           | (_, False) \<Rightarrow>
               (db\<lparr>lb_teamUsage := map_upd (\<lambda>a. a - n) (wc_teamId cap, day) p\<rparr>, DomainFull)))"

definition admitWarmup :: "(string \<Rightarrow> string) \<Rightarrow> cap_settings \<Rightarrow> (ident \<Rightarrow> bool) \<Rightarrow> ident
    \<Rightarrow> ident option \<Rightarrow> int \<Rightarrow> instant \<Rightarrow> limit_db \<Rightarrow> limit_db \<times> warmup_cap option" where
  "admitWarmup owner s isNew teamId domainId n t db =
     (case warmupCap owner s isNew teamId domainId t db of
        None \<Rightarrow> (db, None)
      | Some cap \<Rightarrow>
          (case reserveWarmup cap n (utcDay t) db of
             (db', Reserved) \<Rightarrow> (db', None) | (db', _) \<Rightarrow> (db', Some cap)))"

definition pruneWarmupUsage :: "instant \<Rightarrow> limit_db \<Rightarrow> limit_db" where
  "pruneWarmupUsage now db =
     (let before = utcDay (now - DAY_MS)
      in db\<lparr>lb_domainUsage := (\<lambda>k. if snd k < before then None else lb_domainUsage db k),
            lb_teamUsage := (\<lambda>k. if snd k < before then None else lb_teamUsage db k)\<rparr>)"

definition limitSpent :: "int \<Rightarrow> int \<Rightarrow> (int \<times> int) option \<Rightarrow> reservation option" where
  "limitSpent cap used pool =
     (if cap \<le> used then Some DomainFull
      else case pool of Some (pcap, pused) \<Rightarrow> if pcap \<le> pused then Some PoolFull else None | None \<Rightarrow> None)"

section \<open>Early graduation\<close>

definition MONITOR_HOLD_CATEGORIES :: "string list" where
  "MONITOR_HOLD_CATEGORIES = [''phishing_credentials'', ''brand_impersonation'', ''payment_redirect'']"

definition MONITOR_HOLD_REASONS :: "string list" where
  "MONITOR_HOLD_REASONS = [''impersonation'', ''harvests_secrets'']"

definition phishing_verdict :: "abuse_verdict \<Rightarrow> bool" where
  "phishing_verdict v \<longleftrightarrow>
     list_ex (\<lambda>c. c \<in> set MONITOR_HOLD_CATEGORIES) (given (av_categories v) [])
     \<or> list_ex (\<lambda>r. r \<in> set MONITOR_HOLD_REASONS) (given (av_reasons v) [])"

definition settled_sends :: "(ident \<times> new_domain) list \<Rightarrow> instant \<Rightarrow> instant \<Rightarrow> limit_db \<Rightarrow> settled_send list" where
  "settled_sends grp since now db =
     filter (\<lambda>m. st_teamId m \<in> set (map (nd_teamId \<circ> snd) grp)
         \<and> (case st_domainId m of None \<Rightarrow> False | Some i \<Rightarrow> i \<in> set (map fst grp))
         \<and> (case st_sentAt m of None \<Rightarrow> False
            | Some a \<Rightarrow> since \<le> a \<and> a < now - WARMUP_GRADUATION_SETTLE_MS)
         \<and> \<not> st_simulator m) (lb_sends db)"

definition tally :: "('a \<Rightarrow> bool) \<Rightarrow> 'a list \<Rightarrow> int" where
  "tally P xs = int (length (filter P xs))"

definition cleanSince :: "(ident \<times> new_domain) list \<Rightarrow> instant \<Rightarrow> instant \<Rightarrow> limit_db \<Rightarrow> bool" where
  "cleanSince grp since now db =
     (let sends = settled_sends grp since now db;
          delivered = tally st_delivered sends;
          dayOld = tally (\<lambda>m. st_delivered m \<and> (case st_sentAt m of None \<Rightarrow> False
             | Some a \<Rightarrow> a \<le> now - WARMUP_GRADUATION_MIN_SPAN_MS)) sends;
          deliveredOrBounced = tally (\<lambda>m. st_delivered m \<or> st_bounced m) sends
      in if delivered < WARMUP_GRADUATION_SENDS \<or> dayOld = 0 then False
         else if WARMUP_GRADUATION_MAX_BOUNCE_RATE
                   \<le> js_div (of_int (tally st_bounced sends)) (of_int deliveredOrBounced) then False
         else if WARMUP_GRADUATION_MAX_COMPLAINT_RATE
                   \<le> js_div (of_int (tally st_complained sends)) (of_int delivered) then False
         else \<not> list_ex (\<lambda>v. av_teamId v \<in> set (map (nd_teamId \<circ> snd) grp)
                \<and> (case av_judgedAt v of None \<Rightarrow> False
                   | Some j \<Rightarrow> now - WARMUP_TIER_DAYS ! 2 * DAY_MS \<le> j)
                \<and> phishing_verdict v) (lb_verdicts db))"

text \<open>One grp's facts: its date, its tier, and when the tier began.\<close>

definition group_registeredAt :: "(ident \<times> new_domain) list \<Rightarrow> instant option" where
  "group_registeredAt grp =
     (case List.map_filter (nd_registeredAt \<circ> snd) grp of [] \<Rightarrow> None | r # _ \<Rightarrow> Some r)"

definition max_of :: "int list \<Rightarrow> int" where
  "max_of xs = (case xs of [] \<Rightarrow> 0 | x # ys \<Rightarrow> fold max ys x)"

definition group_earned :: "(ident \<times> new_domain) list \<Rightarrow> int" where
  "group_earned grp = max_of (map (earned_of \<circ> snd) grp)"

definition group_byAge :: "(ident \<times> new_domain) list \<Rightarrow> instant \<Rightarrow> int" where
  "group_byAge grp now =
     (case group_registeredAt grp of Some r \<Rightarrow> ageTier r now | None \<Rightarrow> UNKNOWN_AGE_TIER)"

definition group_since :: "(ident \<times> new_domain) list \<Rightarrow> instant \<Rightarrow> instant" where
  "group_since grp now =
     (let earnedAt = fold max (map (\<lambda>(_, d). given (nd_warmupTierAt d) 0) grp) 0
      in case group_registeredAt grp of
           None \<Rightarrow> earnedAt
         | Some r \<Rightarrow> if group_byAge grp now \<le> group_earned grp then earnedAt
                     else tierStart r (group_byAge grp now))"

definition group_moves :: "(ident \<times> new_domain) list \<Rightarrow> instant \<Rightarrow> limit_db \<Rightarrow> int option" where
  "group_moves grp now db =
     (let tier = max (group_byAge grp now) (group_earned grp)
      in if WARMUP_FULL_TIER \<le> tier then None
         else if \<not> cleanSince grp (group_since grp now) now db then None
         else Some (tier + 1))"

definition raise_tier :: "int \<Rightarrow> instant \<Rightarrow> new_domain \<Rightarrow> new_domain" where
  "raise_tier n now d = d\<lparr>nd_warmupTier := Some n, nd_warmupTierAt := Some now\<rparr>"

definition set_tier :: "ident list \<Rightarrow> int \<Rightarrow> instant \<Rightarrow> limit_db \<Rightarrow> limit_db" where
  "set_tier ids tier now db =
     db\<lparr>lb_domains := update_rows (\<lambda>(i, _). i \<in> set ids)
        (\<lambda>(i, d). (i, raise_tier tier now d)) (lb_domains db)\<rparr>"

fun graduate_groups :: "(string \<times> (ident \<times> new_domain) list) list \<Rightarrow> instant \<Rightarrow> limit_db
    \<Rightarrow> limit_db \<times> string list" where
  "graduate_groups [] now db = (db, [])"
| "graduate_groups ((key, grp) # gs) now db =
     (case group_moves grp now db of
        None \<Rightarrow> graduate_groups gs now db
      | Some tier \<Rightarrow>
          (case graduate_groups gs now (set_tier (map fst grp) tier now db) of
             (db', moved) \<Rightarrow> (db', key # moved)))"

definition warming_groups :: "(string \<Rightarrow> string) \<Rightarrow> instant \<Rightarrow> limit_db
    \<Rightarrow> (string \<times> (ident \<times> new_domain) list) list" where
  "warming_groups owner now db =
     group_pairs (map (\<lambda>(i, d). (owner (nd_name d), (i, d))) (filter (mayWarmUp now \<circ> snd) (lb_domains db)))"

definition graduateWarmupDomains :: "(string \<Rightarrow> string) \<Rightarrow> cap_settings \<Rightarrow> instant \<Rightarrow> limit_db
    \<Rightarrow> limit_db \<times> string list" where
  "graduateWarmupDomains owner s now db =
     (if \<not> mw_enabled s then (db, []) else graduate_groups (warming_groups owner now db) now db)"

section \<open>Requests to lift the limit\<close>

definition LIMIT_REQUEST_PER_DAY_MAX :: int where "LIMIT_REQUEST_PER_DAY_MAX = 10000000"
definition LIMIT_REQUEST_NOTE_MAX :: nat where "LIMIT_REQUEST_NOTE_MAX = 1000"
definition LIMIT_REQUEST_SENDS :: "string list" where
  "LIMIT_REQUEST_SENDS = [''account'', ''notifications'', ''marketing'', ''mix'']"
definition LIMIT_REQUEST_SOURCES :: "string list" where
  "LIMIT_REQUEST_SOURCES = [''new'', ''other_provider'', ''own_servers'']"

datatype request_refusal = ReqInvalid | ReqNotFound | ReqNotLimited | ReqAlreadyOpen | ReqNotOpen

record request_input =
  ri_teamId :: ident
  ri_domainId :: ident
  ri_userId :: "ident option"
  ri_sends :: string
  ri_perDay :: rat
  ri_source :: string
  ri_note :: "string option"

definition request_valid :: "request_input \<Rightarrow> bool" where
  "request_valid inp \<longleftrightarrow>
     of_int \<lfloor>ri_perDay inp\<rfloor> = ri_perDay inp \<and> 1 \<le> ri_perDay inp
     \<and> ri_perDay inp \<le> of_int LIMIT_REQUEST_PER_DAY_MAX
     \<and> ri_sends inp \<in> set LIMIT_REQUEST_SENDS \<and> ri_source inp \<in> set LIMIT_REQUEST_SOURCES
     \<and> (case trimmed (ri_note inp) of None \<Rightarrow> True | Some n \<Rightarrow> length n \<le> LIMIT_REQUEST_NOTE_MAX)"

text \<open>The insert: refused by the primary key or by the unique index on a domain's open request.\<close>

definition insert_request :: "limit_request \<Rightarrow> limit_request list \<Rightarrow> limit_request list option" where
  "insert_request r rows =
     (if list_ex (\<lambda>x. lr_id x = lr_id r \<or> (lr_status x = ReqOpen \<and> lr_domainId x = lr_domainId r)) rows
      then None else Some (rows @ [r]))"

definition request_row :: "request_input \<Rightarrow> ident \<Rightarrow> instant \<Rightarrow> limit_request" where
  "request_row inp newId now =
     \<lparr>lr_id = newId, lr_teamId = ri_teamId inp, lr_domainId = ri_domainId inp,
      lr_requestedBy = ri_userId inp, lr_sends = ri_sends inp, lr_perDay = \<lfloor>ri_perDay inp\<rfloor>,
      lr_source = ri_source inp, lr_note = trimmed (ri_note inp), lr_status = ReqOpen,
      lr_createdAt = now, lr_resolvedAt = None, lr_resolvedBy = None\<rparr>"

definition createLimitRequest :: "(string \<Rightarrow> string) \<Rightarrow> cap_settings \<Rightarrow> (ident \<Rightarrow> bool) \<Rightarrow> ident
    \<Rightarrow> instant \<Rightarrow> instant \<Rightarrow> request_input \<Rightarrow> limit_db \<Rightarrow> limit_db \<times> (request_refusal + limit_request)" where
  "createLimitRequest owner s isNew newId clock now inp db =
     (if \<not> request_valid inp then (db, Inl ReqInvalid)
      else case map_of (lb_domains db) (ri_domainId inp) of
        None \<Rightarrow> (db, Inl ReqNotFound)
      | Some d \<Rightarrow>
          if nd_teamId d \<noteq> ri_teamId inp then (db, Inl ReqNotFound)
          else if nd_status d \<noteq> DomVerified
               \<or> warmupCap owner s isNew (ri_teamId inp) (Some (ri_domainId inp)) now db = None
          then (db, Inl ReqNotLimited)
          else case insert_request (request_row inp newId now) (lb_requests db) of
                 None \<Rightarrow> (db, Inl ReqAlreadyOpen)
               | Some rows \<Rightarrow>
                   (db\<lparr>lb_requests := rows,
                       lb_audit := lb_audit db @ [\<lparr>al_teamId = Some (ri_teamId inp),
                         al_actorId = encodeAuditActor (case ri_userId inp of
                            Some u \<Rightarrow> if u \<noteq> [] then ActUser u else ActSystem | None \<Rightarrow> ActSystem),
                         al_action = ''domain.limit_requested'', al_createdAt = clock,
                         la_domainId = ri_domainId inp, la_name = nd_name d,
                         la_perDay = \<lfloor>ri_perDay inp\<rfloor>, la_sends = ri_sends inp, la_source = ri_source inp\<rparr>]\<rparr>,
                    Inr (request_row inp newId now)))"

definition getOpenLimitRequest :: "limit_db \<Rightarrow> ident \<Rightarrow> ident \<Rightarrow> limit_request option" where
  "getOpenLimitRequest db teamId domainId =
     List.find (\<lambda>r. lr_teamId r = teamId \<and> lr_domainId r = domainId \<and> lr_status r = ReqOpen) (lb_requests db)"

definition latestLimitRequest :: "limit_db \<Rightarrow> ident \<Rightarrow> ident \<Rightarrow> limit_request option" where
  "latestLimitRequest db teamId domainId =
     (case filter (\<lambda>r. lr_teamId r = teamId \<and> lr_domainId r = domainId) (lb_requests db) of
        [] \<Rightarrow> None
      | r # rs \<Rightarrow> Some (fold (\<lambda>x b. if (lr_createdAt b, lr_id b) < (lr_createdAt x, lr_id x) then x else b) rs r))"

definition resolve_request :: "request_status \<Rightarrow> instant \<Rightarrow> string option \<Rightarrow> limit_request \<Rightarrow> limit_request" where
  "resolve_request st now by r = r\<lparr>lr_status := st, lr_resolvedAt := Some now, lr_resolvedBy := by\<rparr>"

definition trust_rows :: "ident \<Rightarrow> ident option \<Rightarrow> bool \<Rightarrow> instant \<Rightarrow> string option \<Rightarrow> limit_db \<Rightarrow> limit_db" where
  "trust_rows teamId domainId trusted now operator db =
     (if trusted
      then db\<lparr>lb_requests := update_rows (\<lambda>r. lr_teamId r = teamId \<and> lr_status r = ReqOpen
               \<and> (case domainId of None \<Rightarrow> True | Some i \<Rightarrow> lr_domainId r = i))
             (resolve_request ReqGranted now operator) (lb_requests db)\<rparr>
      else db)"

definition setWarmupTrust :: "ident \<Rightarrow> ident option \<Rightarrow> bool \<Rightarrow> instant \<Rightarrow> string option \<Rightarrow> limit_db
    \<Rightarrow> (limit_db \<times> string option) option" where
  "setWarmupTrust teamId domainId trusted now operator db =
     (let trustedAt = (if trusted then Some now else None) in
      case domainId of
        Some i \<Rightarrow>
          (case map_of (lb_domains db) i of
             None \<Rightarrow> None
           | Some d \<Rightarrow>
               if nd_teamId d \<noteq> teamId then None
               else Some (trust_rows teamId domainId trusted now operator
                      (db\<lparr>lb_domains := update_key i (\<lambda>d. d\<lparr>nd_trustedAt := trustedAt\<rparr>) (lb_domains db)\<rparr>),
                      Some (nd_name d)))
      | None \<Rightarrow>
          (case map_of (lb_teams db) teamId of
             None \<Rightarrow> None
           | Some t \<Rightarrow>
               Some (trust_rows teamId None trusted now operator
                 (db\<lparr>lb_teams := update_key teamId (\<lambda>t. t\<lparr>lt_trustedAt := trustedAt\<rparr>) (lb_teams db)\<rparr>),
                 None)))"

definition declineLimitRequest :: "ident \<Rightarrow> string \<Rightarrow> instant \<Rightarrow> limit_db
    \<Rightarrow> limit_db \<times> (request_refusal + ident \<times> ident \<times> ident)" where
  "declineLimitRequest requestId operator now db =
     (case returning (\<lambda>r. lr_id r = requestId \<and> lr_status r = ReqOpen)
        (resolve_request ReqDeclined now (Some operator)) (lb_requests db) of
        [] \<Rightarrow> (db, Inl ReqNotOpen)
      | r # _ \<Rightarrow>
          (db\<lparr>lb_requests := update_rows (\<lambda>r. lr_id r = requestId \<and> lr_status r = ReqOpen)
              (resolve_request ReqDeclined now (Some operator)) (lb_requests db)\<rparr>,
           Inr (lr_id r, lr_teamId r, lr_domainId r)))"

section \<open>Lemmas on reserving\<close>

lemma take_within_cases:
  "take_within k c n m = Some m' \<Longrightarrow> n \<le> c \<Longrightarrow> m' = m(k \<mapsto> cnt m k + n) \<and> cnt m k + n \<le> c"
  "take_within k c n m = None \<Longrightarrow> c < cnt m k + n"
  by (auto simp: take_within_def upsert_def split: option.splits if_splits)

interpretation young: capped_take "take_within k c" "\<lambda>m. cnt m k" "Some c"
  for k :: 'k and c
  by unfold_locales (auto dest!: take_within_cases)

lemma addWithinLimit_cases:
  assumes "0 < n" "n \<le> c"
  shows "addWithinLimit k n c m =
    (if cnt m k + n \<le> c then (m(k \<mapsto> cnt m k + n), True) else (m, False))"
proof (cases "take_within k c n m")
  case None
  then show ?thesis using young.take_None [OF None] by (simp add: addWithinLimit_def)
next
  case (Some m')
  then show ?thesis using take_within_cases(1) [OF Some assms(2)] by (simp add: addWithinLimit_def)
qed

lemma cnt_give_back: "cnt (map_upd (\<lambda>a. a - n) k (m(k \<mapsto> cnt m k + n))) = cnt m"
  by (rule ext) (auto simp: map_upd_def cnt_def)

lemma fold_max_ge: "x \<le> fold max xs (x :: int)"
  by (induction xs arbitrary: x) (auto intro: order_trans [OF max.cobounded2])

lemma fold_max_mono: "x \<le> y \<Longrightarrow> fold max xs x \<le> fold max xs (y :: int)"
  by (induction xs arbitrary: x y) (simp_all add: max.coboundedI2 max.mono)

lemma fold_max_mem: "fold max xs (x :: int) \<in> insert x (set xs)"
  by (induction xs arbitrary: x) (auto simp: max_def split: if_splits)

lemma fold_max_upper: "y \<in> set xs \<Longrightarrow> y \<le> fold max xs (x :: int)"
  by (induction xs arbitrary: x) (auto intro: order_trans [OF _ fold_max_ge])

lemma warmupCap_SomeD:
  assumes "warmupCap owner s isNew teamId (Some i) t db = Some c"
  obtains d tier where "map_of (lb_domains db) i = Some d" "nd_teamId d = teamId" "mw_enabled s"
    "tierOf (isNew teamId) t d = Some tier" "wc_key c = owner (nd_name d)" "wc_cap c = capOf s tier"
    "wc_tier c = tier" "wc_fullAt c = map_option (\<lambda>r. tierStart r WARMUP_FULL_TIER) (nd_registeredAt d)"
    "wc_teamId c = teamId"
    "wc_pool c = fold max (map (capOf s) (other_tiers (isNew teamId) teamId i t db)) (capOf s tier)"
  using assms by (auto simp: warmupCap_def Let_def split: option.splits if_splits)

lemma warmupCap_pool: "warmupCap owner s isNew teamId (Some i) t db = Some c \<Longrightarrow> wc_cap c \<le> wc_pool c"
  by (erule warmupCap_SomeD) (simp add: fold_max_ge)

section \<open>Lemmas on tiers\<close>

lemma days_less_iff:
  assumes "k \<in> {1, 7, 30 :: int}"
  shows "js_div (of_int a) (of_int DAY_MS) < of_int k \<longleftrightarrow> a < k * DAY_MS"
proof -
  define x :: rat where "x = of_int a / of_int DAY_MS"
  have D: "(of_int DAY_MS :: rat) = 86400000" by (simp add: DAY_MS_def)
  have xk: "x < of_int k \<longleftrightarrow> a < k * DAY_MS" "x \<le> of_int k - 1 / 86400000 \<longleftrightarrow> a \<le> k * DAY_MS - 1"
  proof -
    have "x < of_int k \<longleftrightarrow> of_int a < (of_int (k * DAY_MS) :: rat)"
      by (simp add: x_def D DAY_MS_def divide_less_eq)
    then show "x < of_int k \<longleftrightarrow> a < k * DAY_MS" by (simp only: of_int_less_iff)
    have "x \<le> of_int k - 1 / 86400000 \<longleftrightarrow> of_int a \<le> (of_int (k * DAY_MS - 1) :: rat)"
      by (simp add: x_def D DAY_MS_def field_simps)
    then show "x \<le> of_int k - 1 / 86400000 \<longleftrightarrow> a \<le> k * DAY_MS - 1" by (simp only: of_int_le_iff)
  qed
  show ?thesis
  proof (cases "a < k * DAY_MS")
    case True
    then have lt: "x \<le> of_int k - 1 / 86400000" using xk by simp
    have "dbl x < of_int k"
    proof (cases "0 \<le> x")
      case nonneg: True
      have "dbl x \<le> x * (1 + 1 / 2 ^ 53)" by (rule dbl_le [OF nonneg])
      also have "\<dots> \<le> (of_int k - 1 / 86400000) * (1 + 1 / 2 ^ 53)" using lt by (intro mult_right_mono) auto
      also have "\<dots> < of_int k" using assms by auto
      finally show ?thesis .
    next
      case False
      have "dbl x - x \<le> \<bar>x\<bar> / 2 ^ 53" using dbl_error [of x] by linarith
      also have "\<dots> \<le> - x" using False by simp
      finally show ?thesis using assms by auto
    qed
    then show ?thesis using True by (simp add: js_div_def x_def)
  next
    case False
    then have k: "of_int k \<le> x" using xk by simp
    have "of_int k \<le> dbl x" by (rule dbl_ge_int [OF _ _ k]) (use assms in auto)
    then show ?thesis using False by (simp add: js_div_def x_def)
  qed
qed

lemma ageTier_exact:
  "ageTier r t = (if t - r < DAY_MS then 0 else if t - r < 7 * DAY_MS then 1
     else if t - r < 30 * DAY_MS then 2 else 3)"
proof -
  have "[0..2 :: int] = [0, 1, 2]" by (simp add: upto.simps)
  then show ?thesis
    using days_less_iff [of 1 "t - r"] days_less_iff [of 7 "t - r"] days_less_iff [of 30 "t - r"]
    by (simp add: ageTier_def WARMUP_TIER_DAYS_def WARMUP_FULL_TIER_def Let_def)
qed

lemmas tier_consts = WARMUP_TIER_DAYS_def WARMUP_FULL_TIER_def UNKNOWN_AGE_TIER_def

lemma DAY_MS_pos: "0 < DAY_MS"
  by (simp add: DAY_MS_def)

lemma tierStart_simps [simp]:
  "tierStart r 1 = r + DAY_MS" "tierStart r 2 = r + 7 * DAY_MS" "tierStart r 3 = r + 30 * DAY_MS"
  by (simp_all add: tierStart_def WARMUP_TIER_DAYS_def)

lemma ageTier_bounds: "0 \<le> ageTier r t" "ageTier r t \<le> 3"
  by (simp_all add: ageTier_exact)

lemma ageTier_ge_iff:
  assumes "k \<in> {1, 2, 3}"
  shows "k \<le> ageTier r t \<longleftrightarrow> tierStart r k \<le> t"
  using assms DAY_MS_pos by (auto simp: ageTier_exact not_less)

lemma ageTier_start: "k \<in> {1, 2, 3} \<Longrightarrow> ageTier r (tierStart r k) = k"
  using DAY_MS_pos by (auto simp: ageTier_exact)

lemma rowTier_TierAt:
  "rowTier d t = TierAt k \<longleftrightarrow> nd_trustedAt d = None \<and> earned_of d < 3
     \<and> (\<exists>r. nd_registeredAt d = Some r \<and> k = max (ageTier r t) (earned_of d) \<and> k < 3)"
  by (auto simp: rowTier_def Let_def WARMUP_FULL_TIER_def split: option.splits if_splits)

lemma rowTier_known: "nd_registeredAt d = Some r \<Longrightarrow> rowTier d t \<noteq> UnknownAge"
  by (simp add: rowTier_def Let_def)

section \<open>Properties of the limit\<close>

lemma reserveWarmup_exact_lemma:
  assumes "0 < n" and "wc_cap cap \<le> wc_pool cap"
    and "0 \<le> cnt (lb_domainUsage db) (wc_key cap, day)"
    and "reserveWarmup cap n day db = (db', res)"
  shows "(res = Reserved \<longleftrightarrow> cnt (lb_teamUsage db) (wc_teamId cap, day) + n \<le> wc_pool cap
        \<and> cnt (lb_domainUsage db) (wc_key cap, day) + n \<le> wc_cap cap)
    \<and> (res = Reserved \<longrightarrow>
        cnt (lb_teamUsage db') = (cnt (lb_teamUsage db))((wc_teamId cap, day) :=
            cnt (lb_teamUsage db) (wc_teamId cap, day) + n)
        \<and> cnt (lb_domainUsage db') = (cnt (lb_domainUsage db))((wc_key cap, day) :=
            cnt (lb_domainUsage db) (wc_key cap, day) + n))
    \<and> (res \<noteq> Reserved \<longrightarrow> cnt (lb_teamUsage db') = cnt (lb_teamUsage db)
        \<and> cnt (lb_domainUsage db') = cnt (lb_domainUsage db))
    \<and> (res = PoolFull \<longrightarrow> wc_pool cap < cnt (lb_teamUsage db) (wc_teamId cap, day) + n)
    \<and> (res = DomainFull \<longrightarrow> wc_cap cap < cnt (lb_domainUsage db) (wc_key cap, day) + n)
    \<and> db'\<lparr>lb_teamUsage := lb_teamUsage db, lb_domainUsage := lb_domainUsage db\<rparr> = db"
proof (cases "wc_cap cap < n")
  case True
  then have "db' = db" "res = DomainFull" using assms(4) by (simp_all add: reserveWarmup_def)
  then show ?thesis using True assms(3) by simp
next
  case False
  then have fit: "n \<le> wc_cap cap" "n \<le> wc_pool cap" using assms(2) by auto
  note add = addWithinLimit_cases [OF assms(1)]
  show ?thesis
    using assms(4) False fit
    by (cases "cnt (lb_teamUsage db) (wc_teamId cap, day) + n \<le> wc_pool cap";
        cases "cnt (lb_domainUsage db) (wc_key cap, day) + n \<le> wc_cap cap")
      (auto simp: reserveWarmup_def add cnt_give_back fun_eq_iff)
qed

text \<open>
  C13: a reservation is all or nothing. With a positive size it is granted exactly when both
  the team's shared counter and the domain's counter have room for it, and then raises both by
  its size; a refusal leaves every count as it was, the pool's charge given back when only the
  domain was full, and names a limit that really has no room.
\<close>

theorem reserveWarmup_exact:
  assumes "0 < n" and "wc_cap cap \<le> wc_pool cap"
    and "0 \<le> cnt (lb_domainUsage db) (wc_key cap, day)"
    and "reserveWarmup cap n day db = (db', res)"
  shows "(res = Reserved \<longleftrightarrow> cnt (lb_teamUsage db) (wc_teamId cap, day) + n \<le> wc_pool cap
        \<and> cnt (lb_domainUsage db) (wc_key cap, day) + n \<le> wc_cap cap)
    \<and> (res = Reserved \<longrightarrow>
        cnt (lb_teamUsage db') = (cnt (lb_teamUsage db))((wc_teamId cap, day) :=
            cnt (lb_teamUsage db) (wc_teamId cap, day) + n)
        \<and> cnt (lb_domainUsage db') = (cnt (lb_domainUsage db))((wc_key cap, day) :=
            cnt (lb_domainUsage db) (wc_key cap, day) + n))
    \<and> (res \<noteq> Reserved \<longrightarrow> cnt (lb_teamUsage db') = cnt (lb_teamUsage db)
        \<and> cnt (lb_domainUsage db') = cnt (lb_domainUsage db))
    \<and> (res = PoolFull \<longrightarrow> wc_pool cap < cnt (lb_teamUsage db) (wc_teamId cap, day) + n)
    \<and> (res = DomainFull \<longrightarrow> wc_cap cap < cnt (lb_domainUsage db) (wc_key cap, day) + n)
    \<and> db'\<lparr>lb_teamUsage := lb_teamUsage db, lb_domainUsage := lb_domainUsage db\<rparr> = db"
  using assms by (rule reserveWarmup_exact_lemma)

definition demo_limit :: limit_db where
  "demo_limit = \<lparr>lb_domains = [(''d'', \<lparr>nd_teamId = ''t'', nd_name = ''mail.young.example'',
       nd_status = DomVerified, nd_registeredAt = Some 0, nd_warmupTier = None,
       nd_warmupTierAt = None, nd_trustedAt = None\<rparr>)],
     lb_teams = [(''t'', \<lparr>lt_plan = Pro, lt_trustedAt = None\<rparr>)], lb_domainUsage = Map.empty,
     lb_teamUsage = Map.empty, lb_sends = [], lb_verdicts = [], lb_requests = [], lb_audit = []\<rparr>"

definition demo_caps :: cap_settings where
  "demo_caps = \<lparr>mw_enabled = True, mw_capFirstDay = 100, mw_capFirstWeek = 300, mw_capFirstMonth = 2000\<rparr>"

definition demo_cap :: warmup_cap where
  "demo_cap = \<lparr>wc_key = ''young.example'', wc_cap = 100, wc_tier = 0, wc_fullAt = None,
     wc_teamId = ''t'', wc_pool = 100, wc_poolDomains = 1\<rparr>"

theorem reserveWarmup_exact_witness:
  "\<exists>db' res. reserveWarmup demo_cap 60 7 demo_limit = (db', res)
     \<and> res = Reserved \<and> cnt (lb_teamUsage db') (''t'', 7) = 60"
  using reserveWarmup_exact [of 60 demo_cap demo_limit 7]
  by (cases "reserveWarmup demo_cap 60 7 demo_limit") (auto simp: demo_cap_def demo_limit_def)

text \<open>
  The days ahead that a team is shown are the days it gets. While a domain with a known
  registration date is capped, each step of \<open>warmupSteps\<close> starts no earlier than now, and at
  its start the same row is at the tier whose cap the step names; the last step, without a cap,
  starts when the row sends at full volume.
\<close>

theorem warmup_steps_truthful:
  assumes "warmupCap owner s isNew teamId (Some i) t db = Some cap"
    and "map_of (lb_domains db) i = Some d" and "nd_registeredAt d = Some r"
    and "(start, c) \<in> set (warmupSteps s cap (Some r) t)"
  shows "t \<le> start \<and> (case c of
      None \<Rightarrow> rowTier d start = FullVolume
    | Some n \<Rightarrow> \<exists>k. rowTier d start = TierAt k \<and> n = capOf s k)"
proof -
  obtain d' tier where D: "map_of (lb_domains db) i = Some d'" "tierOf (isNew teamId) t d' = Some tier"
    "wc_cap cap = capOf s tier" "wc_tier cap = tier"
    "wc_fullAt cap = map_option (\<lambda>r. tierStart r WARMUP_FULL_TIER) (nd_registeredAt d')"
    by (rule warmupCap_SomeD [OF assms(1)])
  have "d' = d" using D(1) assms(2) by simp
  then have c: "tierOf (isNew teamId) t d = Some tier" "wc_fullAt cap = Some (tierStart r 3)"
    using D(2,5) assms(3) by (simp_all add: WARMUP_FULL_TIER_def)
  have now: "rowTier d t = TierAt tier" using c(1) rowTier_known [OF assms(3), of t]
    by (simp add: tierOf_def split: row_tier.splits)
  then have tier: "tier = max (ageTier r t) (earned_of d)" "tier < 3" "nd_trustedAt d = None" "earned_of d < 3"
    using assms(3) by (auto simp: rowTier_TierAt)
  then have t0: "0 \<le> tier" using ageTier_bounds(1) [of r t] by simp
  have later: "t \<le> tierStart r k" if "tier < k" "k \<le> 3" for k
  proof -
    have "k \<in> {1, 2, 3}" using that t0 by auto
    moreover have "ageTier r t < k" using that tier(1) by simp
    ultimately show ?thesis using ageTier_ge_iff [of k r t] by linarith
  qed
  consider "start = t" "c = Some (capOf s tier)"
    | k where "start = tierStart r k" "c = Some (capOf s k)" "tier < k" "k < 3"
    | "start = tierStart r 3" "c = None"
    using assms(4) unfolding warmupSteps_def c(2) D(3,4) by (auto simp: WARMUP_FULL_TIER_def)
  then show ?thesis
  proof cases
    case 1
    then show ?thesis using now by auto
  next
    case 2
    then have "ageTier r start = k" using t0 by (auto intro: ageTier_start)
    then have "rowTier d start = TierAt k" using 2 tier assms(3) by (auto simp: rowTier_TierAt)
    then show ?thesis using 2 later by auto
  next
    case 3
    then have "ageTier r start = 3" using ageTier_start [of 3 r] by simp
    then have "rowTier d start = FullVolume" using assms(3)
      by (simp add: rowTier_def Let_def WARMUP_FULL_TIER_def)
    then show ?thesis using 3 later [of 3] tier by auto
  qed
qed

theorem warmup_steps_truthful_witness:
  "\<exists>cap k. warmupCap id demo_caps (\<lambda>_. True) ''t'' (Some ''d'') 5 demo_limit = Some cap
     \<and> rowTier (snd (hd (lb_domains demo_limit))) (tierStart 0 2) = TierAt k \<and> capOf demo_caps k = 2000"
proof -
  have cap: "warmupCap id demo_caps (\<lambda>_. True) ''t'' (Some ''d'') 5 demo_limit = Some
      \<lparr>wc_key = ''mail.young.example'', wc_cap = 100, wc_tier = 0, wc_fullAt = Some (tierStart 0 3),
       wc_teamId = ''t'', wc_pool = 100, wc_poolDomains = 1\<rparr>"
    by (simp add: warmupCap_def demo_limit_def demo_caps_def rowTier_def tierOf_def earned_of_def given_def
        ageTier_exact DAY_MS_def WARMUP_FULL_TIER_def other_tiers_def map_filter_def capOf_def Let_def)
  have "(tierStart 0 2, Some 2000) \<in> set (warmupSteps demo_caps
      \<lparr>wc_key = ''mail.young.example'', wc_cap = 100, wc_tier = 0, wc_fullAt = Some (tierStart 0 3),
       wc_teamId = ''t'', wc_pool = 100, wc_poolDomains = 1\<rparr> (Some 0) 5)"
    by (simp add: warmupSteps_def WARMUP_FULL_TIER_def capOf_def demo_caps_def upto.simps del: set_upto)
  from warmup_steps_truthful [OF cap _ _ this] cap show ?thesis
    by (auto simp: demo_limit_def)
qed

section \<open>Lemmas on requests\<close>

definition requests_ok :: "limit_request list \<Rightarrow> bool" where
  "requests_ok rows \<longleftrightarrow> distinct (map lr_id rows)
     \<and> distinct (map lr_domainId (filter (\<lambda>r. lr_status r = ReqOpen) rows))
     \<and> (\<forall>r \<in> set rows. (lr_status r = ReqOpen \<longleftrightarrow> lr_resolvedAt r = None)
          \<and> 1 \<le> lr_perDay r \<and> lr_perDay r \<le> LIMIT_REQUEST_PER_DAY_MAX)"

lemma resolve_request_fields [simp]:
  "lr_id (resolve_request st now by r) = lr_id r" "lr_status (resolve_request st now by r) = st"
  "lr_resolvedAt (resolve_request st now by r) = Some now"
  "lr_perDay (resolve_request st now by r) = lr_perDay r"
  "lr_domainId (resolve_request st now by r) = lr_domainId r"
  "lr_teamId (resolve_request st now by r) = lr_teamId r"
  by (simp_all add: resolve_request_def)

lemma open_update_rows:
  assumes "st \<noteq> ReqOpen"
  shows "filter (\<lambda>r. lr_status r = ReqOpen) (update_rows P (resolve_request st now by) rows)
    = filter (\<lambda>r. \<not> P r) (filter (\<lambda>r. lr_status r = ReqOpen) rows)"
  using assms by (induction rows) (auto simp: update_rows_def)

lemma resolve_rows_ok:
  assumes "requests_ok rows" "st \<noteq> ReqOpen"
  shows "requests_ok (update_rows P (resolve_request st now by) rows)"
proof -
  have "map lr_id (update_rows P (resolve_request st now by) rows) = map lr_id rows"
    by (rule map_update_rows) simp
  moreover have "distinct (map lr_domainId (filter (\<lambda>r. \<not> P r) (filter (\<lambda>r. lr_status r = ReqOpen) rows)))"
    using assms(1) distinct_map_filter unfolding requests_ok_def by blast
  moreover have "\<forall>r \<in> set (update_rows P (resolve_request st now by) rows).
      (lr_status r = ReqOpen \<longleftrightarrow> lr_resolvedAt r = None)
      \<and> 1 \<le> lr_perDay r \<and> lr_perDay r \<le> LIMIT_REQUEST_PER_DAY_MAX"
    using assms by (auto simp: requests_ok_def set_update_rows split: if_splits)
  ultimately show ?thesis unfolding requests_ok_def open_update_rows [OF assms(2)] using assms(1)
    by (simp add: requests_ok_def)
qed

lemma insert_request_ok:
  assumes "requests_ok rows" "insert_request r rows = Some rows'"
    and "lr_status r = ReqOpen" "lr_resolvedAt r = None" "1 \<le> lr_perDay r" "lr_perDay r \<le> LIMIT_REQUEST_PER_DAY_MAX"
  shows "requests_ok rows'"
proof -
  have rows': "rows' = rows @ [r]" and
    new: "\<forall>x \<in> set rows. lr_id x \<noteq> lr_id r \<and> \<not> (lr_status x = ReqOpen \<and> lr_domainId x = lr_domainId r)"
    using assms(2) by (auto simp: insert_request_def list_ex_iff split: if_splits)
  have "lr_id r \<notin> lr_id ` set rows" using new by (metis imageE)
  moreover have "lr_domainId r \<notin> lr_domainId ` {x \<in> set rows. lr_status x = ReqOpen}"
    using new by (metis (mono_tags, lifting) imageE mem_Collect_eq)
  ultimately show ?thesis using assms(1,3-6) unfolding requests_ok_def rows' by simp
qed

lemma createLimitRequest_ok:
  assumes "requests_ok (lb_requests db)"
    and "createLimitRequest owner s isNew newId clock now inp db = (db', res)"
  shows "requests_ok (lb_requests db')"
proof (cases "request_valid inp \<and> (\<exists>rows. insert_request (request_row inp newId now) (lb_requests db) = Some rows
    \<and> lb_requests db' = rows)")
  case True
  then obtain rows where i: "insert_request (request_row inp newId now) (lb_requests db) = Some rows"
    "lb_requests db' = rows" and v: "request_valid inp" by blast
  have "1 \<le> \<lfloor>ri_perDay inp\<rfloor>" "\<lfloor>ri_perDay inp\<rfloor> \<le> LIMIT_REQUEST_PER_DAY_MAX"
    using v by (auto simp: request_valid_def le_floor_iff floor_le_iff)
  then show ?thesis using insert_request_ok [OF assms(1) i(1)] i(2) by (simp add: request_row_def)
next
  case False
  then have "lb_requests db' = lb_requests db"
    using assms(2) by (auto simp: createLimitRequest_def split: option.splits if_splits)
  then show ?thesis using assms(1) by simp
qed

lemma trust_rows_ok: "requests_ok (lb_requests db) \<Longrightarrow> requests_ok (lb_requests (trust_rows t i b now op' db))"
  by (simp add: trust_rows_def resolve_rows_ok)

lemma setWarmupTrust_ok:
  "requests_ok (lb_requests db) \<Longrightarrow> setWarmupTrust t i b now op' db = Some (db', nm) \<Longrightarrow>
     requests_ok (lb_requests db')"
  by (auto simp: setWarmupTrust_def Let_def trust_rows_ok split: option.splits if_splits)

lemma declineLimitRequest_ok:
  "requests_ok (lb_requests db) \<Longrightarrow> declineLimitRequest rid op' now db = (db', res) \<Longrightarrow>
     requests_ok (lb_requests db')"
  by (auto simp: declineLimitRequest_def resolve_rows_ok split: list.splits)

inductive limit_reachable :: "limit_db \<Rightarrow> bool" where
  start: "lb_requests db = [] \<Longrightarrow> limit_reachable db"
| create: "limit_reachable db \<Longrightarrow> createLimitRequest owner s isNew newId clock now inp db = (db', res) \<Longrightarrow>
    limit_reachable db'"
| trust: "limit_reachable db \<Longrightarrow> setWarmupTrust t i b now op' db = Some (db', nm) \<Longrightarrow> limit_reachable db'"
| decline: "limit_reachable db \<Longrightarrow> declineLimitRequest rid op' now db = (db', ans) \<Longrightarrow> limit_reachable db'"
| other: "limit_reachable db \<Longrightarrow> lb_requests db' = lb_requests db \<Longrightarrow> limit_reachable db'"

lemma limit_reachable_ok: "limit_reachable db \<Longrightarrow> requests_ok (lb_requests db)"
proof (induction rule: limit_reachable.induct)
  case (start db)
  then show ?case by (simp add: requests_ok_def)
next
  case create
  from create(3,2) show ?case by (rule createLimitRequest_ok)
next
  case trust
  from trust(3,2) show ?case by (rule setWarmupTrust_ok)
next
  case decline
  from decline(3,2) show ?case by (rule declineLimitRequest_ok)
next
  case (other db db')
  then show ?case by simp
qed

lemma trust_rows_cong:
  "lb_requests d1 = lb_requests d2 \<Longrightarrow>
     lb_requests (trust_rows t i b now op' d1) = lb_requests (trust_rows t i b now op' d2)"
  by (simp add: trust_rows_def)

lemma setWarmupTrust_requests:
  "setWarmupTrust t i b now op' db = Some (db', nm) \<Longrightarrow>
     lb_requests db' = lb_requests (trust_rows t i b now op' db)"
  unfolding setWarmupTrust_def Let_def
  by (cases i) (auto intro: trust_rows_cong split: option.splits if_splits)

lemma trust_closes:
  assumes "setWarmupTrust t i True now op' db = Some (db', nm)" "i = None \<or> i = Some j"
  shows "getOpenLimitRequest db' t j = None"
proof -
  have "lb_requests db' = update_rows (\<lambda>r. lr_teamId r = t \<and> lr_status r = ReqOpen
      \<and> (case i of None \<Rightarrow> True | Some i \<Rightarrow> lr_domainId r = i))
      (resolve_request ReqGranted now op') (lb_requests db)"
    using setWarmupTrust_requests [OF assms(1)] by (simp add: trust_rows_def)
  moreover have "\<not> (lr_teamId r = t \<and> lr_domainId r = j \<and> lr_status r = ReqOpen)"
    if "r \<in> set (update_rows (\<lambda>r. lr_teamId r = t \<and> lr_status r = ReqOpen
      \<and> (case i of None \<Rightarrow> True | Some i \<Rightarrow> lr_domainId r = i))
      (resolve_request ReqGranted now op') (lb_requests db))" for r
  proof -
    from that obtain x where "r = (if lr_teamId x = t \<and> lr_status x = ReqOpen
      \<and> (case i of None \<Rightarrow> True | Some i \<Rightarrow> lr_domainId x = i) then resolve_request ReqGranted now op' x else x)"
      unfolding update_rows_def set_map by blast
    then show ?thesis using assms(2) by (cases i) (auto split: if_splits)
  qed
  ultimately show ?thesis unfolding getOpenLimitRequest_def find_None_iff by simp
qed

lemma distinct_map_inj: "distinct (map f xs) \<Longrightarrow> x \<in> set xs \<Longrightarrow> y \<in> set xs \<Longrightarrow> f x = f y \<Longrightarrow> x = y"
  by (auto simp: distinct_map inj_on_def)

text \<open>
  C14: however requests, trusts and declines interleave, a domain has at most one open request,
  a request is open exactly while it has no resolution time, and it asks for 1 to 10,000,000
  a day; and a trust leaves nothing open that it covers.
\<close>

theorem one_open_request:
  assumes "limit_reachable db"
  shows "(r \<in> set (lb_requests db) \<and> r' \<in> set (lb_requests db) \<and> lr_status r = ReqOpen \<and> lr_status r' = ReqOpen
        \<and> lr_domainId r = lr_domainId r' \<longrightarrow> r = r')
    \<and> (r \<in> set (lb_requests db) \<longrightarrow> (lr_status r = ReqOpen \<longleftrightarrow> lr_resolvedAt r = None)
        \<and> 1 \<le> lr_perDay r \<and> lr_perDay r \<le> 10000000)
    \<and> (setWarmupTrust t (Some i) True now op' db = Some (db', nm) \<longrightarrow> getOpenLimitRequest db' t i = None)
    \<and> (setWarmupTrust t None True now op' db = Some (db', nm) \<longrightarrow> getOpenLimitRequest db' t j = None)"
proof -
  have ok: "requests_ok (lb_requests db)" by (rule limit_reachable_ok [OF assms])
  have "r = r'" if "r \<in> set (lb_requests db)" "r' \<in> set (lb_requests db)" "lr_status r = ReqOpen"
      "lr_status r' = ReqOpen" "lr_domainId r = lr_domainId r'"
    using ok that distinct_map_inj [of lr_domainId "filter (\<lambda>r. lr_status r = ReqOpen) (lb_requests db)" r r']
    by (simp add: requests_ok_def)
  moreover have "r \<in> set (lb_requests db) \<longrightarrow> (lr_status r = ReqOpen \<longleftrightarrow> lr_resolvedAt r = None)
        \<and> 1 \<le> lr_perDay r \<and> lr_perDay r \<le> 10000000"
    using ok by (simp add: requests_ok_def LIMIT_REQUEST_PER_DAY_MAX_def)
  ultimately show ?thesis using trust_closes [of t "Some i" now op' db db' nm i]
    trust_closes [of t None now op' db db' nm j] by blast
qed

definition demo_request :: request_input where
  "demo_request = \<lparr>ri_teamId = ''t'', ri_domainId = ''d'', ri_userId = Some ''u'', ri_sends = ''mix'',
     ri_perDay = 5000, ri_source = ''new'', ri_note = None\<rparr>"

theorem one_open_request_witness:
  "\<exists>db1 r. createLimitRequest id demo_caps (\<lambda>_. True) ''r1'' 5 5 demo_request demo_limit = (db1, Inr r)
     \<and> r \<in> set (lb_requests db1) \<and> lr_resolvedAt r = None
     \<and> getOpenLimitRequest (fst (the (setWarmupTrust ''t'' (Some ''d'') True 9 None db1))) ''t'' ''d'' = None"
proof -
  have cap: "warmupCap id demo_caps (\<lambda>_. True) ''t'' (Some ''d'') 5 demo_limit \<noteq> None"
    by (simp add: warmupCap_def demo_limit_def demo_caps_def rowTier_def tierOf_def earned_of_def given_def
        ageTier_exact DAY_MS_def WARMUP_FULL_TIER_def Let_def)
  define c where "c = createLimitRequest id demo_caps (\<lambda>_. True) ''r1'' 5 5 demo_request demo_limit"
  let ?r = "request_row demo_request ''r1'' 5"
  have c: "snd c = Inr ?r" "lb_requests (fst c) = [?r]" "lb_domains (fst c) = lb_domains demo_limit"
    using cap by (simp_all add: c_def createLimitRequest_def request_valid_def demo_request_def trimmed_def
        LIMIT_REQUEST_PER_DAY_MAX_def LIMIT_REQUEST_SENDS_def LIMIT_REQUEST_SOURCES_def insert_request_def
        demo_limit_def)
  have reach: "limit_reachable (fst c)"
    by (rule limit_reachable.create [OF limit_reachable.start, of demo_limit])
      (auto simp: demo_limit_def c_def prod_eq_iff)
  obtain db' nm where t: "setWarmupTrust ''t'' (Some ''d'') True 9 None (fst c) = Some (db', nm)"
    by (simp add: setWarmupTrust_def c(3)) (simp add: demo_limit_def)
  have s: "lr_status ?r = ReqOpen" by (simp add: request_row_def)
  note P = one_open_request [OF reach, of ?r ?r "''t''" "''d''" 9 None db' nm]
  have "lr_resolvedAt ?r = None" "getOpenLimitRequest db' ''t'' ''d'' = None" using P s c(2) t by simp_all
  then show ?thesis using c t c_def by (metis fst_conv list.set_intros(1) option.sel prod.collapse)
qed

section \<open>Lemmas on graduation\<close>

lemma raise_tier_fields [simp]:
  "nd_name (raise_tier n now d) = nd_name d" "nd_registeredAt (raise_tier n now d) = nd_registeredAt d"
  "nd_status (raise_tier n now d) = nd_status d" "nd_trustedAt (raise_tier n now d) = nd_trustedAt d"
  "earned_of (raise_tier n now d) = n" "nd_warmupTierAt (raise_tier n now d) = Some now"
  "nd_warmupTier (raise_tier n now d) = Some n"
  by (simp_all add: raise_tier_def earned_of_def given_def)

lemma set_tier_tables [simp]:
  "lb_sends (set_tier ids n now db) = lb_sends db" "lb_verdicts (set_tier ids n now db) = lb_verdicts db"
  by (simp_all add: set_tier_def)

lemma map_of_set_tier:
  "map_of (lb_domains (set_tier ids n now db)) i =
     (if i \<in> set ids then map_option (raise_tier n now) (map_of (lb_domains db) i)
      else map_of (lb_domains db) i)"
proof -
  have "map_of (update_rows (\<lambda>(i, _). i \<in> set ids)
      (\<lambda>(i, d). (i, raise_tier n now d)) rows) i =
    (if i \<in> set ids then map_option (raise_tier n now) (map_of rows i) else map_of rows i)" for rows
    by (induction rows) (auto simp: update_rows_def)
  then show ?thesis by (simp add: set_tier_def)
qed

lemma keys_set_tier: "map fst (lb_domains (set_tier ids n now db)) = map fst (lb_domains db)"
proof -
  have "map fst (update_rows (\<lambda>(i, _). i \<in> set ids)
      (\<lambda>(i, d). (i, raise_tier n now d)) rows) = map fst rows" for rows
    by (induction rows) (auto simp: update_rows_def)
  then show ?thesis by (simp add: set_tier_def)
qed

lemma cleanSince_cong:
  "lb_sends a = lb_sends b \<Longrightarrow> lb_verdicts a = lb_verdicts b \<Longrightarrow> cleanSince g since now a = cleanSince g since now b"
  by (simp add: cleanSince_def settled_sends_def)

lemma group_moves_cong:
  assumes "lb_sends a = lb_sends b" "lb_verdicts a = lb_verdicts b"
  shows "group_moves g now a = group_moves g now b"
proof -
  have "cleanSince g since now a = cleanSince g since now b" for since by (rule cleanSince_cong [OF assms])
  then show ?thesis by (simp only: group_moves_def)
qed

lemma group_moves_set_tier [simp]: "group_moves g now (set_tier ids n now' db) = group_moves g now db"
  by (rule group_moves_cong) simp_all

lemma graduate_groups_moved:
  "snd (graduate_groups gs now db) = map fst (filter (\<lambda>(_, g). group_moves g now db \<noteq> None) gs)"
  by (induction gs now db rule: graduate_groups.induct) (auto split: option.split prod.split)

lemma graduate_groups_keys:
  "map fst (lb_domains (fst (graduate_groups gs now db))) = map fst (lb_domains db)"
  by (induction gs now db rule: graduate_groups.induct) (auto simp: keys_set_tier split: option.split prod.split)

lemma graduate_groups_other:
  "(\<And>key g. (key, g) \<in> set gs \<Longrightarrow> group_moves g now db \<noteq> None \<Longrightarrow> i \<notin> fst ` set g) \<Longrightarrow>
     map_of (lb_domains (fst (graduate_groups gs now db))) i = map_of (lb_domains db) i"
proof (induction gs arbitrary: db)
  case (Cons kg gs)
  obtain key g where kg: "kg = (key, g)" by (cases kg)
  show ?case
  proof (cases "group_moves g now db")
    case None
    have "map_of (lb_domains (fst (graduate_groups gs now db))) i = map_of (lb_domains db) i"
      by (rule Cons.IH) (use Cons.prems kg in auto)
    then show ?thesis using None by (simp add: kg)
  next
    case (Some n)
    then have "i \<notin> fst ` set g" using Cons.prems [of key g] kg by simp
    moreover have "map_of (lb_domains (fst (graduate_groups gs now (set_tier (map fst g) n now db)))) i
        = map_of (lb_domains (set_tier (map fst g) n now db)) i"
      by (rule Cons.IH) (use Cons.prems kg in auto)
    ultimately show ?thesis using Some by (simp add: kg map_of_set_tier case_prod_beta)
  qed
qed simp

lemma graduate_groups_raised:
  "(key, g) \<in> set gs \<Longrightarrow> group_moves g now db = Some n \<Longrightarrow> i \<in> fst ` set g \<Longrightarrow>
   distinct (map fst gs) \<Longrightarrow>
   (\<And>k h k' h'. (k, h) \<in> set gs \<Longrightarrow> (k', h') \<in> set gs \<Longrightarrow> k \<noteq> k' \<Longrightarrow> fst ` set h \<inter> fst ` set h' = {}) \<Longrightarrow>
     map_of (lb_domains (fst (graduate_groups gs now db))) i
       = map_option (raise_tier n now) (map_of (lb_domains db) i)"
proof (induction gs arbitrary: db)
  case (Cons kg gs)
  obtain k h where kg: "kg = (k, h)" by (cases kg)
  have IH: "map_of (lb_domains (fst (graduate_groups gs now db'))) i
        = map_option (raise_tier n now) (map_of (lb_domains db') i)"
    if a: "(key, g) \<in> set gs" "group_moves g now db' = Some n" for db'
  proof (rule Cons.IH [OF a Cons.prems(3)])
    show "distinct (map fst gs)" using Cons.prems(4) by simp
  next
    fix k h k' h' assume "(k, h) \<in> set gs" "(k', h') \<in> set gs" "k \<noteq> k'"
    then show "fst ` set h \<inter> fst ` set h' = {}" using Cons.prems(5) [of k h k' h'] by simp
  qed
  show ?case
  proof (cases "(key, g) = (k, h)")
    case True
    define db1 where "db1 = set_tier (map fst h) n now db"
    have "map_of (lb_domains (fst (graduate_groups gs now db1))) i = map_of (lb_domains db1) i"
    proof (rule graduate_groups_other)
      fix k' h' assume m: "(k', h') \<in> set gs"
      have "k' \<noteq> k" using m Cons.prems(4) kg by force
      then have "fst ` set h' \<inter> fst ` set h = {}" using Cons.prems(5) [of k' h' k h] m kg by simp
      then show "i \<notin> fst ` set h'" using Cons.prems(3) True by blast
    qed
    then show ?thesis using True Cons.prems(2,3)
      by (simp add: kg db1_def map_of_set_tier case_prod_beta)
  next
    case False
    then have m: "(key, g) \<in> set gs" using Cons.prems(1) kg by auto
    have "key \<noteq> k" using m Cons.prems(4) kg by force
    then have "fst ` set g \<inter> fst ` set h = {}" using Cons.prems(5) [of key g k h] m kg by simp
    then have i: "i \<notin> fst ` set h" using Cons.prems(3) by blast
    show ?thesis
    proof (cases "group_moves h now db")
      case None
      then show ?thesis using IH [OF m Cons.prems(2)] by (simp add: kg)
    next
      case (Some n')
      then show ?thesis using IH [OF m, of "set_tier (map fst h) n' now db"] Cons.prems(2) i
        by (simp add: kg map_of_set_tier case_prod_beta)
    qed
  qed
qed simp

lemma keyed_filter:
  "map snd (filter (\<lambda>p. fst p = key) (map (\<lambda>(i, d). (f d, (i, d))) (filter (P \<circ> snd) rows)))
     = filter (\<lambda>(i, d). P d \<and> f d = key) rows"
  by (induction rows) auto

lemma warming_groups_spec:
  shows "distinct (map fst (warming_groups owner now db))"
    and "(key, g) \<in> set (warming_groups owner now db) \<Longrightarrow>
      g \<noteq> [] \<and> g = filter (\<lambda>(i, d). mayWarmUp now d \<and> owner (nd_name d) = key) (lb_domains db)"
proof -
  define kvs where "kvs = map (\<lambda>(i, d). (owner (nd_name d), (i, d))) (filter (mayWarmUp now \<circ> snd) (lb_domains db))"
  have w: "warming_groups owner now db = group_pairs kvs" by (simp add: warming_groups_def kvs_def)
  note G = group_pairs_spec [of kvs]
  show "distinct (map fst (warming_groups owner now db))" using G w by simp
  assume "(key, g) \<in> set (warming_groups owner now db)"
  then have m: "(key, g) \<in> set (group_pairs kvs)" using w by simp
  then have "g = map snd (filter (\<lambda>p. fst p = key) kvs)" using G by blast
  also have "\<dots> = filter (\<lambda>(i, d). mayWarmUp now d \<and> owner (nd_name d) = key) (lb_domains db)"
    unfolding kvs_def by (rule keyed_filter)
  finally have g: "g = filter (\<lambda>(i, d). mayWarmUp now d \<and> owner (nd_name d) = key) (lb_domains db)" .
  have "key \<in> fst ` set (group_pairs kvs)" using image_eqI [OF _ m, of key fst] by simp
  then have "key \<in> fst ` set kvs" using G by simp
  then obtain i d where "(i, d) \<in> set (lb_domains db)" "mayWarmUp now d" "owner (nd_name d) = key"
    by (auto simp: kvs_def)
  then have "(i, d) \<in> set g" by (simp add: g)
  then show "g \<noteq> [] \<and> g = filter (\<lambda>(i, d). mayWarmUp now d \<and> owner (nd_name d) = key) (lb_domains db)"
    using g by (metis empty_iff empty_set)
qed

lemma same_registeredAt:
  assumes "g \<noteq> []" "\<And>i d. (i, d) \<in> set g \<Longrightarrow> nd_registeredAt d = r"
  shows "group_registeredAt g = r"
proof -
  obtain i d g' where g: "g = (i, d) # g'" using assms(1) by (metis neq_Nil_conv surj_pair)
  have "List.map_filter (nd_registeredAt \<circ> snd) h = []" if "r = None" "set h \<subseteq> set g" for h
    using that by (induction h) (auto simp: List.map_filter_simps dest: assms(2))
  moreover have "set g' \<subseteq> set g" using g by auto
  ultimately have "r = None \<Longrightarrow> List.map_filter (nd_registeredAt \<circ> snd) g' = []" by blast
  then show ?thesis using assms(2) [of i d] g
    by (cases r) (auto simp: group_registeredAt_def List.map_filter_simps)
qed

lemma max_of_const: "xs \<noteq> [] \<Longrightarrow> (\<And>x. x \<in> set xs \<Longrightarrow> x = n) \<Longrightarrow> max_of xs = n"
  using fold_max_mem by (cases xs) (fastforce simp: max_of_def)+

lemma max_of_upper: "x \<in> set xs \<Longrightarrow> x \<le> max_of xs"
  by (cases xs) (auto simp: max_of_def fold_max_ge fold_max_upper)

text \<open>A clean span has a delivered send between its start and a day ago.\<close>

lemma cleanSince_day: "cleanSince g since now db \<Longrightarrow> since + DAY_MS \<le> now"
proof -
  assume c: "cleanSince g since now db"
  let ?P = "\<lambda>m. st_delivered m \<and> (case st_sentAt m of None \<Rightarrow> False
     | Some a \<Rightarrow> a \<le> now - WARMUP_GRADUATION_MIN_SPAN_MS)"
  have "tally ?P (settled_sends g since now db) \<noteq> 0"
    using c unfolding cleanSince_def Let_def by meson
  then have "filter ?P (settled_sends g since now db) \<noteq> []" by (auto simp: tally_def)
  then obtain m where "m \<in> set (settled_sends g since now db)" "?P m" by (auto simp: filter_empty_conv)
  then show ?thesis
    by (auto simp: settled_sends_def WARMUP_GRADUATION_MIN_SPAN_MS_def split: option.splits)
qed

lemma group_moves_SomeD:
  assumes "group_moves g now db = Some n"
  shows "n = max (group_byAge g now) (group_earned g) + 1" "n \<le> 3" "group_since g now + DAY_MS \<le> now"
  using assms cleanSince_day [of g "group_since g now" now db]
  by (auto simp: group_moves_def Let_def WARMUP_FULL_TIER_def split: if_splits)

lemma mayWarmUp_earlier: "mayWarmUp t2 d \<Longrightarrow> t1 \<le> t2 \<Longrightarrow> mayWarmUp t1 d"
  by (auto simp: mayWarmUp_def split: option.splits)

text \<open>Rows of one registrable domain carry one registration date.\<close>

definition shared_dates :: "(string \<Rightarrow> string) \<Rightarrow> (ident \<times> new_domain) list \<Rightarrow> bool" where
  "shared_dates owner rows \<longleftrightarrow> list_all (\<lambda>(_, d). list_all (\<lambda>(_, e).
     owner (nd_name d) = owner (nd_name e) \<longrightarrow> nd_registeredAt d = nd_registeredAt e) rows) rows"

lemma shared_datesD:
  "shared_dates owner rows \<Longrightarrow> (i, d) \<in> set rows \<Longrightarrow> (j, e) \<in> set rows \<Longrightarrow>
     owner (nd_name d) = owner (nd_name e) \<Longrightarrow> nd_registeredAt d = nd_registeredAt e"
  unfolding shared_dates_def list_all_iff by fast

lemma row_after_graduation:
  assumes gs: "gs = warming_groups owner now db" and dist: "distinct (map fst (lb_domains db))"
    and db1: "db1 = fst (graduate_groups gs now db)"
    and g: "(key, g) \<in> set gs" "group_moves g now db = Some n"
    and row: "(i, d2) \<in> set (lb_domains db1)" "mayWarmUp now2 d2" "owner (nd_name d2) = key" "now \<le> now2"
  shows "\<exists>d. (i, d) \<in> set g \<and> d2 = raise_tier n now d"
proof -
  note W = warming_groups_spec [where owner = owner and now = now and db = db, folded gs]
  have inj: "map_of (lb_domains db) i = Some d \<longleftrightarrow> (i, d) \<in> set (lb_domains db)" for i d
    using dist by simp
  have mem: "(j, e) \<in> set h \<longleftrightarrow> (j, e) \<in> set (lb_domains db) \<and> mayWarmUp now e \<and> owner (nd_name e) = k"
    if "(k, h) \<in> set gs" for j e k h using W(2) [OF that] by auto
  have keys: "map fst (lb_domains db1) = map fst (lb_domains db)" unfolding db1 by (rule graduate_groups_keys)
  have d2: "map_of (lb_domains db1) i = Some d2" using row(1) dist keys by (intro map_of_is_SomeI) auto
  have "i \<in> fst ` set (lb_domains db)"
    using row(1) keys by (metis fst_conv image_eqI list.set_map)
  then obtain d where d: "map_of (lb_domains db) i = Some d" using inj by force
  show ?thesis
  proof (cases "\<exists>k h m. (k, h) \<in> set gs \<and> group_moves h now db = Some m \<and> i \<in> fst ` set h")
    case True
    then obtain k h m where h: "(k, h) \<in> set gs" "group_moves h now db = Some m" "i \<in> fst ` set h" by blast
    have "map_of (lb_domains db1) i = map_option (raise_tier m now) (map_of (lb_domains db) i)" unfolding db1
    proof (rule graduate_groups_raised [OF h W(1)])
      fix a x b y assume a: "(a, x) \<in> set gs" "(b, y) \<in> set gs" "a \<noteq> b"
      show "fst ` set x \<inter> fst ` set y = {}"
      proof (rule ccontr)
        assume "fst ` set x \<inter> fst ` set y \<noteq> {}"
        then obtain j e e' where e: "(j, e) \<in> set x" "(j, e') \<in> set y" by force
        then have "map_of (lb_domains db) j = Some e" "map_of (lb_domains db) j = Some e'"
          using mem [OF a(1)] mem [OF a(2)] inj by blast+
        then have "e = e'" by simp
        then show False using e mem [OF a(1), of j e] mem [OF a(2), of j e'] a(3) by simp
      qed
    qed
    then have raised: "d2 = raise_tier m now d" using d d2 by simp
    obtain e where e: "(i, e) \<in> set h" using h(3) by force
    then have "e = d" using mem [OF h(1), of i e] d inj [of i e] by auto
    then have "k = key" using mem [OF h(1), of i e] e raised row(3) by simp
    then have "h = g" using W(2) [OF h(1)] W(2) [OF g(1)] by simp
    then show ?thesis using raised e \<open>e = d\<close> h(2) g(2) by auto
  next
    case False
    have "map_of (lb_domains db1) i = map_of (lb_domains db) i" unfolding db1
      by (rule graduate_groups_other) (use False in blast)
    then have "d2 = d" using d d2 by simp
    then have "(i, d) \<in> set g"
      using mem [OF g(1), of i d] d inj [of i d] row mayWarmUp_earlier by blast
    then show ?thesis using False g by force
  qed
qed

lemma graduation_twice:
  assumes gs: "gs = warming_groups owner now db" and dist: "distinct (map fst (lb_domains db))"
    and reg: "shared_dates owner (lb_domains db)"
    and db1: "db1 = fst (graduate_groups gs now db)" and rows: "lb_domains db2 = lb_domains db1"
    and time: "now \<le> now2" "now2 < now + DAY_MS" "0 \<le> now"
    and g: "(key, g) \<in> set gs" "group_moves g now db = Some n"
    and g2: "(key, g2) \<in> set (warming_groups owner now2 db2)"
  shows "group_moves g2 now2 db2 = None"
proof (rule ccontr)
  assume "group_moves g2 now2 db2 \<noteq> None"
  then obtain n2 where n2: "group_moves g2 now2 db2 = Some n2" by blast
  note N = group_moves_SomeD [OF g(2)] and N2 = group_moves_SomeD [OF n2]
  have G: "g \<noteq> []" "\<And>i d. (i, d) \<in> set g \<Longrightarrow> (i, d) \<in> set (lb_domains db) \<and> owner (nd_name d) = key"
    using warming_groups_spec(2) [of key g owner now db] g(1) gs by auto
  have G2: "g2 \<noteq> []" "\<exists>d. (i, d) \<in> set g \<and> d2 = raise_tier n now d" if "(i, d2) \<in> set g2" for i d2
  proof -
    have "(i, d2) \<in> set (lb_domains db1)" "mayWarmUp now2 d2" "owner (nd_name d2) = key"
      using warming_groups_spec(2) [OF g2] that rows by auto
    then show "\<exists>d. (i, d) \<in> set g \<and> d2 = raise_tier n now d"
      by (rule row_after_graduation [OF gs dist db1 g _ _ _ time(1)])
  qed (use that in auto)
  have ne: "g2 \<noteq> []" using warming_groups_spec(2) [OF g2] by blast
  obtain i0 d0 where "(i0, d0) \<in> set g" using G(1) by (metis list.set_intros(1) neq_Nil_conv surj_pair)
  define r where "r = nd_registeredAt d0"
  have r: "nd_registeredAt d = r" if "(i, d) \<in> set g" for i d
    using shared_datesD [OF reg, of i d i0 d0] G(2) that \<open>(i0, d0) \<in> set g\<close> by (simp add: r_def)
  have r1: "group_registeredAt g = r" by (rule same_registeredAt [OF G(1)]) (rule r)
  have r2: "group_registeredAt g2 = r"
  proof (rule same_registeredAt [OF ne])
    fix i d assume "(i, d) \<in> set g2"
    then show "nd_registeredAt d = r" using G2(2) r by fastforce
  qed
  have e2: "group_earned g2 = n" unfolding group_earned_def
  proof (rule max_of_const)
    fix x assume "x \<in> set (map (earned_of \<circ> snd) g2)"
    then show "x = n" using G2(2) by fastforce
  qed (use ne in simp)
  have at2: "now \<le> fold max (map (\<lambda>(_, d). given (nd_warmupTierAt d) 0) g2) 0"
  proof (rule fold_max_upper)
    obtain i d2 where m: "(i, d2) \<in> set g2" using ne by (metis list.set_intros(1) neq_Nil_conv surj_pair)
    then have "given (nd_warmupTierAt d2) 0 = now" using G2(2) by (fastforce simp: given_def)
    then show "now \<in> set (map (\<lambda>(_, d). given (nd_warmupTierAt d) 0) g2)" using m by force
  qed
  have "now \<le> group_since g2 now2"
  proof (cases r)
    case None
    then show ?thesis using at2 by (simp add: group_since_def Let_def r2)
  next
    case (Some q)
    show ?thesis
    proof (cases "ageTier q now2 \<le> n")
      case True
      then show ?thesis using at2 Some by (simp add: group_since_def Let_def r2 group_byAge_def e2)
    next
      case False
      have "ageTier q now2 < 3" using N2(1,2) Some r2 by (simp add: group_byAge_def)
      moreover have "ageTier q now + 1 \<le> n" using N(1) Some r1 by (simp add: group_byAge_def)
      ultimately have "ageTier q now2 = 2" "ageTier q now = 0"
        using False ageTier_bounds(1) [of q now] by linarith+
      then have "7 * DAY_MS \<le> now2 - q" "now - q < DAY_MS"
        using ageTier_ge_iff [of 2 q now2] ageTier_ge_iff [of 1 q now] by auto
      then show ?thesis using time DAY_MS_pos by linarith
    qed
  qed
  then show False using N2(3) time(2) by linarith
qed


definition demo_graduate :: limit_db where
  "demo_graduate = demo_limit\<lparr>lb_sends := replicate 50 \<lparr>st_teamId = ''t'', st_domainId = Some ''d'',
     st_sentAt = Some (DAY_MS + 5), st_delivered = True, st_bounced = False, st_complained = False,
     st_simulator = False\<rparr>\<rparr>"

lemma dbl_pos_gt: "0 < x \<Longrightarrow> 0 < dbl x"
proof -
  assume "0 < x"
  then have "0 < x * (1 - 1 / 2 ^ 53)" by simp
  also have "\<dots> \<le> dbl x" using \<open>0 < x\<close> by (intro dbl_ge) simp
  finally show ?thesis .
qed

lemma demo_graduates: "snd (graduateWarmupDomains id demo_caps (3 * DAY_MS) demo_graduate) = [''mail.young.example'']"
proof -
  let ?g = "lb_domains demo_limit"
  have w: "warming_groups id (3 * DAY_MS) demo_graduate = [(''mail.young.example'', ?g)]"
    by (simp add: warming_groups_def demo_graduate_def demo_limit_def mayWarmUp_def WARMUP_TIER_DAYS_def
        DAY_MS_def group_pairs_def)
  have b: "group_byAge ?g (3 * DAY_MS) = 1" and e: "group_earned ?g = 0"
    by (simp_all add: group_byAge_def group_registeredAt_def demo_limit_def List.map_filter_simps
        ageTier_exact DAY_MS_def group_earned_def max_of_def earned_of_def given_def)
  have sn: "group_since ?g (3 * DAY_MS) = DAY_MS"
    unfolding group_since_def b e
    by (simp add: group_registeredAt_def demo_limit_def List.map_filter_simps)
  have st: "settled_sends ?g DAY_MS (3 * DAY_MS) demo_graduate = lb_sends demo_graduate"
    by (simp add: settled_sends_def demo_graduate_def demo_limit_def DAY_MS_def
        WARMUP_GRADUATION_SETTLE_MS_def filter_replicate)
  have "cleanSince ?g DAY_MS (3 * DAY_MS) demo_graduate"
    unfolding cleanSince_def st using dbl_pos_gt [of "2 / 100"] dbl_pos_gt [of "1 / 1000"]
    by (simp add: tally_def demo_graduate_def filter_replicate WARMUP_GRADUATION_SENDS_def DAY_MS_def
        WARMUP_GRADUATION_MIN_SPAN_MS_def js_div_def WARMUP_GRADUATION_MAX_BOUNCE_RATE_def
        WARMUP_GRADUATION_MAX_COMPLAINT_RATE_def dbl_def demo_limit_def)
  then have "group_moves ?g (3 * DAY_MS) demo_graduate = Some 2"
    by (simp add: group_moves_def b e sn WARMUP_FULL_TIER_def)
  then show ?thesis
    by (simp add: graduateWarmupDomains_def w demo_caps_def case_prod_beta)
qed


end
