(* ===== verification/Mailbox.thy ===== *)
theory Mailbox
  imports Prelude
begin

text \<open>
  \<open>packages/core/src/sender-address.ts\<close>: the strict parser of one mailbox that every
  address field goes through, its serialisation, and the sender view that domain
  verification compares. Characters are Latin-1. \<open>routableAddress\<close> (IDNA) is not modelled.
\<close>

section \<open>Characters\<close>

definition DQ :: char where "DQ = CHR 0x22"
definition BS :: char where "BS = CHR 0x5C"

definition is_control :: "char \<Rightarrow> bool" where
  "is_control c \<longleftrightarrow> (let n = of_char c :: nat in n \<le> 31 \<or> n = 127)"

definition is_alnum :: "char \<Rightarrow> bool" where
  "is_alnum c \<longleftrightarrow> (let n = of_char c :: nat in 48 \<le> n \<and> n \<le> 57 \<or> 65 \<le> n \<and> n \<le> 90 \<or> 97 \<le> n \<and> n \<le> 122)"

definition is_atext :: "char \<Rightarrow> bool" where
  "is_atext c \<longleftrightarrow> is_alnum c
     \<or> c \<in> {CHR ''!'', CHR 0x23, CHR ''$'', CHR ''%'', CHR ''&'', CHR 0x27, CHR ''*'', CHR ''+'', CHR ''/'',
            CHR ''='', CHR ''?'', CHR ''^'', CHR ''_'', CHR 0x60, CHR 0x7B, CHR ''|'', CHR 0x7D, CHR 0x7E,
            CHR ''-''}"

definition lower_ascii :: "char \<Rightarrow> char" where
  "lower_ascii c = (let n = of_char c :: nat in if 65 \<le> n \<and> n \<le> 90 then char_of (n + 32) else c)"

section \<open>The address\<close>

definition PLAIN_PHRASE :: "string \<Rightarrow> bool" where
  "PLAIN_PHRASE s \<longleftrightarrow> s \<noteq> [] \<and> list_all (\<lambda>c. is_atext c \<or> c = CHR '' '') s"

definition LOCAL_DOT_ATOM :: "string \<Rightarrow> bool" where
  "LOCAL_DOT_ATOM s \<longleftrightarrow> s \<noteq> [] \<and> list_all (\<lambda>c. is_atext c \<or> c = CHR ''.'') s"

definition label_ok :: "string \<Rightarrow> bool" where
  "label_ok l \<longleftrightarrow> l \<noteq> [] \<and> is_alnum (hd l) \<and> is_alnum (last l) \<and> list_all (\<lambda>c. is_alnum c \<or> c = CHR ''-'') l"

fun split_dots :: "string \<Rightarrow> string list" where
  "split_dots [] = [[]]"
| "split_dots (c # cs) =
     (if c = CHR ''.'' then [] # split_dots cs
      else case split_dots cs of [] \<Rightarrow> [[c]] | l # ls \<Rightarrow> (c # l) # ls)"

definition DOMAIN :: "string \<Rightarrow> bool" where
  "DOMAIN d \<longleftrightarrow> list_all label_ok (split_dots d)"

text \<open>The quoted local part from after its opening quote: up to the closing one, and the rest.\<close>

fun quoted_tail :: "string \<Rightarrow> (string \<times> string) option" where
  "quoted_tail [] = None"
| "quoted_tail [c] = (if c = DQ then Some ([c], []) else None)"
| "quoted_tail (c # d # ds) =
     (if c = DQ then Some ([c], d # ds)
      else if c = BS then map_option (\<lambda>(a, r). (c # d # a, r)) (quoted_tail ds)
      else map_option (\<lambda>(a, r). (c # a, r)) (quoted_tail (d # ds)))"

text \<open>Split at the last \<open>@\<close>, which starts the second part.\<close>

definition at_last :: "string \<Rightarrow> (string \<times> string) option" where
  "at_last s =
     (if CHR ''@'' \<in> set s
      then Some (rev (tl (dropWhile (\<lambda>c. c \<noteq> CHR ''@'') (rev s))),
                 CHR ''@'' # rev (takeWhile (\<lambda>c. c \<noteq> CHR ''@'') (rev s)))
      else None)"

definition parseAddrSpec :: "string \<Rightarrow> string option" where
  "parseAddrSpec spec =
     (let s = js_trim spec;
          parts = (if s \<noteq> [] \<and> hd s = DQ
                   then map_option (\<lambda>(q, r). (DQ # q, r)) (quoted_tail (tl s))
                   else Option.bind (at_last s) (\<lambda>(l, r). if LOCAL_DOT_ATOM l then Some (l, r) else None))
      in case parts of
           None \<Rightarrow> None
         | Some (l, r) \<Rightarrow>
             if r = [] \<or> hd r \<noteq> CHR ''@'' then None
             else if \<not> DOMAIN (tl r) then None
             else Some (l @ CHR ''@'' # tl r))"

section \<open>The mailbox\<close>

record mailbox =
  mb_name :: "string option"
  mb_address :: string

record mail_scan =
  ms_quotes :: bool
  ms_escaped :: bool
  ms_open :: "nat option"
  ms_close :: "nat option"

fun scan_mailbox :: "nat \<Rightarrow> string \<Rightarrow> mail_scan \<Rightarrow> mail_scan option" where
  "scan_mailbox i [] s = Some s"
| "scan_mailbox i (ch # cs) s =
     (if ms_escaped s then scan_mailbox (Suc i) cs (s\<lparr>ms_escaped := False\<rparr>)
      else if ms_quotes s \<and> ch = BS then scan_mailbox (Suc i) cs (s\<lparr>ms_escaped := True\<rparr>)
      else if ch = DQ then scan_mailbox (Suc i) cs (s\<lparr>ms_quotes := \<not> ms_quotes s\<rparr>)
      else if ms_quotes s then scan_mailbox (Suc i) cs s
      else if ch = CHR '','' \<or> ch = CHR '';'' then None
      else if ch = CHR ''<'' then
        (if ms_open s \<noteq> None then None else scan_mailbox (Suc i) cs (s\<lparr>ms_open := Some i\<rparr>))
      else if ch = CHR ''>'' then
        (if ms_open s = None \<or> ms_close s \<noteq> None then None
         else scan_mailbox (Suc i) cs (s\<lparr>ms_close := Some i\<rparr>))
      else scan_mailbox (Suc i) cs s)"

fun unquote_inner :: "string \<Rightarrow> string option" where
  "unquote_inner [] = Some []"
| "unquote_inner [c] = (if c = DQ then None else Some [c])"
| "unquote_inner (c # d # ds) =
     (if c = BS then map_option (\<lambda>s. d # s) (unquote_inner ds)
      else if c = DQ then None else map_option (\<lambda>s. c # s) (unquote_inner (d # ds)))"

definition unquotePhrase :: "string \<Rightarrow> string" where
  "unquotePhrase phrase =
     (if length phrase < 2 \<or> hd phrase \<noteq> DQ \<or> last phrase \<noteq> DQ then phrase
      else case unquote_inner (butlast (tl phrase)) of None \<Rightarrow> phrase | Some s \<Rightarrow> js_trim s)"

definition parseMailbox :: "string \<Rightarrow> mailbox option" where
  "parseMailbox input =
     (let t = js_trim input in
      if t = [] \<or> list_ex is_control t then None
      else case scan_mailbox 0 t \<lparr>ms_quotes = False, ms_escaped = False, ms_open = None, ms_close = None\<rparr> of
        None \<Rightarrow> None
      | Some s \<Rightarrow>
          if ms_quotes s then None
          else case ms_open s of
            None \<Rightarrow> map_option (\<lambda>a. \<lparr>mb_name = None, mb_address = a\<rparr>) (parseAddrSpec t)
          | Some opn \<Rightarrow>
              (case ms_close s of
                 None \<Rightarrow> None
               | Some cls \<Rightarrow>
                   let phrase = js_trim (take opn t) in
                   if js_trim (drop (cls + 1) t) \<noteq> [] then None
                   else if CHR ''@'' \<in> set phrase then None
                   else case parseAddrSpec (drop (opn + 1) (take cls t)) of
                     None \<Rightarrow> None
                   | Some a \<Rightarrow>
                       let name = unquotePhrase phrase
                       in Some \<lparr>mb_name = (if name = [] then None else Some name), mb_address = a\<rparr>))"

definition escape_phrase :: "string \<Rightarrow> string" where
  "escape_phrase s = concat (map (\<lambda>c. if c = DQ \<or> c = BS then [BS, c] else [c]) s)"

definition formatMailbox :: "mailbox \<Rightarrow> string" where
  "formatMailbox m =
     (let name = (case mb_name m of None \<Rightarrow> [] | Some n \<Rightarrow> js_trim n) in
      if name = [] then mb_address m
      else (if PLAIN_PHRASE name then name else DQ # escape_phrase name @ [DQ])
             @ '' <'' @ mb_address m @ ''>'')"

definition parseSingleSender :: "string \<Rightarrow> (string \<times> string) option" where
  "parseSingleSender from' =
     map_option (\<lambda>m. (mb_address m, map lower_ascii
        (case at_last (mb_address m) of None \<Rightarrow> mb_address m | Some (_, r) \<Rightarrow> tl r))) (parseMailbox from')"

section \<open>Lemmas on addresses\<close>

lemma split_dots_ne [simp]: "split_dots s \<noteq> []"
  by (cases s) (auto split: list.split)

lemma split_dots_mem: "c \<in> set s \<Longrightarrow> c \<noteq> CHR ''.'' \<Longrightarrow> \<exists>l \<in> set (split_dots s). c \<in> set l"
proof (induction s)
  case (Cons a s)
  obtain l ls where l: "split_dots s = l # ls" by (meson split_dots_ne neq_Nil_conv)
  show ?case using Cons l by (cases "c = a") (auto simp: l)
qed simp

lemma split_dots_single: "split_dots s = [[]] \<longleftrightarrow> s = []"
  by (cases s) (auto split: list.splits)

lemma DOMAIN_chars: "DOMAIN d \<Longrightarrow> c \<in> set d \<Longrightarrow> is_alnum c \<or> c = CHR ''-'' \<or> c = CHR ''.''"
  using split_dots_mem [of c d] by (auto simp: DOMAIN_def label_ok_def list_all_iff)

lemma last_split_dots: "d \<noteq> [] \<Longrightarrow> last (split_dots d) \<noteq> [] \<Longrightarrow> last (last (split_dots d)) = last d"
proof (induction d)
  case (Cons a d)
  obtain l ls where l: "split_dots d = l # ls" by (meson split_dots_ne neq_Nil_conv)
  show ?case
  proof (cases "d = []")
    case True
    then show ?thesis using Cons.prems by (auto split: if_splits)
  next
    case False
    then have "\<not> (l = [] \<and> ls = [])" using split_dots_single [of d] l by simp
    then show ?thesis using Cons False l by (cases ls) (auto split: if_splits)
  qed
qed simp

lemma DOMAIN_last: "DOMAIN d \<Longrightarrow> d \<noteq> [] \<and> is_alnum (last d)"
proof -
  assume d: "DOMAIN d"
  then have ne: "d \<noteq> []" by (auto simp: DOMAIN_def label_ok_def)
  have "label_ok (last (split_dots d))" using d by (simp add: DOMAIN_def list_all_iff)
  then show ?thesis using ne last_split_dots [OF ne] by (auto simp: label_ok_def)
qed

text \<open>The characters that steer the scan or the trim are in none of the plain classes.\<close>

definition plain :: "char \<Rightarrow> bool" where
  "plain c \<longleftrightarrow> c \<noteq> DQ \<and> c \<noteq> CHR '','' \<and> c \<noteq> CHR '';'' \<and> c \<noteq> CHR ''<'' \<and> c \<noteq> CHR ''>''"

lemma is_alnum_facts:
  assumes "is_alnum c"
  shows "plain c" "\<not> js_space c" "\<not> is_control c" "c \<noteq> CHR ''@''"
  using assms by (auto simp: is_alnum_def plain_def js_space_def is_control_def DQ_def Let_def)

lemma is_atext_facts:
  assumes "is_atext c"
  shows "plain c" "\<not> js_space c" "\<not> is_control c" "c \<noteq> CHR ''@''"
  using assms is_alnum_facts [of c]
  by (auto simp: is_atext_def plain_def js_space_def is_control_def DQ_def Let_def)

lemma DOMAIN_plain:
  assumes "DOMAIN d" "c \<in> set d"
  shows "plain c" "\<not> js_space c" "\<not> is_control c" "c \<noteq> CHR ''@''"
  using DOMAIN_chars [OF assms] is_alnum_facts [of c]
  by (auto simp: plain_def js_space_def is_control_def DQ_def Let_def)

lemma LOCAL_plain:
  assumes "LOCAL_DOT_ATOM l" "c \<in> set l"
  shows "plain c" "\<not> js_space c" "\<not> is_control c" "c \<noteq> CHR ''@''"
proof -
  have "is_atext c \<or> c = CHR ''.''" using assms by (auto simp: LOCAL_DOT_ATOM_def list_all_iff)
  then show "plain c" "\<not> js_space c" "\<not> is_control c" "c \<noteq> CHR ''@''"
    using is_atext_facts [of c] by (auto simp: plain_def js_space_def is_control_def DQ_def Let_def)
qed

lemma quoted_tail_append:
  "quoted_tail xs = Some (q, r) \<Longrightarrow> xs = q @ r \<and> q \<noteq> [] \<and> quoted_tail (q @ r') = Some (q, r')"
proof (induction xs arbitrary: q r rule: quoted_tail.induct)
  case (2 c)
  then show ?case by (cases r') (auto split: if_splits)
next
  case (3 c d ds)
  show ?case
  proof (cases "c = DQ")
    case True
    then show ?thesis using "3.prems" by (cases r') auto
  next
    case c: False
    show ?thesis
    proof (cases "c = BS")
      case True
      then obtain a where "quoted_tail ds = Some (a, r)" "q = c # d # a" using "3.prems" c by auto
      then show ?thesis using "3.IH"(1) [OF c True, of a r] True c by simp
    next
      case False
      then obtain a where a: "quoted_tail (d # ds) = Some (a, r)" "q = c # a" using "3.prems" c by auto
      note IH = "3.IH"(2) [OF c False, of a r, OF a(1)]
      then obtain e es where "a = e # es" by (cases a) auto
      then show ?thesis using IH a False c by simp
    qed
  qed
qed simp

lemma quoted_tail_set: "quoted_tail xs = Some (q, r) \<Longrightarrow> set q \<subseteq> set xs \<and> set r \<subseteq> set xs"
  using quoted_tail_append [of xs q r] by auto

lemma at_last_append: "CHR ''@'' \<notin> set d \<Longrightarrow> at_last (l @ CHR ''@'' # d) = Some (l, CHR ''@'' # d)"
proof -
  assume d: "CHR ''@'' \<notin> set d"
  have "takeWhile (\<lambda>c. c \<noteq> CHR ''@'') (rev d @ CHR ''@'' # rev l) = rev d"
    "dropWhile (\<lambda>c. c \<noteq> CHR ''@'') (rev d @ CHR ''@'' # rev l) = CHR ''@'' # rev l"
    using d by (subst takeWhile_append2 dropWhile_append2; force)+
  then show ?thesis by (simp add: at_last_def)
qed

lemma set_tl_subset: "set (tl xs) \<subseteq> set xs"
  by (cases xs) auto

lemma at_last_set:
  assumes "at_last s = Some (l, r)"
  shows "set l \<subseteq> set s" "set r \<subseteq> set s" "CHR ''@'' \<in> set s"
proof -
  have s: "CHR ''@'' \<in> set s" "l = rev (tl (dropWhile (\<lambda>c. c \<noteq> CHR ''@'') (rev s)))"
    "r = CHR ''@'' # rev (takeWhile (\<lambda>c. c \<noteq> CHR ''@'') (rev s))"
    using assms by (auto simp: at_last_def split: if_splits)
  show "CHR ''@'' \<in> set s" by (rule s(1))
  show "set l \<subseteq> set s" unfolding s(2) set_rev
    using set_tl_subset set_dropWhileD [of _ "\<lambda>c. c \<noteq> CHR ''@''" "rev s"] by fastforce
  show "set r \<subseteq> set s" unfolding s(3)
    using s(1) set_takeWhileD [of _ "\<lambda>c. c \<noteq> CHR ''@''" "rev s"] by auto
qed

text \<open>What an accepted address looks like, and that parsing it again gives it back.\<close>

definition addr_form :: "string \<Rightarrow> string \<Rightarrow> bool" where
  "addr_form l d \<longleftrightarrow> DOMAIN d \<and> (LOCAL_DOT_ATOM l \<or> (\<exists>q. l = DQ # q \<and> quoted_tail q = Some (q, [])))"

lemma parseAddrSpec_form:
  assumes "parseAddrSpec s = Some a"
  shows "\<exists>l d. a = l @ CHR ''@'' # d \<and> addr_form l d \<and> set a \<subseteq> set s"
proof -
  let ?t = "js_trim s"
  show ?thesis
  proof (cases "?t \<noteq> [] \<and> hd ?t = DQ")
    case True
    then obtain q r where q: "quoted_tail (tl ?t) = Some (q, r)" "r \<noteq> []" "hd r = CHR ''@''" "DOMAIN (tl r)"
      "a = (DQ # q) @ CHR ''@'' # tl r"
      using assms by (auto simp: parseAddrSpec_def Let_def split: option.splits if_splits)
    have "set ?t = insert DQ (set (tl ?t))" using True by (cases ?t) auto
    moreover have "set (tl r) \<subseteq> set r" by (cases r) auto
    moreover have "CHR ''@'' \<in> set r" using q(2,3) by (cases r) auto
    ultimately have "set a \<subseteq> set ?t" using quoted_tail_set [OF q(1)] q(5) by auto
    then have "set a \<subseteq> set s" using set_js_trim [of s] by blast
    moreover have "quoted_tail q = Some (q, [])" using quoted_tail_append [OF q(1), of "[]"] by simp
    ultimately show ?thesis using q(4,5) by (intro exI [of _ "DQ # q"] exI [of _ "tl r"]) (simp add: addr_form_def)
  next
    case False
    then obtain l r where l: "at_last ?t = Some (l, r)" "LOCAL_DOT_ATOM l" "DOMAIN (tl r)"
      "a = l @ CHR ''@'' # tl r"
      using assms by (auto simp: parseAddrSpec_def Let_def split: option.splits if_splits bind_splits)
    have "set l \<subseteq> set ?t" "set r \<subseteq> set ?t" "CHR ''@'' \<in> set ?t" "set (tl r) \<subseteq> set r"
      by (rule at_last_set [OF l(1)] set_tl_subset)+
    then have "set a \<subseteq> set s" using set_js_trim [of s] l(4) by auto
    then show ?thesis using l by (auto simp: addr_form_def)
  qed
qed

lemma parseAddrSpec_again:
  assumes "addr_form l d"
  shows "parseAddrSpec (l @ CHR ''@'' # d) = Some (l @ CHR ''@'' # d)" "js_trim (l @ CHR ''@'' # d) = l @ CHR ''@'' # d"
proof -
  let ?a = "l @ CHR ''@'' # d"
  have d: "DOMAIN d" using assms by (simp add: addr_form_def)
  note dl = DOMAIN_last [OF d]
  have last: "\<not> js_space (last ?a)" using dl is_alnum_facts(2) by simp
  have noat: "CHR ''@'' \<notin> set d" using DOMAIN_plain(4) [OF d] by blast
  have "\<not> js_space (hd ?a)"
  proof (cases l)
    case Nil
    then show ?thesis by (simp add: js_space_def)
  next
    case (Cons c cs)
    then show ?thesis using assms LOCAL_plain(2) [of l c]
      by (auto simp: addr_form_def js_space_def DQ_def)
  qed
  then show t: "js_trim ?a = ?a" using last by (intro js_trim_id) simp_all
  consider "LOCAL_DOT_ATOM l" | q where "l = DQ # q" "quoted_tail q = Some (q, [])"
    using assms by (auto simp: addr_form_def)
  then show "parseAddrSpec ?a = Some ?a"
  proof cases
    case 1
    then obtain c cs where l: "l = c # cs" by (cases l) (auto simp: LOCAL_DOT_ATOM_def)
    then have "c \<noteq> DQ" using LOCAL_plain(1) [OF 1, of c] by (simp add: plain_def)
    then show ?thesis using 1 d l t at_last_append [OF noat, of l]
      by (simp add: parseAddrSpec_def)
  next
    case 2
    then show ?thesis using d t quoted_tail_append [OF 2(2), of "CHR ''@'' # d"]
      by (simp add: parseAddrSpec_def)
  qed
qed

section \<open>Lemmas on the scan\<close>

lemma scan_append:
  "scan_mailbox i (xs @ ys) s = Option.bind (scan_mailbox i xs s) (scan_mailbox (i + length xs) ys)"
  by (induction i xs s rule: scan_mailbox.induct) auto

lemma scan_plain:
  "(\<And>c. c \<in> set xs \<Longrightarrow> plain c) \<Longrightarrow> \<not> ms_quotes s \<Longrightarrow> \<not> ms_escaped s \<Longrightarrow> scan_mailbox i xs s = Some s"
  by (induction xs arbitrary: i) (auto simp: plain_def)

lemma scan_noops:
  "\<not> ms_escaped s \<Longrightarrow> s\<lparr>ms_escaped := False\<rparr> = s" "\<not> ms_quotes s \<Longrightarrow> s\<lparr>ms_quotes := False\<rparr> = s"
  by (cases s; simp)+

lemma scan_quoted_tail:
  "quoted_tail q = Some (q, []) \<Longrightarrow> ms_quotes s \<Longrightarrow> \<not> ms_escaped s \<Longrightarrow>
     scan_mailbox i q s = Some (s\<lparr>ms_quotes := False\<rparr>)"
proof (induction q arbitrary: i rule: quoted_tail.induct)
  case (2 c)
  then show ?case by (auto simp: DQ_def BS_def split: if_splits)
next
  case (3 c d ds)
  show ?case
  proof (cases "c = BS")
    case True
    then have c: "c \<noteq> DQ" by (simp add: DQ_def BS_def)
    then have "quoted_tail ds = Some (ds, [])" using "3.prems"(1) True by auto
    then have "scan_mailbox (Suc (Suc i)) ds s = Some (s\<lparr>ms_quotes := False\<rparr>)"
      using "3.IH"(1) [OF c True] "3.prems"(2,3) by blast
    then show ?thesis using "3.prems"(2,3) True by (simp add: scan_noops)
  next
    case False
    show ?thesis
    proof (cases "c = DQ")
      case True
      then show ?thesis using "3.prems"(1) by simp
    next
      case c: False
      then have "quoted_tail (d # ds) = Some (d # ds, [])" using "3.prems"(1) False by auto
      then have "scan_mailbox (Suc i) (d # ds) s = Some (s\<lparr>ms_quotes := False\<rparr>)"
        using "3.IH"(2) [OF c False] "3.prems"(2,3) by blast
      then show ?thesis using "3.prems"(2,3) c False by simp
    qed
  qed
qed simp

lemma scan_addr:
  assumes "addr_form l d" "\<not> ms_quotes s" "\<not> ms_escaped s"
  shows "scan_mailbox i (l @ CHR ''@'' # d) s = Some s"
proof -
  have d: "scan_mailbox j (CHR ''@'' # d) s = Some s" for j
    by (rule scan_plain) (use assms DOMAIN_plain(1) [of d] in \<open>auto simp: addr_form_def plain_def DQ_def\<close>)
  consider "LOCAL_DOT_ATOM l" | q where "l = DQ # q" "quoted_tail q = Some (q, [])"
    using assms by (auto simp: addr_form_def)
  then have "scan_mailbox i l s = Some s"
  proof cases
    case 1
    show ?thesis by (rule scan_plain) (use 1 LOCAL_plain(1) assms in auto)
  next
    case 2
    have "scan_mailbox (Suc i) q (s\<lparr>ms_quotes := True\<rparr>) = Some (s\<lparr>ms_quotes := True\<rparr>\<lparr>ms_quotes := False\<rparr>)"
      by (rule scan_quoted_tail) (use 2 assms in auto)
    then show ?thesis using assms(2,3) 2(1) by (simp add: scan_noops)
  qed
  then show ?thesis unfolding scan_append by (simp only: d bind.bind_lunit)
qed

lemma scan_escaped:
  "ms_quotes s \<Longrightarrow> \<not> ms_escaped s \<Longrightarrow> scan_mailbox i (escape_phrase n @ [DQ]) s = Some (s\<lparr>ms_quotes := False\<rparr>)"
proof (induction n arbitrary: i)
  case Nil
  then show ?case by (simp add: escape_phrase_def DQ_def BS_def)
next
  case (Cons c n)
  show ?case
  proof (cases "c = DQ \<or> c = BS")
    case True
    then have "escape_phrase (c # n) = BS # c # escape_phrase n" by (simp add: escape_phrase_def)
    then show ?thesis using Cons.IH [of "Suc (Suc i)"] Cons.prems by (simp add: scan_noops)
  next
    case False
    then have "escape_phrase (c # n) = c # escape_phrase n" by (simp add: escape_phrase_def)
    then show ?thesis using Cons.IH [of "Suc i"] Cons.prems False by simp
  qed
qed

lemma unquote_escape: "unquote_inner (escape_phrase n) = Some n"
proof (induction n)
  case (Cons c n)
  show ?case
  proof (cases "c = DQ \<or> c = BS")
    case True
    then have "escape_phrase (c # n) = BS # c # escape_phrase n" by (simp add: escape_phrase_def)
    then show ?thesis using Cons.IH by simp
  next
    case False
    then have "escape_phrase (c # n) = c # escape_phrase n" by (simp add: escape_phrase_def)
    then show ?thesis using Cons.IH False by (cases "escape_phrase n") auto
  qed
qed (simp add: escape_phrase_def)

lemma set_escape: "set (escape_phrase n) \<subseteq> insert BS (set n)"
  by (auto simp: escape_phrase_def)

section \<open>Lemmas on mailboxes\<close>

definition mailbox_ok :: "mailbox \<Rightarrow> bool" where
  "mailbox_ok m \<longleftrightarrow> (\<exists>l d. mb_address m = l @ CHR ''@'' # d \<and> addr_form l d)
     \<and> list_all (\<lambda>c. \<not> is_control c) (mb_address m)
     \<and> (case mb_name m of None \<Rightarrow> True
        | Some n \<Rightarrow> n \<noteq> [] \<and> js_trim n = n \<and> CHR ''@'' \<notin> set n \<and> list_all (\<lambda>c. \<not> is_control c) n)"

lemma unquote_inner_set: "unquote_inner s = Some r \<Longrightarrow> set r \<subseteq> set s"
  by (induction s arbitrary: r rule: unquote_inner.induct) (fastforce split: if_splits)+

lemma unquotePhrase_facts: "js_trim p = p \<Longrightarrow> set (unquotePhrase p) \<subseteq> set p \<and> js_trim (unquotePhrase p) = unquotePhrase p"
proof -
  assume t: "js_trim p = p"
  have b: "set (butlast (tl p)) \<subseteq> set p" by (meson in_set_butlastD set_tl_subset subset_eq)
  show ?thesis
  proof (cases "length p < 2 \<or> hd p \<noteq> DQ \<or> last p \<noteq> DQ")
    case True
    then show ?thesis using t by (simp add: unquotePhrase_def)
  next
    case False
    then have u: "unquotePhrase p = (case unquote_inner (butlast (tl p)) of None \<Rightarrow> p | Some s \<Rightarrow> js_trim s)"
      by (simp add: unquotePhrase_def)
    show ?thesis
    proof (cases "unquote_inner (butlast (tl p))")
      case None
      then show ?thesis using t u by simp
    next
      case (Some r)
      then have "set (js_trim r) \<subseteq> set p" using unquote_inner_set [OF Some] set_js_trim [of r] b by blast
      then show ?thesis using u Some by simp
    qed
  qed
qed

lemma parseMailbox_ok:
  assumes "parseMailbox input = Some m"
  shows "mailbox_ok m"
proof -
  define t where "t = js_trim input"
  have nc: "\<not> is_control c" if "c \<in> set t" for c
    using assms that by (auto simp: parseMailbox_def t_def [symmetric] Let_def list_ex_iff split: if_splits)
  consider a where "parseAddrSpec t = Some a" "m = \<lparr>mb_name = None, mb_address = a\<rparr>"
    | i j a where "parseAddrSpec (drop (i + 1) (take j t)) = Some a" "CHR ''@'' \<notin> set (js_trim (take i t))"
      "m = \<lparr>mb_name = (if unquotePhrase (js_trim (take i t)) = [] then None
            else Some (unquotePhrase (js_trim (take i t)))), mb_address = a\<rparr>"
    using assms unfolding parseMailbox_def t_def [symmetric] Let_def
    by (auto split: if_splits option.splits)
  then show ?thesis
  proof cases
    case 1
    then show ?thesis using parseAddrSpec_form [OF 1(1)] nc by (auto simp: mailbox_ok_def list_all_iff)
  next
    case 2
    have s: "set (drop (i + 1) (take j t)) \<subseteq> set t" "set (take i t) \<subseteq> set t"
      by (meson in_set_dropD in_set_takeD subsetI)+
    let ?n = "unquotePhrase (js_trim (take i t))"
    have n: "set ?n \<subseteq> set (js_trim (take i t))" "js_trim ?n = ?n"
      using unquotePhrase_facts [of "js_trim (take i t)"] by simp_all
    then have "set ?n \<subseteq> set t" using s(2) set_js_trim by blast
    then show ?thesis using parseAddrSpec_form [OF 2(1)] nc s n 2(2,3)
      by (auto simp: mailbox_ok_def list_all_iff)
  qed
qed

lemma unquote_plain: "PLAIN_PHRASE n \<Longrightarrow> unquotePhrase n = n"
proof -
  assume p: "PLAIN_PHRASE n"
  then have "hd n \<noteq> DQ" using is_atext_facts(1) [of "hd n"]
    by (cases n) (auto simp: PLAIN_PHRASE_def plain_def DQ_def)
  then show ?thesis by (simp add: unquotePhrase_def)
qed

lemma unquote_quoted: "js_trim n = n \<Longrightarrow> unquotePhrase (DQ # escape_phrase n @ [DQ]) = n"
  by (simp add: unquotePhrase_def butlast_append unquote_escape)

text \<open>The phrase the formatter writes: it scans to nothing, is trimmed, and reads back as the name.\<close>

definition phrase_of :: "string \<Rightarrow> string" where
  "phrase_of n = (if PLAIN_PHRASE n then n else DQ # escape_phrase n @ [DQ])"

lemma quote_chars:
  "\<not> js_space DQ" "DQ \<noteq> CHR ''@''" "\<not> is_control DQ" "BS \<noteq> CHR ''@''" "\<not> is_control BS" "BS \<noteq> DQ"
  by (simp_all add: js_space_def is_control_def DQ_def BS_def)

lemma phrase_of_set: "set (phrase_of n) \<subseteq> insert DQ (insert BS (set n))"
  using set_escape [of n] by (auto simp: phrase_of_def)

lemma phrase_of_ends:
  assumes "n \<noteq> []" "js_trim n = n"
  shows "phrase_of n \<noteq> []" "\<not> js_space (hd (phrase_of n))" "js_trim (phrase_of n) = phrase_of n"
proof -
  have n: "\<not> js_space (hd n)" "\<not> js_space (last n)" using js_trim_ends [of n] assms by simp_all
  show ne: "phrase_of n \<noteq> []" using assms(1) by (simp add: phrase_of_def)
  show h: "\<not> js_space (hd (phrase_of n))" using n quote_chars by (simp add: phrase_of_def)
  have "\<not> js_space (last (phrase_of n))" using n quote_chars by (simp add: phrase_of_def)
  with ne h show "js_trim (phrase_of n) = phrase_of n" by (rule js_trim_id)
qed

lemma phrase_of_chars:
  assumes "CHR ''@'' \<notin> set n" "list_all (\<lambda>c. \<not> is_control c) n"
  shows "CHR ''@'' \<notin> set (phrase_of n)" "\<not> list_ex is_control (phrase_of n)"
proof -
  have mem: "c = DQ \<or> c = BS \<or> c \<in> set n" if "c \<in> set (phrase_of n)" for c
    using subsetD [OF phrase_of_set that] by simp
  show "CHR ''@'' \<notin> set (phrase_of n)" using mem [of "CHR ''@''"] assms(1) quote_chars(2,4) by metis
  show "\<not> list_ex is_control (phrase_of n)"
    using mem assms(2) quote_chars(3,5) unfolding list_all_iff list_ex_iff by metis
qed

lemma unquote_phrase_of: "js_trim n = n \<Longrightarrow> unquotePhrase (phrase_of n) = n"
  using unquote_plain [of n] unquote_quoted [of n] by (simp add: phrase_of_def)

lemma scan_phrase_of:
  assumes "\<not> ms_quotes s" "\<not> ms_escaped s"
  shows "scan_mailbox i (phrase_of n) s = Some s"
proof (cases "PLAIN_PHRASE n")
  case True
  have "plain c" if "c \<in> set n" for c
    using True that is_atext_facts(1) [of c] by (auto simp: PLAIN_PHRASE_def list_all_iff plain_def DQ_def)
  then show ?thesis using True scan_plain [of n s i] assms by (simp add: phrase_of_def)
next
  case False
  have "scan_mailbox (Suc i) (escape_phrase n @ [DQ]) (s\<lparr>ms_quotes := True\<rparr>)
      = Some (s\<lparr>ms_quotes := True\<rparr>\<lparr>ms_quotes := False\<rparr>)"
    by (rule scan_escaped) (use assms in auto)
  then show ?thesis using False assms quote_chars(6) by (simp add: phrase_of_def scan_noops)
qed

lemma format_parse_no_name:
  assumes "mailbox_ok m" "mb_name m = None"
  shows "parseMailbox (formatMailbox m) = Some m"
proof -
  obtain l d where a: "mb_address m = l @ CHR ''@'' # d" "addr_form l d" using assms(1) by (auto simp: mailbox_ok_def)
  let ?s = "\<lparr>ms_quotes = False, ms_escaped = False, ms_open = None, ms_close = None\<rparr>"
  have "scan_mailbox 0 (l @ CHR ''@'' # d) ?s = Some ?s" by (rule scan_addr [OF a(2)]) simp_all
  moreover have "\<not> list_ex is_control (l @ CHR ''@'' # d)"
    using assms(1) a(1) by (auto simp: mailbox_ok_def list_ex_iff list_all_iff)
  ultimately show ?thesis using parseAddrSpec_again [OF a(2)] a(1) assms(2)
    by (simp add: parseMailbox_def formatMailbox_def Let_def del: list_ex_append)
qed

lemma format_parse_name:
  assumes "mailbox_ok m" "mb_name m = Some n"
  shows "parseMailbox (formatMailbox m) = Some m"
proof -
  obtain l d where a: "mb_address m = l @ CHR ''@'' # d" "addr_form l d" using assms(1) by (auto simp: mailbox_ok_def)
  have n: "n \<noteq> []" "js_trim n = n" "CHR ''@'' \<notin> set n" "list_all (\<lambda>c. \<not> is_control c) n"
    using assms by (auto simp: mailbox_ok_def)
  note P = unquote_phrase_of [OF n(2)] phrase_of_ends(3,1,2) [OF n(1,2)] phrase_of_chars [OF n(3,4)] scan_phrase_of
  define p where "p = phrase_of n"
  define adr where "adr = l @ CHR ''@'' # d"
  define t where "t = p @ CHR '' '' # CHR ''<'' # adr @ [CHR ''>'']"
  have f: "formatMailbox m = t"
    using assms(2) n(1,2) by (simp add: formatMailbox_def t_def p_def phrase_of_def adr_def a(1) Let_def)
  have ne: "t \<noteq> []" by (simp add: t_def)
  have trim: "js_trim t = t"
    by (rule js_trim_id) (use P(3,4) in \<open>auto simp: t_def p_def js_space_def\<close>)
  have nc: "\<not> list_ex is_control t"
    using P(6) assms(1) a(1)
    by (auto simp: t_def p_def adr_def mailbox_ok_def list_ex_iff list_all_iff is_control_def)
  let ?s = "\<lparr>ms_quotes = False, ms_escaped = False, ms_open = None, ms_close = None\<rparr>"
  let ?o = "Suc (length p)"
  let ?s1 = "?s\<lparr>ms_open := Some ?o\<rparr>"
  have sp: "scan_mailbox 0 p ?s = Some ?s" unfolding p_def by (rule P(7)) simp_all
  have sa: "scan_mailbox (Suc ?o) adr ?s1 = Some ?s1" unfolding adr_def by (rule scan_addr [OF a(2)]) simp_all
  have "scan_mailbox 0 t ?s = scan_mailbox (0 + length p) (CHR '' '' # CHR ''<'' # adr @ [CHR ''>'']) ?s"
    unfolding t_def scan_append sp by (simp only: bind.bind_lunit)
  also have "\<dots> = scan_mailbox (Suc ?o) (adr @ [CHR ''>'']) ?s1"
    by (simp add: DQ_def)
  also have "\<dots> = scan_mailbox (Suc ?o + length adr) [CHR ''>''] ?s1"
    unfolding scan_append sa by (simp only: bind.bind_lunit)
  also have "\<dots> = Some (?s1\<lparr>ms_close := Some (Suc ?o + length adr)\<rparr>)" by (simp add: DQ_def)
  finally have scan: "scan_mailbox 0 t ?s = Some (?s1\<lparr>ms_close := Some (Suc ?o + length adr)\<rparr>)" .
  have tk: "take ?o t = p @ [CHR '' '']" "drop (Suc ?o) (take (Suc ?o + length adr) t) = adr"
    "drop (Suc (Suc ?o + length adr)) t = []"
    by (simp_all add: t_def take_Cons')
  have ptrim: "js_trim (p @ [CHR '' '']) = p"
    using P(2,3) unfolding p_def by (intro js_trim_space) (simp_all add: js_space_def)
  show ?thesis
    using assms(2) n(1) trim ne nc scan tk ptrim P(1,5) parseAddrSpec_again(1) [OF a(2)]
    unfolding f parseMailbox_def adr_def [symmetric] p_def [symmetric]
    by (simp add: Let_def a(1) adr_def [symmetric])
qed

section \<open>Properties\<close>

text \<open>
  C16: what the parser accepts, it accepts again. Formatting a parsed mailbox, with the display
  name quoted and escaped where it has to be, and parsing the result gives the same mailbox, so
  no rewriting of an accepted address on its way to the wire can name another one.
\<close>

theorem mailbox_roundtrip:
  assumes "parseMailbox input = Some m"
  shows "parseMailbox (formatMailbox m) = Some m"
  using format_parse_no_name format_parse_name parseMailbox_ok [OF assms] by (cases "mb_name m") auto

theorem mailbox_roundtrip_witness:
  "parseMailbox (formatMailbox \<lparr>mb_name = Some ''Acme, Inc.'', mb_address = ''a@b.co''\<rparr>)
     = Some \<lparr>mb_name = Some ''Acme, Inc.'', mb_address = ''a@b.co''\<rparr>"
proof (rule mailbox_roundtrip)
  show "parseMailbox (CHR 0x22 # ''Acme, Inc.'' @ CHR 0x22 # ''  <a@b.co> '')
      = Some \<lparr>mb_name = Some ''Acme, Inc.'', mb_address = ''a@b.co''\<rparr>"
    by code_simp
qed



end
