(* ===== verification/Recipients.thy ===== *)
theory Recipients
  imports Mailbox TeamStanding
begin

text \<open>
  \<open>packages/core/src/suppressions.ts\<close> and \<open>topics.ts\<close>: who a team may not write to. A
  suppression is kept under a hash of the address, so every spelling of a mailbox has to come to
  the same hash. \<open>text_lib\<close> holds what the runtime and the database compute on text: NFKC
  normalization, the two lower-casings and SHA-256.
\<close>

section \<open>Addresses and their hashes\<close>

record text_lib =
  tl_nfkc :: "string \<Rightarrow> string"
  tl_lower :: "string \<Rightarrow> string"
  tl_sha256 :: "string \<Rightarrow> string"
  tl_pgLower :: "string \<Rightarrow> string"

text \<open>The elements of an array in the order a \<open>Set\<close> or the keys of a \<open>Map\<close> keep them.\<close>

definition js_set :: "'a list \<Rightarrow> 'a list" where
  "js_set xs = rev (remdups (rev xs))"

lemma set_js_set [simp]: "set (js_set xs) = set xs"
  by (simp add: js_set_def)

lemma distinct_js_set [simp]: "distinct (js_set xs)"
  by (simp add: js_set_def)

text \<open>The match of \<open>/<([^<>]+)>\s*$/\<close> in a trimmed string.\<close>

definition angle_tail :: "string \<Rightarrow> string option" where
  "angle_tail t =
     (case rev t of
        [] \<Rightarrow> None
      | c # cs \<Rightarrow>
          if c \<noteq> CHR ''>'' then None
          else
            let inner = takeWhile (\<lambda>d. d \<noteq> CHR ''<'' \<and> d \<noteq> CHR ''>'') cs;
                before = dropWhile (\<lambda>d. d \<noteq> CHR ''<'' \<and> d \<noteq> CHR ''>'') cs
            in if inner \<noteq> [] \<and> before \<noteq> [] \<and> hd before = CHR ''<'' then Some (rev inner) else None)"

definition extractAddrSpec :: "string \<Rightarrow> string" where
  "extractAddrSpec recipient =
     (case parseMailbox recipient of
        Some m \<Rightarrow> mb_address m
      | None \<Rightarrow> js_trim (case angle_tail (js_trim recipient) of Some a \<Rightarrow> a | None \<Rightarrow> recipient))"

definition drop_root_dot :: "string \<Rightarrow> string" where
  "drop_root_dot s = (if s \<noteq> [] \<and> last s = CHR ''.'' then butlast s else s)"

definition normalizeAddress :: "text_lib \<Rightarrow> string \<Rightarrow> string" where
  "normalizeAddress lib address = drop_root_dot (tl_lower lib (tl_nfkc lib address))"

definition GMAIL_DOMAINS :: "string list" where
  "GMAIL_DOMAINS = [''gmail.com'', ''googlemail.com'']"

definition mailboxIdentity :: "text_lib \<Rightarrow> string \<Rightarrow> string" where
  "mailboxIdentity lib email =
     (let address = normalizeAddress lib (js_trim email) in
      case at_last address of
        None \<Rightarrow> address
      | Some (l, r) \<Rightarrow>
          if l = [] then address
          else
            let local = takeWhile (\<lambda>c. c \<noteq> CHR ''+'') l; domain = tl r
            in if domain \<in> set GMAIL_DOMAINS
               then filter (\<lambda>c. c \<noteq> CHR ''.'') local @ CHR ''@'' # ''gmail.com''
               else local @ CHR ''@'' # domain)"

definition hashRecipient :: "text_lib \<Rightarrow> string \<Rightarrow> string" where
  "hashRecipient lib email = tl_sha256 lib (normalizeAddress lib (extractAddrSpec email))"

definition legacyHashRecipient :: "text_lib \<Rightarrow> string \<Rightarrow> string" where
  "legacyHashRecipient lib email = tl_sha256 lib (tl_lower lib (extractAddrSpec email))"

definition suppressionHashesFor :: "text_lib \<Rightarrow> string \<Rightarrow> string list" where
  "suppressionHashesFor lib email = js_set [hashRecipient lib email, legacyHashRecipient lib email]"

section \<open>Suppressions\<close>

datatype suppression_reason_kind = HardBounce | Complaint | ManualBlock | OneClickUnsubscribe

definition SUPPRESSION_ORIGIN_BY_REASON :: "suppression_reason_kind \<Rightarrow> string" where
  "SUPPRESSION_ORIGIN_BY_REASON r =
     (case r of HardBounce \<Rightarrow> ''bounce'' | Complaint \<Rightarrow> ''complaint'' | ManualBlock \<Rightarrow> ''manual''
      | OneClickUnsubscribe \<Rightarrow> ''unsubscribe'')"

record suppression_row =
  sp_id :: ident
  sp_teamId :: ident
  sp_email :: "string option"
  sp_emailHash :: string
  sp_reason :: suppression_reason_kind
  sp_sourceEmailId :: "ident option"
  sp_createdAt :: instant

definition findSuppressed ::
    "text_lib \<Rightarrow> suppression_row list \<Rightarrow> ident \<Rightarrow> string list \<Rightarrow> bool \<Rightarrow> string list" where
  "findSuppressed lib rows teamId recipients transactional =
     (let hashes = concat (map (suppressionHashesFor lib) recipients);
          found = map sp_emailHash (filter (\<lambda>s. sp_teamId s = teamId \<and> sp_emailHash s \<in> set hashes
             \<and> (transactional \<longrightarrow> sp_reason s \<noteq> OneClickUnsubscribe)) rows)
      in filter (\<lambda>r. list_ex (\<lambda>h. h \<in> set found) (suppressionHashesFor lib r)) (js_set recipients))"

definition findSuppressionsFor ::
    "text_lib \<Rightarrow> suppression_row list \<Rightarrow> ident \<Rightarrow> string list \<Rightarrow> suppression_row list" where
  "findSuppressionsFor lib rows teamId recipients =
     (let hashes = concat (map (suppressionHashesFor lib) recipients)
      in rev (sort_key (\<lambda>s. (sp_createdAt s, sp_id s))
           (filter (\<lambda>s. sp_teamId s = teamId \<and> sp_emailHash s \<in> set hashes) rows)))"

text \<open>The rows left and the rows deleted.\<close>

definition clearUnsubscribeSuppression ::
    "text_lib \<Rightarrow> ident \<Rightarrow> string \<Rightarrow> suppression_row list \<Rightarrow> suppression_row list \<times> suppression_row list" where
  "clearUnsubscribeSuppression lib teamId email rows =
     (let P = (\<lambda>s. sp_teamId s = teamId \<and> sp_reason s = OneClickUnsubscribe
                 \<and> sp_emailHash s \<in> set (suppressionHashesFor lib email))
      in (filter (\<lambda>s. \<not> P s) rows, filter P rows))"

text \<open>\<open>insert ... on conflict do nothing\<close> on the unique index of team and hash.\<close>

definition insert_suppression :: "suppression_row \<Rightarrow> suppression_row list \<Rightarrow> suppression_row list \<times> bool" where
  "insert_suppression s rows =
     (if list_ex (\<lambda>x. sp_id x = sp_id s \<or> (sp_teamId x = sp_teamId s \<and> sp_emailHash x = sp_emailHash s)) rows
      then (rows, False) else (rows @ [s], True))"

section \<open>Topics\<close>

record topic_row =
  tp_id :: ident
  tp_teamId :: ident
  tp_defaultSubscribed :: bool

record topic_sub =
  tu_contactId :: ident
  tu_topicId :: ident
  tu_subscribed :: bool

record topic_broadcast =
  tb_id :: ident
  tb_topicId :: "ident option"

text \<open>A sealed body or attachment is kept as the ciphertext it is.\<close>

record mail_row = email_row +
  ma_domainId :: "ident option"
  ma_apiKeyId :: "ident option"
  ma_contactId :: "ident option"
  ma_topicId :: "ident option"
  ma_cc :: "string list option"
  ma_bcc :: "string list option"
  ma_replyTo :: "string list option"
  ma_tags :: "(string \<times> string) list option"
  ma_headers :: "(string \<times> string) list option"
  ma_body :: "string option"
  ma_attachments :: "string option"
  ma_bodyPurgedAt :: "instant option"
  ma_scheduledAt :: "instant option"
  ma_parkedAt :: "instant option"
  ma_inboxId :: "ident option"
  ma_threadId :: "ident option"
  ma_firstContact :: bool

record topic_db =
  td_topics :: "topic_row list"
  td_subs :: "topic_sub list"
  td_contacts :: "contact_row list"
  td_broadcasts :: "topic_broadcast list"
  td_mails :: "mail_row list"

definition isSubscribedToTopic :: "bool option \<Rightarrow> bool \<Rightarrow> bool" where
  "isSubscribedToTopic override defaultSubscribed =
     (case override of Some b \<Rightarrow> b | None \<Rightarrow> defaultSubscribed)"

text \<open>A map filled in order: the last entry of a key stays.\<close>

definition js_map_of :: "('k \<times> 'v) list \<Rightarrow> 'k \<Rightarrow> 'v option" where
  "js_map_of kvs = map_of (rev kvs)"

definition findTopicOptOuts ::
    "text_lib \<Rightarrow> topic_db \<Rightarrow> ident \<Rightarrow> ident \<Rightarrow> string list \<Rightarrow> string list option" where
  "findTopicOptOuts lib db teamId topicId recipients =
     (if recipients = [] then Some []
      else case List.find (\<lambda>t. tp_id t = topicId \<and> tp_teamId t = teamId) (td_topics db) of
        None \<Rightarrow> None
      | Some topic \<Rightarrow>
          let addr = (\<lambda>r. tl_lower lib (extractAddrSpec r));
              contacts = filter (\<lambda>c. ct_teamId c = teamId
                 \<and> tl_pgLower lib (ct_email c) \<in> set (map addr recipients)) (td_contacts db);
              contactByAddr = js_map_of (map (\<lambda>c. (tl_lower lib (ct_email c), c)) contacts);
              overrides = js_map_of (map (\<lambda>s. (tu_contactId s, tu_subscribed s))
                 (filter (\<lambda>s. tu_topicId s = topicId \<and> tu_contactId s \<in> set (map ct_id contacts)) (td_subs db)))
          in Some (filter (\<lambda>r. case contactByAddr (addr r) of
                None \<Rightarrow> \<not> isSubscribedToTopic None (tp_defaultSubscribed topic)
              | Some c \<Rightarrow> ct_unsubscribed c
                  \<or> \<not> isSubscribedToTopic (overrides (ct_id c)) (tp_defaultSubscribed topic))
              (js_set recipients)))"

datatype topic_delete_refusal = TopicNotFound | TopicInBroadcast | TopicEmailsWaiting

definition waiting_for_topic :: "ident \<Rightarrow> ident \<Rightarrow> mail_row \<Rightarrow> bool" where
  "waiting_for_topic teamId topicId e \<longleftrightarrow> er_teamId e = teamId \<and> ma_topicId e = Some topicId
     \<and> (er_latestStatus e = Queued \<or> er_latestStatus e = QueuedQuota) \<and> er_sesMessageId e = None"

text \<open>The delete with the actions of its foreign keys: subscriptions go, emails lose the topic.\<close>

definition drop_topic :: "ident \<Rightarrow> topic_db \<Rightarrow> topic_db" where
  "drop_topic topicId db =
     db\<lparr>td_topics := filter (\<lambda>t. tp_id t \<noteq> topicId) (td_topics db),
        td_subs := filter (\<lambda>s. tu_topicId s \<noteq> topicId) (td_subs db),
        td_mails := update_rows (\<lambda>e. ma_topicId e = Some topicId) (\<lambda>e. e\<lparr>ma_topicId := None\<rparr>) (td_mails db)\<rparr>"

definition deleteTopic :: "ident \<Rightarrow> ident \<Rightarrow> topic_db \<Rightarrow> topic_db \<times> topic_delete_refusal option" where
  "deleteTopic teamId topicId db =
     (if List.find (\<lambda>t. tp_id t = topicId \<and> tp_teamId t = teamId) (td_topics db) = None
      then (db, Some TopicNotFound)
      else if list_ex (\<lambda>b. tb_topicId b = Some topicId) (td_broadcasts db) then (db, Some TopicInBroadcast)
      else if list_ex (waiting_for_topic teamId topicId) (td_mails db) then (db, Some TopicEmailsWaiting)
      else (drop_topic topicId db, None))"

section \<open>Lemmas\<close>

lemma mailbox_ok_bare: "mailbox_ok m \<Longrightarrow> mailbox_ok (m\<lparr>mb_name := None\<rparr>)"
  by (simp add: mailbox_ok_def)

lemma parse_bare_address:
  assumes "parseMailbox input = Some m"
  shows "parseMailbox (mb_address m) = Some \<lparr>mb_name = None, mb_address = mb_address m\<rparr>"
proof -
  let ?m = "m\<lparr>mb_name := None\<rparr>"
  have "parseMailbox (formatMailbox ?m) = Some ?m"
    by (rule format_parse_no_name [OF mailbox_ok_bare [OF parseMailbox_ok [OF assms]]]) simp
  then show ?thesis by (cases m) (simp add: formatMailbox_def)
qed

lemma extractAddrSpec_parsed [simp]: "parseMailbox input = Some m \<Longrightarrow> extractAddrSpec input = mb_address m"
  by (simp add: extractAddrSpec_def)

lemma extractAddrSpec_again:
  assumes "parseMailbox input = Some m"
  shows "extractAddrSpec (mb_address m) = mb_address m" "extractAddrSpec (formatMailbox m) = mb_address m"
  using parse_bare_address [OF assms] format_parse_no_name format_parse_name parseMailbox_ok [OF assms]
  by (simp, cases "mb_name m") auto

lemma hashRecipient_in: "hashRecipient lib r \<in> set (suppressionHashesFor lib r)"
  by (simp add: suppressionHashesFor_def)

lemma findSuppressed_set:
  "set (findSuppressed lib rows teamId rs transactional) =
     {r \<in> set rs. \<exists>s \<in> set rows. sp_teamId s = teamId \<and> sp_emailHash s \<in> set (suppressionHashesFor lib r)
        \<and> (transactional \<longrightarrow> sp_reason s \<noteq> OneClickUnsubscribe)}"
  by (auto simp: findSuppressed_def Let_def list_ex_iff)

lemma isSubscribedToTopic_simps [simp]:
  "isSubscribedToTopic None d = d" "isSubscribedToTopic (Some b) d = b"
  by (simp_all add: isSubscribedToTopic_def)

lemma drop_topic_fields [simp]:
  "td_contacts (drop_topic i db) = td_contacts db" "td_broadcasts (drop_topic i db) = td_broadcasts db"
  "td_topics (drop_topic i db) = filter (\<lambda>t. tp_id t \<noteq> i) (td_topics db)"
  "td_subs (drop_topic i db) = filter (\<lambda>s. tu_topicId s \<noteq> i) (td_subs db)"
  by (simp_all add: drop_topic_def)

section \<open>Properties\<close>


definition demo_text :: text_lib where
  "demo_text = \<lparr>tl_nfkc = id, tl_lower = map lower_ascii, tl_sha256 = id, tl_pgLower = map lower_ascii\<rparr>"

definition demo_suppression :: "string \<Rightarrow> suppression_reason_kind \<Rightarrow> suppression_row" where
  "demo_suppression h k = \<lparr>sp_id = ''s1'', sp_teamId = ''t1'', sp_email = None, sp_emailHash = h,
     sp_reason = k, sp_sourceEmailId = None, sp_createdAt = 0\<rparr>"


text \<open>
  Deleting a topic strands no mail. It goes only when no broadcast names it, and then
  every email that still waits keeps its row as it was, with the topic whose opt-outs the send
  checks; only mail already out loses the name. A refusal changes nothing.
\<close>

theorem deleteTopic_strands_no_mail:
  assumes "deleteTopic teamId topicId db = (db', refusal)"
    and "\<forall>e \<in> set (td_mails db). ma_topicId e = Some topicId \<longrightarrow> er_teamId e = teamId"
  shows "if refusal = None
     then (\<forall>t \<in> set (td_topics db'). tp_id t \<noteq> topicId) \<and> (\<forall>s \<in> set (td_subs db'). tu_topicId s \<noteq> topicId)
       \<and> (\<forall>b \<in> set (td_broadcasts db'). tb_topicId b \<noteq> Some topicId)
       \<and> length (td_mails db') = length (td_mails db)
       \<and> (\<forall>i < length (td_mails db). let e = td_mails db ! i; e' = td_mails db' ! i in
            ma_topicId e' \<noteq> Some topicId \<and> e'\<lparr>ma_topicId := ma_topicId e\<rparr> = e
            \<and> (er_latestStatus e \<in> {Queued, QueuedQuota} \<and> er_sesMessageId e = None \<longrightarrow> e' = e))
     else db' = db"
proof (cases "refusal = None")
  case True
  then have d: "db' = drop_topic topicId db" and b: "\<not> list_ex (\<lambda>b. tb_topicId b = Some topicId) (td_broadcasts db)"
    and w: "\<not> list_ex (waiting_for_topic teamId topicId) (td_mails db)"
    using assms(1) by (auto simp: deleteTopic_def split: if_splits)
  have "ma_topicId e \<noteq> Some topicId" if "i < length (td_mails db)" "e = td_mails db ! i"
    "er_latestStatus e \<in> {Queued, QueuedQuota}" "er_sesMessageId e = None" for i e
    using w assms(2) that nth_mem [OF that(1)] by (auto simp: list_ex_iff waiting_for_topic_def)
  then show ?thesis using True b by (auto simp: d drop_topic_def list_ex_iff Let_def)
next
  case False
  then show ?thesis using assms(1) by (auto simp: deleteTopic_def split: if_splits)
qed

definition demo_mail :: "email_status \<Rightarrow> ident option \<Rightarrow> ident option \<Rightarrow> mail_row" where
  "demo_mail st ses topic = \<lparr>er_id = ''e1'', er_teamId = ''t1'', er_latestStatus = st, er_sentAt = None,
     er_parkReason = None, er_sesMessageId = ses, er_from = ''a@b.co'', er_to = [''bob@x.co''], er_subject = [],
     ma_domainId = None, ma_apiKeyId = None, ma_contactId = None, ma_topicId = topic, ma_cc = None, ma_bcc = None,
     ma_replyTo = None, ma_tags = None, ma_headers = None, ma_body = None, ma_attachments = None,
     ma_bodyPurgedAt = None, ma_scheduledAt = None, ma_parkedAt = None, ma_inboxId = None, ma_threadId = None,
     ma_firstContact = False\<rparr>"

definition demo_topics :: "mail_row list \<Rightarrow> topic_db" where
  "demo_topics ms = \<lparr>td_topics = [\<lparr>tp_id = ''p1'', tp_teamId = ''t1'', tp_defaultSubscribed = True\<rparr>],
     td_subs = [\<lparr>tu_contactId = ''c1'', tu_topicId = ''p1'', tu_subscribed = False\<rparr>], td_contacts = [],
     td_broadcasts = [], td_mails = ms\<rparr>"

theorem deleteTopic_strands_no_mail_witness:
  "td_topics (fst (deleteTopic ''t1'' ''p1'' (demo_topics [demo_mail Delivered (Some ''m1'') (Some ''p1'')]))) = []
   \<and> deleteTopic ''t1'' ''p1'' (demo_topics [demo_mail Queued None (Some ''p1'')])
       = (demo_topics [demo_mail Queued None (Some ''p1'')], Some TopicEmailsWaiting)"
proof
  let ?d = "demo_topics [demo_mail Delivered (Some ''m1'') (Some ''p1'')]"
  have r: "deleteTopic ''t1'' ''p1'' ?d = (drop_topic ''p1'' ?d, None)"
    by (simp add: deleteTopic_def demo_topics_def demo_mail_def waiting_for_topic_def)
  have "\<forall>t \<in> set (td_topics (drop_topic ''p1'' ?d)). tp_id t \<noteq> ''p1''"
    using deleteTopic_strands_no_mail [OF r] by (simp add: demo_topics_def demo_mail_def)
  then show "td_topics (fst (deleteTopic ''t1'' ''p1'' ?d)) = []"
    unfolding r by (simp add: demo_topics_def)
  show "deleteTopic ''t1'' ''p1'' (demo_topics [demo_mail Queued None (Some ''p1'')])
       = (demo_topics [demo_mail Queued None (Some ''p1'')], Some TopicEmailsWaiting)"
    by (simp add: deleteTopic_def demo_topics_def demo_mail_def waiting_for_topic_def)
qed

end
