(* ===== verification/Webhooks.thy ===== *)
theory Webhooks
  imports Recipients
begin

text \<open>
  \<open>packages/core/src/webhooks.ts\<close>: which endpoints take an event, the delivery rows a fan-out
  writes, the secrets that sign, and the clock of a throttled endpoint. A payload is a tree
  \<open>json\<close>, with an instant where the code writes its ISO text. Identifiers are drawn from a
  parameter \<open>fresh\<close>; sealing is the identity on ciphertexts, opening one is a parameter. The
  HMAC of a signature is the crypto library's and is left out.
\<close>

section \<open>Events and payloads\<close>

datatype json = JNull | JBool bool | JStr string | JDate instant | JArr "json list" | JObj "(string \<times> json) list"

definition WEBHOOK_EVENT_TYPES :: "string list" where
  "WEBHOOK_EVENT_TYPES = [''email.scheduled'', ''email.sent'', ''email.delivered'', ''email.delivery_delayed'',
     ''email.bounced'', ''email.complained'', ''email.failed'', ''email.suppressed'', ''email.opened'',
     ''email.clicked'', ''email.prefetched'', ''email.received'', ''deliverability.warning'',
     ''deliverability.paused'', ''quota.warning'', ''quota.reached'', ''quota.paused'', ''contact.created'',
     ''contact.updated'', ''contact.deleted'', ''contact.unsubscribed'', ''contact.resubscribed'',
     ''contact.topic_opt_in'', ''contact.topic_opt_out'', ''suppression.added'', ''suppression.removed'',
     ''inbox.created'', ''inbox.updated'', ''inbox.deleted'', ''inbox.expired'', ''inbox.thread.created'',
     ''inbox.thread.folder.updated'', ''inbox.thread.labels.updated'', ''inbox.email.received'',
     ''inbox.email.sent'', ''inbox.email.quarantined'', ''inbox.draft.created'', ''inbox.draft.updated'',
     ''inbox.draft.sent'', ''inbox.draft.deleted'']"

definition isWebhookEventType :: "string \<Rightarrow> bool" where
  "isWebhookEventType v \<longleftrightarrow> v \<in> set WEBHOOK_EVENT_TYPES"

definition OPT_IN_EVENT_TYPES :: "string list" where
  "OPT_IN_EVENT_TYPES = ''email.prefetched'' # filter (starts_with ''inbox.'') WEBHOOK_EVENT_TYPES"

definition endpointSubscribes :: "string list option \<Rightarrow> string \<Rightarrow> bool" where
  "endpointSubscribes events type =
     (case events of None \<Rightarrow> type \<notin> set OPT_IN_EVENT_TYPES | Some es \<Rightarrow> type \<in> set es)"

text \<open>A spread over an object: a known key keeps its place and takes the new value.\<close>

fun obj_put :: "string \<Rightarrow> 'v \<Rightarrow> (string \<times> 'v) list \<Rightarrow> (string \<times> 'v) list" where
  "obj_put k v [] = [(k, v)]"
| "obj_put k v (e # es) = (if fst e = k then (k, v) # es else e # obj_put k v es)"

definition obj_spread :: "(string \<times> 'v) list \<Rightarrow> (string \<times> 'v) list \<Rightarrow> (string \<times> 'v) list" where
  "obj_spread base extras = fold (\<lambda>(k, v). obj_put k v) extras base"

record email_facts =
  ef_emailId :: ident
  ef_from :: string
  ef_to :: "string list"
  ef_subject :: string

record webhook_payload =
  wp_type :: string
  wp_created_at :: instant
  wp_data :: "(string \<times> json) list"

definition buildWebhookPayload ::
    "string \<Rightarrow> email_facts \<Rightarrow> instant \<Rightarrow> (string \<times> json) list \<Rightarrow> webhook_payload" where
  "buildWebhookPayload type email occurredAt extras =
     \<lparr>wp_type = type, wp_created_at = occurredAt,
      wp_data = obj_spread [(''email_id'', JStr (ef_emailId email)), (''from'', JStr (ef_from email)),
         (''to'', JArr (map JStr (ef_to email))), (''subject'', JStr (ef_subject email)),
         (''created_at'', JDate occurredAt)] extras\<rparr>"

definition PUBLIC_FAILURE_REASONS :: "(string \<times> string) list" where
  "PUBLIC_FAILURE_REASONS =
     [(''domain_not_verified'', ''domain_not_verified''), (''domain_deleted'', ''domain_deleted''),
      (''body_missing'', ''body_missing''), (''body_unreadable'', ''body_unreadable''),
      (''retries_exhausted'', ''retries_exhausted''), (''send_interrupted'', ''send_interrupted''),
      (''ses_MessageRejected'', ''message_rejected''), (''ses_BadRequestException'', ''message_rejected''),
      (''ses_Reject'', ''message_rejected''),
      (''ses_MailFromDomainNotVerifiedException'', ''domain_not_verified'')]"

definition publicFailureReason :: "string \<Rightarrow> string" where
  "publicFailureReason internal =
     (case map_of PUBLIC_FAILURE_REASONS internal of Some r \<Rightarrow> r | None \<Rightarrow> ''provider_error'')"

definition SUPPRESSED_EMAIL_DETAILS :: "(string \<times> string \<times> string) list" where
  "SUPPRESSED_EMAIL_DETAILS =
     [(''recipient_suppressed'', ''OnAccountSuppressionList'', ''The recipient is on your suppression list.''),
      (''contact_unsubscribed'', ''Unsubscribed'', ''The contact unsubscribed from your emails.''),
      (''topic_unsubscribed'', ''Unsubscribed'', ''The recipient opted out of this email's topic.''),
      (''contact_missing'', ''Ineligible'', ''The contact was deleted before the email was sent.''),
      (''contact_recipient_mismatch'', ''Ineligible'', ''The contact's address changed before the email was sent.''),
      (''broadcast_missing'', ''Ineligible'', ''The broadcast was deleted before the email was sent.''),
      (''topic_missing'', ''Ineligible'', ''The email's topic was deleted before it was sent.'')]"

definition failedEmailExtras :: "string \<Rightarrow> (string \<times> json) list" where
  "failedEmailExtras internalReason =
     [(''failed'', JObj [(''reason'', JStr (publicFailureReason internalReason))])]"

definition suppressedEmailExtras :: "string \<Rightarrow> (string \<times> json) list" where
  "suppressedEmailExtras reason =
     (let (ty, message) = (case map_of SUPPRESSED_EMAIL_DETAILS reason of Some d \<Rightarrow> d
         | None \<Rightarrow> (''Ineligible'', ''The email was no longer eligible to send.''))
      in [(''suppressed'', JObj [(''type'', JStr ty), (''message'', JStr message), (''reason'', JStr reason)])])"

section \<open>Endpoints\<close>

datatype endpoint_status = EpEnabled | EpDisabled | EpAutoDisabled

record endpoint =
  ep_id :: ident
  ep_teamId :: ident
  ep_url :: string
  ep_secret :: string
  ep_prevSecret :: "string option"
  ep_prevSecretExpiresAt :: "instant option"
  ep_events :: "string list option"
  ep_inboxIds :: "ident list option"
  ep_status :: endpoint_status

definition endpointCoversInboxes :: "ident list option \<Rightarrow> ident list option \<Rightarrow> bool" where
  "endpointCoversInboxes endpointInboxIds eventInboxIds =
     (case (endpointInboxIds, eventInboxIds) of
        (Some have, Some ids) \<Rightarrow> list_ex (\<lambda>i. i \<in> set have) ids
      | _ \<Rightarrow> True)"

definition enabledEndpoints :: "endpoint list \<Rightarrow> ident \<Rightarrow> endpoint list" where
  "enabledEndpoints eps teamId = filter (\<lambda>e. ep_teamId e = teamId \<and> ep_status e = EpEnabled) eps"

definition endpointsTake :: "endpoint list \<Rightarrow> ident \<Rightarrow> string list \<Rightarrow> ident list option \<Rightarrow> bool" where
  "endpointsTake eps teamId types inboxIds =
     list_ex (\<lambda>e. list_ex (endpointSubscribes (ep_events e)) types
        \<and> endpointCoversInboxes (ep_inboxIds e) inboxIds) (enabledEndpoints eps teamId)"

definition rotationOverlapEnd :: "rat \<Rightarrow> instant \<Rightarrow> instant option" where
  "rotationOverlapEnd hours now =
     (if 0 < hours then Some (\<lfloor>of_int now + hours * 3600000\<rfloor>) else None)"

definition rotatedWebhookSecretColumns :: "string \<Rightarrow> instant option \<Rightarrow> endpoint \<Rightarrow> endpoint" where
  "rotatedWebhookSecretColumns next expiresAt e =
     e\<lparr>ep_secret := next,
       ep_prevSecret := (if expiresAt = None then None else Some (ep_secret e)),
       ep_prevSecretExpiresAt := expiresAt\<rparr>"

definition decryptWebhookSigningSecrets :: "(string \<Rightarrow> string) \<Rightarrow> endpoint \<Rightarrow> instant \<Rightarrow> string list" where
  "decryptWebhookSigningSecrets opn e now =
     opn (ep_secret e) # (case (ep_prevSecret e, ep_prevSecretExpiresAt e) of
        (Some p, Some x) \<Rightarrow> if now < x then [opn p] else [] | _ \<Rightarrow> [])"

section \<open>Deliveries\<close>

datatype delivery_status = DlPending | DlSuccess | DlFailed | DlExhausted

record delivery =
  dl_id :: ident
  dl_endpointId :: ident
  dl_emailId :: "ident option"
  dl_messageId :: ident
  dl_eventType :: string
  dl_payload :: webhook_payload
  dl_status :: delivery_status
  dl_attempts :: int
  dl_lastAttemptAt :: "instant option"
  dl_lastResponseCode :: "int option"
  dl_lastResponseBody :: "string option"
  dl_nextAttemptAt :: "instant option"
  dl_createdAt :: instant

definition INSERT_CHUNK :: nat where "INSERT_CHUNK = 2000"

definition delivery_row ::
    "(nat \<Rightarrow> ident \<times> ident) \<Rightarrow> instant \<Rightarrow> nat \<Rightarrow> endpoint \<times> ident option \<times> webhook_payload \<Rightarrow> delivery" where
  "delivery_row fresh now n v =
     (case v of (e, emailId, payload) \<Rightarrow>
       \<lparr>dl_id = fst (fresh n), dl_endpointId = ep_id e, dl_emailId = emailId, dl_messageId = snd (fresh n),
        dl_eventType = wp_type payload, dl_payload = payload, dl_status = DlPending, dl_attempts = 0,
        dl_lastAttemptAt = None, dl_lastResponseCode = None, dl_lastResponseBody = None,
        dl_nextAttemptAt = Some now, dl_createdAt = now\<rparr>)"

text \<open>The table, and the batches handed to the queue one insert at a time.\<close>

function insertDeliveryRows :: "delivery list \<Rightarrow> delivery list \<Rightarrow> delivery list \<times> (ident \<times> ident) list list" where
  "insertDeliveryRows values rows =
     (if values = [] then (rows, [])
      else case insertDeliveryRows (drop INSERT_CHUNK values) (rows @ take INSERT_CHUNK values) of
             (rows', batches) \<Rightarrow>
               (rows', map (\<lambda>d. (dl_id d, dl_endpointId d)) (take INSERT_CHUNK values) # batches))"
  by pat_completeness auto
termination by (relation "measure (length \<circ> fst)") (auto simp: INSERT_CHUNK_def)

declare insertDeliveryRows.simps [simp del]

record email_event_in =
  ei_type :: string
  ei_email :: email_facts
  ei_occurredAt :: instant
  ei_extras :: "(string \<times> json) list"

definition email_values :: "endpoint list \<Rightarrow> email_event_in list \<Rightarrow> (endpoint \<times> ident option \<times> webhook_payload) list" where
  "email_values endpoints events =
     concat (map (\<lambda>ev. map (\<lambda>e. (e, Some (ef_emailId (ei_email ev)),
            buildWebhookPayload (ei_type ev) (ei_email ev) (ei_occurredAt ev) (ei_extras ev)))
         (filter (\<lambda>e. endpointSubscribes (ep_events e) (ei_type ev)) endpoints)) events)"

definition fan_out :: "(nat \<Rightarrow> ident \<times> ident) \<Rightarrow> instant \<Rightarrow> (endpoint \<times> ident option \<times> webhook_payload) list
    \<Rightarrow> delivery list \<Rightarrow> delivery list \<times> (ident \<times> ident) list list" where
  "fan_out fresh now vs rows =
     insertDeliveryRows (map (\<lambda>(n, v). delivery_row fresh now n v) (zip [0..<length vs] vs)) rows"

definition enqueueEmailWebhookEvents :: "(nat \<Rightarrow> ident \<times> ident) \<Rightarrow> instant \<Rightarrow> endpoint list \<Rightarrow> ident
    \<Rightarrow> email_event_in list \<Rightarrow> delivery list \<Rightarrow> delivery list \<times> (ident \<times> ident) list list" where
  "enqueueEmailWebhookEvents fresh now eps teamId events rows =
     (if events = [] then (rows, [])
      else fan_out fresh now (email_values (enabledEndpoints eps teamId) events) rows)"

definition enqueueWebhookDeliveries where
  "enqueueWebhookDeliveries fresh now eps teamId event rows =
     enqueueEmailWebhookEvents fresh now eps teamId [event] rows"

record team_event_in =
  te_type :: string
  te_occurredAt :: instant
  te_data :: "(string \<times> json) list"
  te_inboxIds :: "ident list option"

definition team_values :: "endpoint list \<Rightarrow> team_event_in list \<Rightarrow> (endpoint \<times> ident option \<times> webhook_payload) list" where
  "team_values endpoints events =
     concat (map (\<lambda>ev. map (\<lambda>e. (e, None,
            \<lparr>wp_type = te_type ev, wp_created_at = te_occurredAt ev, wp_data = te_data ev\<rparr>))
         (filter (\<lambda>e. endpointSubscribes (ep_events e) (te_type ev)
            \<and> endpointCoversInboxes (ep_inboxIds e) (te_inboxIds ev)) endpoints)) events)"

definition enqueueTeamWebhookEvents :: "(nat \<Rightarrow> ident \<times> ident) \<Rightarrow> instant \<Rightarrow> endpoint list \<Rightarrow> ident
    \<Rightarrow> team_event_in list \<Rightarrow> delivery list \<Rightarrow> delivery list \<times> (ident \<times> ident) list list" where
  "enqueueTeamWebhookEvents fresh now eps teamId events rows =
     (if events = [] then (rows, [])
      else fan_out fresh now (team_values (enabledEndpoints eps teamId) events) rows)"

definition enqueueTeamWebhookDeliveries where
  "enqueueTeamWebhookDeliveries fresh now eps teamId type occurredAt dat rows =
     enqueueTeamWebhookEvents fresh now eps teamId
       [\<lparr>te_type = type, te_occurredAt = occurredAt, te_data = dat, te_inboxIds = None\<rparr>] rows"

section \<open>Retries\<close>

definition WEBHOOK_RETRY_SCHEDULE_MS :: "int list" where
  "WEBHOOK_RETRY_SCHEDULE_MS = [5000, 5 * 60000, 30 * 60000, 2 * 3600000, 5 * 3600000, 10 * 3600000]"

definition WEBHOOK_MAX_ATTEMPTS :: int where
  "WEBHOOK_MAX_ATTEMPTS = int (length WEBHOOK_RETRY_SCHEDULE_MS)"

definition WEBHOOK_MAX_AGE_MS :: int where "WEBHOOK_MAX_AGE_MS = 24 * 3600000"
definition RETRY_AFTER_DEFAULT_MS :: int where "RETRY_AFTER_DEFAULT_MS = 60000"
definition RETRY_AFTER_MIN_MS :: int where "RETRY_AFTER_MIN_MS = 1000"
definition RETRY_AFTER_MAX_MS :: int where "RETRY_AFTER_MAX_MS = 3600000"

text \<open>
  A header is read as the two parsers of the runtime see it: \<open>Number\<close> of the text where it is
  finite, else \<open>Date.parse\<close> of it where it is a date.
\<close>

datatype header_reading = HSeconds rat | HDate instant | HUnreadable

definition retryAfterMs :: "(string \<Rightarrow> header_reading) \<Rightarrow> string option \<Rightarrow> instant \<Rightarrow> rat" where
  "retryAfterMs parse header now =
     (let value = map_option js_trim header;
          ms = (case value of
              None \<Rightarrow> of_int RETRY_AFTER_DEFAULT_MS
            | Some v \<Rightarrow>
                if v = [] then of_int RETRY_AFTER_DEFAULT_MS
                else (case parse v of
                    HSeconds s \<Rightarrow> s * 1000 | HDate d \<Rightarrow> of_int (d - now)
                  | HUnreadable \<Rightarrow> of_int RETRY_AFTER_DEFAULT_MS))
      in min (max ms (of_int RETRY_AFTER_MIN_MS)) (of_int RETRY_AFTER_MAX_MS))"

section \<open>Properties\<close>

lemma insertDeliveryRows_exact:
  "fst (insertDeliveryRows values rows) = rows @ values
   \<and> concat (snd (insertDeliveryRows values rows)) = map (\<lambda>d. (dl_id d, dl_endpointId d)) values
   \<and> list_all (\<lambda>b. b \<noteq> [] \<and> length b \<le> INSERT_CHUNK) (snd (insertDeliveryRows values rows))"
proof (induction "values" rows rule: insertDeliveryRows.induct)
  case (1 "values" rows)
  show ?case
  proof (cases "values = []")
    case True
    then show ?thesis by (simp add: insertDeliveryRows.simps)
  next
    case False
    have e: "insertDeliveryRows values rows =
        (let r = insertDeliveryRows (drop INSERT_CHUNK values) (rows @ take INSERT_CHUNK values)
         in (fst r, map (\<lambda>d. (dl_id d, dl_endpointId d)) (take INSERT_CHUNK values) # snd r))"
      using False by (subst insertDeliveryRows.simps) (simp add: case_prod_beta Let_def)
    have "map f (take INSERT_CHUNK values) @ map f (drop INSERT_CHUNK values) = map f values" for f :: "delivery \<Rightarrow> ident \<times> ident"
      by (metis append_take_drop_id map_append)
    then show ?thesis using "1.IH" [OF False] False by (simp add: e Let_def) (simp add: INSERT_CHUNK_def)
  qed
qed

lemma delivery_row_fields [simp]:
  "dl_endpointId (delivery_row fresh now n v) = ep_id (fst v)"
  "dl_payload (delivery_row fresh now n v) = snd (snd v)"
  "dl_eventType (delivery_row fresh now n v) = wp_type (snd (snd v))"
  "dl_status (delivery_row fresh now n v) = DlPending" "dl_attempts (delivery_row fresh now n v) = 0"
  "dl_nextAttemptAt (delivery_row fresh now n v) = Some now"
  by (simp_all add: delivery_row_def case_prod_beta)

lemma fan_out_rows:
  assumes "fan_out fresh now vs rows = (rows', batches)"
  shows "\<exists>new. rows' = rows @ new
    \<and> map (\<lambda>d. (dl_endpointId d, dl_payload d)) new = map (\<lambda>v. (ep_id (fst v), snd (snd v))) vs
    \<and> concat batches = map (\<lambda>d. (dl_id d, dl_endpointId d)) new
    \<and> list_all (\<lambda>b. b \<noteq> [] \<and> length b \<le> INSERT_CHUNK) batches
    \<and> list_all (\<lambda>d. dl_status d = DlPending \<and> dl_attempts d = 0 \<and> dl_nextAttemptAt d = Some now) new"
proof -
  define new where "new = map (\<lambda>(n, v). delivery_row fresh now n v) (zip [0..<length vs] vs)"
  have "map (\<lambda>d. (dl_endpointId d, dl_payload d)) new = map (\<lambda>v. (ep_id (fst v), snd (snd v))) vs"
    by (rule nth_equalityI) (simp_all add: new_def)
  moreover have "list_all (\<lambda>d. dl_status d = DlPending \<and> dl_attempts d = 0 \<and> dl_nextAttemptAt d = Some now) new"
    by (auto simp: new_def list_all_iff)
  ultimately show ?thesis
    using assms insertDeliveryRows_exact [of new rows] by (intro exI [of _ new]) (simp add: fan_out_def new_def)
qed

text \<open>
  C19: an event reaches exactly its subscribers. A fan-out writes one delivery, pending and due at
  once, for each event and each enabled endpoint of the owning team that takes its type, in order,
  and hands exactly those rows to the queue in batches of at most 2000; an endpoint that takes all
  events gets none of the opt-in types.
\<close>

theorem fan_out_exact:
  assumes "enqueueEmailWebhookEvents fresh now eps teamId events rows = (rows', batches)"
  shows "\<exists>new. rows' = rows @ new
    \<and> map (\<lambda>d. (dl_endpointId d, dl_payload d)) new = concat (map (\<lambda>ev. map (\<lambda>e. (ep_id e,
          buildWebhookPayload (ei_type ev) (ei_email ev) (ei_occurredAt ev) (ei_extras ev)))
        (filter (\<lambda>e. ep_teamId e = teamId \<and> ep_status e = EpEnabled
            \<and> (case ep_events e of Some ts \<Rightarrow> ei_type ev \<in> set ts
               | None \<Rightarrow> ei_type ev \<noteq> ''email.prefetched'' \<and> \<not> (isWebhookEventType (ei_type ev)
                   \<and> starts_with ''inbox.'' (ei_type ev)))) eps)) events)
    \<and> concat batches = map (\<lambda>d. (dl_id d, dl_endpointId d)) new
    \<and> list_all (\<lambda>b. b \<noteq> [] \<and> length b \<le> 2000) batches
    \<and> list_all (\<lambda>d. dl_status d = DlPending \<and> dl_attempts d = 0 \<and> dl_nextAttemptAt d = Some now) new"
proof -
  have sub: "endpointSubscribes es ty = (case es of Some ts \<Rightarrow> ty \<in> set ts
     | None \<Rightarrow> ty \<noteq> ''email.prefetched'' \<and> \<not> (isWebhookEventType ty \<and> starts_with ''inbox.'' ty))" for es ty
    by (cases es) (simp_all add: endpointSubscribes_def OPT_IN_EVENT_TYPES_def isWebhookEventType_def conj_commute)
  have v: "map (\<lambda>v. (ep_id (fst v), snd (snd v))) (email_values (enabledEndpoints eps teamId) events) =
      concat (map (\<lambda>ev. map (\<lambda>e. (ep_id e,
          buildWebhookPayload (ei_type ev) (ei_email ev) (ei_occurredAt ev) (ei_extras ev)))
        (filter (\<lambda>e. endpointSubscribes (ep_events e) (ei_type ev)) (enabledEndpoints eps teamId))) events)"
    by (simp add: email_values_def map_concat comp_def)
  show ?thesis
  proof (cases "events = []")
    case True
    then show ?thesis using assms by (auto simp: enqueueEmailWebhookEvents_def)
  next
    case False
    then have "fan_out fresh now (email_values (enabledEndpoints eps teamId) events) rows = (rows', batches)"
      using assms by (simp add: enqueueEmailWebhookEvents_def)
    from fan_out_rows [OF this] show ?thesis
      unfolding v by (simp add: enabledEndpoints_def sub conj_ac INSERT_CHUNK_def)
  qed
qed

definition demo_hook :: "ident \<Rightarrow> string list option \<Rightarrow> endpoint" where
  "demo_hook i es = \<lparr>ep_id = i, ep_teamId = ''t1'', ep_url = ''https://x.co'', ep_secret = ''k1'',
     ep_prevSecret = None, ep_prevSecretExpiresAt = None, ep_events = es, ep_inboxIds = None,
     ep_status = EpEnabled\<rparr>"

definition demo_event :: email_event_in where
  "demo_event = \<lparr>ei_type = ''email.prefetched'', ei_email = \<lparr>ef_emailId = ''m1'', ef_from = ''a@b.co'',
     ef_to = [], ef_subject = []\<rparr>, ei_occurredAt = 0, ei_extras = []\<rparr>"

theorem fan_out_exact_witness:
  "map dl_endpointId (fst (enqueueEmailWebhookEvents (\<lambda>n. ([], [])) 0
      [demo_hook ''e1'' None, demo_hook ''e2'' (Some [''email.prefetched''])] ''t1'' [demo_event] [])) = [''e2'']"
proof -
  let ?r = "enqueueEmailWebhookEvents (\<lambda>n. ([], [])) 0
      [demo_hook ''e1'' None, demo_hook ''e2'' (Some [''email.prefetched''])] ''t1'' [demo_event] []"
  obtain new where n: "fst ?r = new" "map (\<lambda>d. (dl_endpointId d, dl_payload d)) new = [(''e2'',
      buildWebhookPayload ''email.prefetched'' (ei_email demo_event) 0 [])]"
    using fan_out_exact [OF surjective_pairing [of ?r]] by (auto simp: demo_hook_def demo_event_def)
  have "map dl_endpointId new = map fst (map (\<lambda>d. (dl_endpointId d, dl_payload d)) new)" by simp
  then show ?thesis by (simp add: n)
qed

text \<open>
  C99: a rotation never leaves a moment in which nothing verifies. The new secret signs from the
  rotation on; the one it replaced signs beside it until the overlap ends, at once when there is none;
  rotations that race chain, so the second's previous secret is the first's new one; and never more
  than two sign.
\<close>

theorem rotation_overlap:
  "decryptWebhookSigningSecrets opn (rotatedWebhookSecretColumns next (rotationOverlapEnd hours now) e) t
     = opn next # (if 0 < hours \<and> t < \<lfloor>of_int now + hours * 3600000\<rfloor> then [opn (ep_secret e)] else [])
   \<and> ep_prevSecret (rotatedWebhookSecretColumns next2 (Some x) (rotatedWebhookSecretColumns next y e)) = Some next
   \<and> length (decryptWebhookSigningSecrets opn e t) \<le> 2"
  by (auto simp: decryptWebhookSigningSecrets_def rotatedWebhookSecretColumns_def rotationOverlapEnd_def
      split: option.split)

end
