(* ===== verification/WebhookDrain.thy ===== *)
theory WebhookDrain
  imports Webhooks "HOL-Library.Multiset"
begin

text \<open>
  \<open>apps/worker/src/handlers/deliver-webhook.ts\<close>: one endpoint's due deliveries are claimed in
  pages under a lease, posted by up to eight workers and settled, while other passes, fan-outs and
  operators act on the same rows. A worker's turn between two awaits, with the statement it ends
  in, is one step. The steps carry the instant \<open>now\<close>, whether the pass was aborted, and what the
  receiver answered; the token bucket only delays and is a step of its own.
\<close>

section \<open>Constants\<close>

definition DRAIN_BUDGET_MS :: int where "DRAIN_BUDGET_MS = 20000"
definition DRAIN_PAGE :: nat where "DRAIN_PAGE = 50"
definition WEBHOOK_POST_CONCURRENCY :: nat where "WEBHOOK_POST_CONCURRENCY = 8"
definition LEASE_MS :: int where "LEASE_MS = 60000"
definition DRAIN_IDLE_POLL_MS :: int where "DRAIN_IDLE_POLL_MS = 60000"
definition SETTLE_BATCH :: nat where "SETTLE_BATCH = 1000"
definition RESPONSE_SNIPPET_CHARS :: nat where "RESPONSE_SNIPPET_CHARS = 1024"
definition WEBHOOK_AUTO_DISABLE_AFTER :: nat where "WEBHOOK_AUTO_DISABLE_AFTER = 20"

section \<open>Rows\<close>

definition is_open :: "delivery \<Rightarrow> bool" where
  "is_open d \<longleftrightarrow> dl_status d = DlPending \<or> dl_status d = DlFailed"

text \<open>A false comparison with a null clock.\<close>

definition due_by :: "instant \<Rightarrow> delivery \<Rightarrow> bool" where
  "due_by now d \<longleftrightarrow> (case dl_nextAttemptAt d of None \<Rightarrow> False | Some t \<Rightarrow> t \<le> now)"

definition exhaust_row :: "delivery \<Rightarrow> delivery" where
  "exhaust_row d = d\<lparr>dl_status := DlExhausted, dl_nextAttemptAt := None\<rparr>"

definition open_with_clock :: "(delivery \<Rightarrow> bool) \<Rightarrow> delivery \<Rightarrow> bool" where
  "open_with_clock condition d \<longleftrightarrow> is_open d \<and> dl_nextAttemptAt d \<noteq> None \<and> condition d"

text \<open>A clock to sort by: \<open>dueAt?.getTime() ?? 0\<close>.\<close>

definition clock_of :: "delivery \<Rightarrow> instant" where
  "clock_of d = (case dl_nextAttemptAt d of None \<Rightarrow> 0 | Some t \<Rightarrow> t)"

definition by_due :: "delivery list \<Rightarrow> delivery list" where
  "by_due rows = sort_key (\<lambda>d. (clock_of d, dl_id d)) rows"

lemma set_by_due [simp]: "set (by_due rows) = set rows"
  by (simp add: by_due_def)

text \<open>One batch takes the first rows in the order given; the next sees the table after it.\<close>

definition exhaust_batch :: "(delivery \<Rightarrow> bool) \<Rightarrow> bool \<Rightarrow> delivery list \<Rightarrow> delivery list \<times> nat" where
  "exhaust_batch condition ordered rows =
     (let found = filter (open_with_clock condition) rows;
          ids = map dl_id (take SETTLE_BATCH (if ordered then by_due found else found));
          P = (\<lambda>d. dl_id d \<in> set ids)
      in (update_rows P exhaust_row rows, length (returning P exhaust_row rows)))"

lemma exhaust_row_closed [simp]: "\<not> is_open (exhaust_row d)"
  by (simp add: is_open_def exhaust_row_def)

lemma length_filter_update_less:
  assumes "x \<in> set xs" "Q x" "P x" "\<And>y. \<not> Q (f y)"
  shows "length (filter Q (update_rows P f xs)) < length (filter Q xs)"
proof -
  have e: "length (filter Q (update_rows P f ys)) = length (filter (\<lambda>y. Q y \<and> \<not> P y) ys)" for ys
    by (induction ys) (auto simp: update_rows_def assms(4))
  have "length (filter (\<lambda>y. Q y \<and> \<not> P y) xs) < length (filter Q xs)"
    using assms(1-3) length_filter_less [of x "filter Q xs" "\<lambda>y. \<not> P y"]
    by (simp add: filter_filter conj_commute)
  then show ?thesis by (simp add: e)
qed

lemma exhaust_batch_shrinks:
  assumes "exhaust_batch condition ordered rows = (rows', n)" "0 < n"
  shows "length (filter is_open rows') < length (filter is_open rows)"
proof -
  let ?found = "filter (open_with_clock condition) rows"
  let ?page = "take SETTLE_BATCH (if ordered then by_due ?found else ?found)"
  let ?P = "\<lambda>d. dl_id d \<in> set (map dl_id ?page)"
  have r: "rows' = update_rows ?P exhaust_row rows" "n = length (returning ?P exhaust_row rows)"
    using assms(1) by (simp_all add: exhaust_batch_def Let_def)
  have "?page \<noteq> []"
  proof
    assume e: "?page = []"
    have "n = 0" unfolding r(2) e by (simp add: returning_def)
    then show False using assms(2) by simp
  qed
  then obtain d where d: "d \<in> set ?page" by (rule that [OF hd_in_set])
  have f: "d \<in> set ?found" using in_set_takeD [OF d] by (simp split: if_splits)
  then have "is_open d" by (simp add: open_with_clock_def)
  then show ?thesis unfolding r(1)
    by (intro length_filter_update_less [of d]) (use d f in auto)
qed

function exhaustOpenDeliveries :: "(delivery \<Rightarrow> bool) \<Rightarrow> bool \<Rightarrow> delivery list \<Rightarrow> delivery list \<times> nat" where
  "exhaustOpenDeliveries condition ordered rows =
     (if snd (exhaust_batch condition ordered rows) < SETTLE_BATCH then exhaust_batch condition ordered rows
      else case exhaustOpenDeliveries condition ordered (fst (exhaust_batch condition ordered rows)) of
             (rows', m) \<Rightarrow> (rows', snd (exhaust_batch condition ordered rows) + m))"
  by pat_completeness auto
termination
proof (relation "measure (\<lambda>(_, _, rows). length (filter is_open rows))", simp_all del: length_filter_conv_card)
  fix condition ordered rows
  assume "\<not> snd (exhaust_batch condition ordered rows) < SETTLE_BATCH"
  then have "0 < snd (exhaust_batch condition ordered rows)" by (simp add: SETTLE_BATCH_def)
  then show "length (filter is_open (fst (exhaust_batch condition ordered rows))) < length (filter is_open rows)"
    by (metis exhaust_batch_shrinks prod.collapse)
qed

declare exhaustOpenDeliveries.simps [simp del]

definition counted_settled :: "delivery \<Rightarrow> bool" where
  "counted_settled d \<longleftrightarrow> dl_status d = DlSuccess
     \<or> (dl_status d = DlExhausted
        \<and> (WEBHOOK_MAX_ATTEMPTS \<le> dl_attempts d \<or> dl_lastResponseCode d = Some 429))"

definition recent_settled :: "ident \<Rightarrow> delivery list \<Rightarrow> delivery list" where
  "recent_settled endpointId rows =
     take WEBHOOK_AUTO_DISABLE_AFTER (rev (sort_key (\<lambda>d. (dl_createdAt d, dl_id d))
       (filter (\<lambda>d. dl_endpointId d = endpointId \<and> counted_settled d) rows)))"

definition autoDisableIfDead :: "ident \<Rightarrow> delivery list \<Rightarrow> endpoint list \<Rightarrow> endpoint list \<times> bool" where
  "autoDisableIfDead endpointId rows eps =
     (let recent = recent_settled endpointId rows in
      if length recent < WEBHOOK_AUTO_DISABLE_AFTER \<or> list_ex (\<lambda>d. dl_status d = DlSuccess) recent
      then (eps, False)
      else
        let P = (\<lambda>e. ep_id e = endpointId \<and> ep_status e = EpEnabled);
            f = (\<lambda>e. e\<lparr>ep_status := EpAutoDisabled\<rparr>)
        in (update_rows P f eps, returning P f eps \<noteq> []))"

text \<open>
  The claim: the rows it leases, as they were (the clock they show is \<open>dueAt\<close>), in due order.
  \<open>skip\<close> are the rows a concurrent claim has locked.
\<close>

definition due_deliveries :: "ident \<Rightarrow> instant \<Rightarrow> ident set \<Rightarrow> delivery list \<Rightarrow> delivery list" where
  "due_deliveries endpointId now skip rows =
     take DRAIN_PAGE (by_due
       (filter (\<lambda>d. dl_endpointId d = endpointId \<and> is_open d \<and> due_by now d \<and> dl_id d \<notin> skip) rows))"

definition lease_row :: "instant \<Rightarrow> delivery \<Rightarrow> delivery" where
  "lease_row now d = d\<lparr>dl_nextAttemptAt := Some (now + LEASE_MS)\<rparr>"

definition claimDue :: "ident \<Rightarrow> instant \<Rightarrow> ident set \<Rightarrow> delivery list \<Rightarrow> delivery list \<times> delivery list" where
  "claimDue endpointId now skip rows =
     (let page = due_deliveries endpointId now skip rows
      in (update_rows (\<lambda>d. dl_id d \<in> set (map dl_id page)) (lease_row now) rows, page))"

definition release_rows :: "delivery list \<Rightarrow> instant \<Rightarrow> delivery list \<Rightarrow> delivery list" where
  "release_rows page due rows =
     update_rows (\<lambda>d. dl_id d \<in> set (map dl_id page)) (\<lambda>d. d\<lparr>dl_nextAttemptAt := Some due\<rparr>) rows"

section \<open>A pass\<close>

datatype stop_reason = StopBudget | StopThrottled | StopDisabled

datatype pass_phase = AtHead | Claimed | Working | Ending | Finished

record drain_pass =
  ps_endpointId :: ident
  ps_started :: instant
  ps_phase :: pass_phase
  ps_claimedAt :: instant
  ps_page :: "delivery list"
  ps_cursor :: nat
  ps_waiting :: "delivery list"
  ps_posting :: "(delivery \<times> instant) list"
  ps_handedBack :: "delivery list"
  ps_stop :: "(stop_reason \<times> instant) option"
  ps_posted :: int
  ps_exhausted :: int
  ps_rearmAt :: "instant option"

record drain_db =
  dd_rows :: "delivery list"
  dd_endpoints :: "endpoint list"

definition new_pass :: "ident \<Rightarrow> instant \<Rightarrow> drain_pass" where
  "new_pass endpointId now =
     \<lparr>ps_endpointId = endpointId, ps_started = now, ps_phase = AtHead, ps_claimedAt = now, ps_page = [],
      ps_cursor = 0, ps_waiting = [], ps_posting = [], ps_handedBack = [], ps_stop = None,
      ps_posted = 0, ps_exhausted = 0, ps_rearmAt = None\<rparr>"

definition overBudget :: "bool \<Rightarrow> instant \<Rightarrow> drain_pass \<Rightarrow> bool" where
  "overBudget aborted at' p \<longleftrightarrow> aborted \<or> DRAIN_BUDGET_MS \<le> at' - ps_started p"

definition endpoint_by_id :: "ident \<Rightarrow> endpoint list \<Rightarrow> endpoint option" where
  "endpoint_by_id i eps = List.find (\<lambda>e. ep_id e = i) eps"

definition enabled_now :: "ident \<Rightarrow> endpoint list \<Rightarrow> bool" where
  "enabled_now i eps = (case endpoint_by_id i eps of None \<Rightarrow> False | Some e \<Rightarrow> ep_status e = EpEnabled)"

text \<open>The start of a job: a disabled endpoint's open rows are settled instead.\<close>

definition start_drain :: "ident \<Rightarrow> instant \<Rightarrow> drain_db \<Rightarrow> drain_db \<times> drain_pass option" where
  "start_drain endpointId now db =
     (case endpoint_by_id endpointId (dd_endpoints db) of
        None \<Rightarrow> (db, None)
      | Some e \<Rightarrow>
          if ep_status e = EpEnabled then (db, Some (new_pass endpointId now))
          else (db\<lparr>dd_rows := fst (exhaustOpenDeliveries (\<lambda>d. dl_endpointId d = endpointId) True (dd_rows db))\<rparr>,
                None))"

definition pass_head :: "bool \<Rightarrow> instant \<Rightarrow> ident set \<Rightarrow> drain_pass \<Rightarrow> drain_db \<Rightarrow> drain_pass \<times> drain_db" where
  "pass_head aborted now skip p db =
     (if overBudget aborted now p then (p\<lparr>ps_phase := Ending\<rparr>, db)
      else case claimDue (ps_endpointId p) now skip (dd_rows db) of
        (rows', page) \<Rightarrow>
          if page = [] then (p\<lparr>ps_phase := Ending\<rparr>, db\<lparr>dd_rows := rows'\<rparr>)
          else (p\<lparr>ps_phase := Claimed, ps_claimedAt := now, ps_page := page, ps_cursor := 0,
                  ps_waiting := [], ps_posting := [], ps_handedBack := [], ps_stop := None\<rparr>,
                db\<lparr>dd_rows := rows'\<rparr>))"

definition pass_check :: "instant \<Rightarrow> drain_pass \<Rightarrow> drain_db \<Rightarrow> drain_pass \<times> drain_db" where
  "pass_check now p db =
     (if enabled_now (ps_endpointId p) (dd_endpoints db) then (p\<lparr>ps_phase := Working\<rparr>, db)
      else (p\<lparr>ps_phase := Ending\<rparr>, db\<lparr>dd_rows := release_rows (ps_page p) now (dd_rows db)\<rparr>))"

definition workers :: "drain_pass \<Rightarrow> nat" where
  "workers p = min WEBHOOK_POST_CONCURRENCY (length (ps_page p))"

definition take_row :: "bool \<Rightarrow> instant \<Rightarrow> drain_pass \<Rightarrow> drain_db \<Rightarrow> (drain_pass \<times> drain_db) option" where
  "take_row aborted now p db =
     (if ps_stop p \<noteq> None \<or> workers p \<le> length (ps_waiting p) + length (ps_posting p) then None
      else if overBudget aborted now p then Some (p\<lparr>ps_stop := Some (StopBudget, now)\<rparr>, db)
      else if length (ps_page p) \<le> ps_cursor p then None
      else
        let row = ps_page p ! ps_cursor p; p' = p\<lparr>ps_cursor := ps_cursor p + 1\<rparr>
        in if WEBHOOK_MAX_AGE_MS \<le> now - dl_createdAt row
           then Some (p'\<lparr>ps_exhausted := ps_exhausted p + 1\<rparr>,
                      db\<lparr>dd_rows := update_rows (\<lambda>d. dl_id d = dl_id row) exhaust_row (dd_rows db)\<rparr>)
           else Some (p'\<lparr>ps_waiting := ps_waiting p @ [row]\<rparr>, db))"

text \<open>The bucket lets a waiting row through.\<close>

definition bucket_row :: "bool \<Rightarrow> instant \<Rightarrow> delivery \<Rightarrow> drain_pass \<Rightarrow> drain_pass" where
  "bucket_row aborted now row p =
     (let stop = (if ps_stop p = None \<and> overBudget aborted now p then Some (StopBudget, now) else ps_stop p);
          p' = p\<lparr>ps_waiting := remove1 row (ps_waiting p), ps_stop := stop\<rparr>
      in if stop \<noteq> None then p'\<lparr>ps_handedBack := ps_handedBack p @ [row]\<rparr>
         else p'\<lparr>ps_posting := ps_posting p @ [(row, now)]\<rparr>)"

text \<open>What a post came back with; no status is a failure to connect.\<close>

record answer =
  an_status :: "int option"
  an_body :: string
  an_retryAfter :: "string option"

definition throttled_until :: "(string \<Rightarrow> header_reading) \<Rightarrow> answer \<Rightarrow> instant \<Rightarrow> instant" where
  "throttled_until parse an t = \<lfloor>of_int t + retryAfterMs parse (an_retryAfter an) t\<rfloor>"

definition throttle_row :: "answer \<Rightarrow> instant \<Rightarrow> instant \<Rightarrow> delivery \<Rightarrow> delivery" where
  "throttle_row an t until' d =
     d\<lparr>dl_lastAttemptAt := Some t, dl_lastResponseCode := an_status an,
       dl_lastResponseBody := Some (take RESPONSE_SNIPPET_CHARS (an_body an)), dl_nextAttemptAt := Some until'\<rparr>"

definition ok_answer :: "answer \<Rightarrow> bool" where
  "ok_answer an \<longleftrightarrow> (case an_status an of None \<Rightarrow> False | Some s \<Rightarrow> 200 \<le> s \<and> s < 300)"

definition exhausting :: "answer \<Rightarrow> delivery \<Rightarrow> bool" where
  "exhausting an row \<longleftrightarrow> \<not> ok_answer an \<and> WEBHOOK_MAX_ATTEMPTS \<le> dl_attempts row + 1"

definition settle_row :: "answer \<Rightarrow> delivery \<Rightarrow> instant \<Rightarrow> delivery \<Rightarrow> delivery" where
  "settle_row an row t d =
     d\<lparr>dl_status := (if ok_answer an then DlSuccess else if exhausting an row then DlExhausted else DlFailed),
       dl_attempts := dl_attempts row + 1, dl_lastAttemptAt := Some t, dl_lastResponseCode := an_status an,
       dl_lastResponseBody := Some (take RESPONSE_SNIPPET_CHARS (an_body an)),
       dl_nextAttemptAt := (if ok_answer an \<or> exhausting an row then None
          else Some (t + WEBHOOK_RETRY_SCHEDULE_MS ! nat (dl_attempts row)))\<rparr>"

definition throttle_stop :: "instant \<Rightarrow> (stop_reason \<times> instant) option \<Rightarrow> (stop_reason \<times> instant) option" where
  "throttle_stop until' ended =
     (case ended of
        None \<Rightarrow> Some (StopThrottled, until')
      | Some (r, u) \<Rightarrow> if r \<noteq> StopDisabled \<and> u < until' then Some (StopThrottled, until') else ended)"

definition disable_stop :: "instant \<Rightarrow> (stop_reason \<times> instant) option \<Rightarrow> (stop_reason \<times> instant) option" where
  "disable_stop t ended =
     (case ended of Some (StopDisabled, u) \<Rightarrow> ended | _ \<Rightarrow> Some (StopDisabled, t))"

definition answer_row :: "(string \<Rightarrow> header_reading) \<Rightarrow> answer \<Rightarrow> delivery \<times> instant \<Rightarrow> drain_pass \<Rightarrow> drain_db
    \<Rightarrow> drain_pass \<times> drain_db" where
  "answer_row parse an post p db =
     (let row = fst post; t = snd post; same = (\<lambda>d. dl_id d = dl_id row);
          p1 = p\<lparr>ps_posting := remove1 post (ps_posting p), ps_posted := ps_posted p + 1\<rparr>
      in if an_status an = Some 429
         then let u = throttled_until parse an t in
              (p1\<lparr>ps_stop := throttle_stop u (ps_stop p)\<rparr>,
               db\<lparr>dd_rows := update_rows same (throttle_row an t u) (dd_rows db)\<rparr>)
         else
           let db1 = db\<lparr>dd_rows := update_rows same (settle_row an row t) (dd_rows db)\<rparr> in
           if \<not> exhausting an row then (p1, db1)
           else (case autoDisableIfDead (ps_endpointId p) (dd_rows db1) (dd_endpoints db1) of
                   (eps, dead) \<Rightarrow>
                     (p1\<lparr>ps_exhausted := ps_exhausted p + 1,
                         ps_stop := (if dead then disable_stop t (ps_stop p) else ps_stop p)\<rparr>,
                      db1\<lparr>dd_endpoints := eps\<rparr>)))"

definition page_done :: "drain_pass \<Rightarrow> bool" where
  "page_done p \<longleftrightarrow> ps_waiting p = [] \<and> ps_posting p = []
     \<and> (ps_stop p \<noteq> None \<or> length (ps_page p) \<le> ps_cursor p)"

definition end_page :: "drain_pass \<Rightarrow> drain_db \<Rightarrow> drain_pass \<times> drain_db" where
  "end_page p db =
     (case ps_stop p of
        None \<Rightarrow> (p\<lparr>ps_phase := AtHead\<rparr>, db)
      | Some (r, u) \<Rightarrow>
          (let db' = db\<lparr>dd_rows := release_rows (ps_handedBack p @ drop (ps_cursor p) (ps_page p)) u (dd_rows db)\<rparr>
           in if r = StopThrottled then (p\<lparr>ps_phase := Finished, ps_rearmAt := Some u\<rparr>, db')
              else (p\<lparr>ps_phase := Ending\<rparr>, db')))"

definition open_clocks :: "ident \<Rightarrow> delivery list \<Rightarrow> instant list" where
  "open_clocks endpointId rows =
     map clock_of (filter (\<lambda>d. dl_endpointId d = endpointId \<and> open_with_clock (\<lambda>_. True) d) rows)"

definition pass_end :: "instant \<Rightarrow> drain_pass \<Rightarrow> drain_db \<Rightarrow> drain_pass" where
  "pass_end now p db =
     (case open_clocks (ps_endpointId p) (dd_rows db) of
        [] \<Rightarrow> p\<lparr>ps_phase := Finished\<rparr>
      | t # ts \<Rightarrow> p\<lparr>ps_phase := Finished,
                    ps_rearmAt := Some (min (fold min ts t) (now + DRAIN_IDLE_POLL_MS))\<rparr>)"

section \<open>Passes, fan-outs and operators together\<close>

record drain_world =
  dw_now :: instant
  dw_db :: drain_db
  dw_passes :: "drain_pass list"

inductive pass_step :: "(string \<Rightarrow> header_reading) \<Rightarrow> instant \<Rightarrow> drain_pass \<times> drain_db \<Rightarrow> drain_pass \<times> drain_db \<Rightarrow> bool"
  for parse now where
  head: "ps_phase p = AtHead \<Longrightarrow> pass_step parse now (p, db) (pass_head aborted now skip p db)"
| check: "ps_phase p = Claimed \<Longrightarrow> pass_step parse now (p, db) (pass_check now p db)"
| take_one: "ps_phase p = Working \<Longrightarrow> take_row aborted now p db = Some r \<Longrightarrow> pass_step parse now (p, db) r"
| bucket: "ps_phase p = Working \<Longrightarrow> row \<in> set (ps_waiting p)
    \<Longrightarrow> pass_step parse now (p, db) (bucket_row aborted now row p, db)"
| answered: "ps_phase p = Working \<Longrightarrow> post \<in> set (ps_posting p)
    \<Longrightarrow> pass_step parse now (p, db) (answer_row parse an post p db)"
| page_over: "ps_phase p = Working \<Longrightarrow> page_done p \<Longrightarrow> pass_step parse now (p, db) (end_page p db)"
| over: "ps_phase p = Ending \<Longrightarrow> pass_step parse now (p, db) (pass_end now p db, db)"

text \<open>A pass acts on its page while the lease it took stands: what \<open>timely\<close> asks for.\<close>

definition in_lease :: "instant \<Rightarrow> drain_pass \<Rightarrow> bool" where
  "in_lease now p \<longleftrightarrow> now < ps_claimedAt p + LEASE_MS"

definition on_page :: "drain_pass \<Rightarrow> bool" where
  "on_page p \<longleftrightarrow> ps_phase p = Claimed \<or> ps_phase p = Working"

definition new_delivery :: "instant \<Rightarrow> delivery list \<Rightarrow> delivery \<Rightarrow> bool" where
  "new_delivery now rows d \<longleftrightarrow> dl_status d = DlPending \<and> dl_attempts d = 0 \<and> dl_nextAttemptAt d = Some now
     \<and> dl_createdAt d = now \<and> dl_id d \<notin> set (map dl_id rows)"

inductive drain_step :: "(string \<Rightarrow> header_reading) \<Rightarrow> bool \<Rightarrow> drain_world \<Rightarrow> drain_world \<Rightarrow> bool" for parse timely where
  tick: "now \<le> now' \<Longrightarrow> drain_step parse timely \<lparr>dw_now = now, dw_db = db, dw_passes = ps\<rparr>
           \<lparr>dw_now = now', dw_db = db, dw_passes = ps\<rparr>"
| fan_out: "list_all (new_delivery now (dd_rows db)) new \<Longrightarrow> distinct (map dl_id new) \<Longrightarrow>
    drain_step parse timely \<lparr>dw_now = now, dw_db = db, dw_passes = ps\<rparr>
      \<lparr>dw_now = now, dw_db = db\<lparr>dd_rows := dd_rows db @ new\<rparr>, dw_passes = ps\<rparr>"
| operator: "drain_step parse timely \<lparr>dw_now = now, dw_db = db, dw_passes = ps\<rparr>
      \<lparr>dw_now = now, dw_db = db\<lparr>dd_endpoints := eps\<rparr>, dw_passes = ps\<rparr>"
| job: "start_drain i now db = (db', opened) \<Longrightarrow>
    drain_step parse timely \<lparr>dw_now = now, dw_db = db, dw_passes = ps\<rparr>
      \<lparr>dw_now = now, dw_db = db', dw_passes = ps @ (case opened of None \<Rightarrow> [] | Some p \<Rightarrow> [p])\<rparr>"
| pass: "j < length ps \<Longrightarrow> (timely \<Longrightarrow> on_page (ps ! j) \<Longrightarrow> in_lease now (ps ! j)) \<Longrightarrow>
    pass_step parse now (ps ! j, db) (p', db') \<Longrightarrow>
    drain_step parse timely \<lparr>dw_now = now, dw_db = db, dw_passes = ps\<rparr>
      \<lparr>dw_now = now, dw_db = db', dw_passes = ps[j := p']\<rparr>"

inductive drain_reach :: "(string \<Rightarrow> header_reading) \<Rightarrow> bool \<Rightarrow> drain_world \<Rightarrow> bool" for parse timely where
  init: "drain_reach parse timely \<lparr>dw_now = now, dw_db = \<lparr>dd_rows = [], dd_endpoints = eps\<rparr>, dw_passes = []\<rparr>"
| step: "drain_reach parse timely w \<Longrightarrow> drain_step parse timely w w' \<Longrightarrow> drain_reach parse timely w'"

section \<open>Lemmas on rows\<close>

definition row_by :: "delivery list \<Rightarrow> ident \<Rightarrow> delivery option" where
  "row_by rows = map_of (map (\<lambda>d. (dl_id d, d)) rows)"

lemma row_by_Some: "row_by rows i = Some d \<Longrightarrow> d \<in> set rows \<and> dl_id d = i"
  by (auto simp: row_by_def dest: map_of_SomeD)

lemma row_by_iff: "distinct (map dl_id rows) \<Longrightarrow> row_by rows i = Some d \<longleftrightarrow> d \<in> set rows \<and> dl_id d = i"
  unfolding row_by_def by (auto dest: map_of_SomeD intro!: map_of_is_SomeI simp: comp_def)

lemma row_by_update:
  "(\<And>d. dl_id (f d) = dl_id d) \<Longrightarrow> row_by (update_rows (\<lambda>d. dl_id d \<in> S) f rows) i
     = map_option (\<lambda>d. if i \<in> S then f d else d) (row_by rows i)"
  by (induction rows) (auto simp: row_by_def update_rows_def)

lemma row_by_append: "row_by (rows @ new) i = (case row_by rows i of None \<Rightarrow> row_by new i | Some d \<Rightarrow> Some d)"
  by (simp add: row_by_def map_add_def split: option.split)

lemma update_one: "update_rows (\<lambda>d. dl_id d = i) f rows = update_rows (\<lambda>d. dl_id d \<in> {i}) f rows"
  by simp

lemma row_fun_ids [simp]:
  "dl_id (exhaust_row d) = dl_id d" "dl_id (lease_row now d) = dl_id d"
  "dl_id (throttle_row an t u d) = dl_id d" "dl_id (settle_row an row t d) = dl_id d"
  by (simp_all add: exhaust_row_def lease_row_def throttle_row_def settle_row_def)

lemma ids_update [simp]:
  "(\<And>d. dl_id (f d) = dl_id d) \<Longrightarrow> map dl_id (update_rows P f rows) = map dl_id rows"
  by (simp add: update_rows_def)

lemma is_open_lease [simp]: "is_open (lease_row now d) = is_open d"
  by (simp add: is_open_def lease_row_def)

text \<open>What settling a batch, or all of them, does to one row.\<close>

definition maybe_exhausted :: "delivery list \<Rightarrow> delivery list \<Rightarrow> bool" where
  "maybe_exhausted rows rows' \<longleftrightarrow> map dl_id rows' = map dl_id rows
     \<and> (\<forall>i. row_by rows' i = row_by rows i
          \<or> (\<exists>d. row_by rows i = Some d \<and> is_open d \<and> row_by rows' i = Some (exhaust_row d)))"

lemma maybe_exhausted_trans:
  "maybe_exhausted a b \<Longrightarrow> maybe_exhausted b c \<Longrightarrow> maybe_exhausted a c"
  unfolding maybe_exhausted_def by (metis exhaust_row_closed option.inject)

lemma exhaust_batch_rows:
  assumes "distinct (map dl_id rows)"
  shows "maybe_exhausted rows (fst (exhaust_batch condition ordered rows))"
proof -
  let ?found = "filter (open_with_clock condition) rows"
  let ?page = "take SETTLE_BATCH (if ordered then by_due ?found else ?found)"
  have e: "fst (exhaust_batch condition ordered rows)
      = update_rows (\<lambda>d. dl_id d \<in> set (map dl_id ?page)) exhaust_row rows"
    by (simp add: exhaust_batch_def Let_def)
  have sub: "x \<in> set rows \<and> is_open x" if "x \<in> set ?page" for x
    using in_set_takeD [OF that] by (auto simp: open_with_clock_def split: if_splits)
  have "is_open d" if d: "row_by rows i = Some d" "i \<in> set (map dl_id ?page)" for i d
  proof -
    obtain x where x: "x \<in> set ?page" "dl_id x = i" using d(2) by auto
    have "row_by rows i = Some x" using row_by_iff [OF assms] sub [OF x(1)] x(2) by blast
    then show ?thesis using d(1) sub [OF x(1)] by simp
  qed
  then have "row_by (update_rows (\<lambda>d. dl_id d \<in> set (map dl_id ?page)) exhaust_row rows) i = row_by rows i
      \<or> (\<exists>d. row_by rows i = Some d \<and> is_open d
         \<and> row_by (update_rows (\<lambda>d. dl_id d \<in> set (map dl_id ?page)) exhaust_row rows) i = Some (exhaust_row d))" for i
    by (cases "row_by rows i"; cases "i \<in> set (map dl_id ?page)") (simp_all only: row_by_update row_fun_ids
        option.map if_True if_False simp_thms option.inject ex_simps, blast?)
  then show ?thesis unfolding e maybe_exhausted_def by simp
qed

lemma exhaustOpen_rows:
  "distinct (map dl_id rows) \<Longrightarrow> maybe_exhausted rows (fst (exhaustOpenDeliveries condition ordered rows))"
proof (induction condition ordered rows rule: exhaustOpenDeliveries.induct)
  case (1 condition ordered rows)
  note b = exhaust_batch_rows [OF "1.prems", of condition ordered]
  then have d: "distinct (map dl_id (fst (exhaust_batch condition ordered rows)))"
    using "1.prems" by (simp add: maybe_exhausted_def)
  show ?case
  proof (cases "snd (exhaust_batch condition ordered rows) < SETTLE_BATCH")
    case True
    then show ?thesis using b by (subst exhaustOpenDeliveries.simps) simp
  next
    case False
    then show ?thesis using maybe_exhausted_trans [OF b "1.IH" [OF False d]]
      by (subst exhaustOpenDeliveries.simps) (simp add: case_prod_beta)
  qed
qed

lemma due_deliveries_facts:
  assumes "x \<in> set (due_deliveries i now skip rows)"
  shows "x \<in> set rows" "is_open x" "due_by now x" "dl_endpointId x = i" "dl_id x \<notin> skip"
  using in_set_takeD [OF assms [unfolded due_deliveries_def]] by simp_all

lemma distinct_due_deliveries:
  assumes "distinct (map dl_id rows)"
  shows "distinct (map dl_id (due_deliveries i now skip rows))"
proof -
  have "distinct (map dl_id (by_due (filter P rows)))" for P
  proof -
    have "mset (map dl_id (by_due (filter P rows))) = mset (map dl_id (filter P rows))"
      by (simp add: by_due_def)
    then show ?thesis using mset_eq_imp_distinct_iff distinct_map_filter [OF assms] by blast
  qed
  then show ?thesis by (simp add: due_deliveries_def distinct_take flip: take_map)
qed

section \<open>Who holds a row\<close>

definition held_rows :: "drain_pass \<Rightarrow> delivery list" where
  "held_rows p = ps_waiting p @ map fst (ps_posting p) @ ps_handedBack p @ drop (ps_cursor p) (ps_page p)"

definition holds :: "instant \<Rightarrow> drain_pass \<Rightarrow> bool" where
  "holds now p \<longleftrightarrow> on_page p \<and> in_lease now p"

definition held :: "instant \<Rightarrow> drain_pass \<Rightarrow> ident list" where
  "held now p = (if holds now p then map dl_id (held_rows p) else [])"

text \<open>A held row is as its page copy has it, unless a disable settled it meanwhile.\<close>

definition held_ok :: "delivery list \<Rightarrow> instant \<Rightarrow> delivery \<Rightarrow> bool" where
  "held_ok rows claimed r \<longleftrightarrow> is_open r \<and> (\<exists>d. row_by rows (dl_id r) = Some d \<and> dl_attempts d = dl_attempts r
     \<and> (if is_open d then dl_status d = dl_status r \<and> dl_nextAttemptAt d = Some (claimed + LEASE_MS)
        else dl_status d = DlExhausted))"

definition pass_ok :: "instant \<Rightarrow> delivery list \<Rightarrow> drain_pass \<Rightarrow> bool" where
  "pass_ok now rows p \<longleftrightarrow> (ps_phase p = Claimed \<longrightarrow> ps_cursor p = 0 \<and> ps_waiting p = [] \<and> ps_posting p = []
        \<and> ps_handedBack p = [])
     \<and> distinct (held now p)
     \<and> (holds now p \<longrightarrow> (\<forall>r \<in> set (held_rows p). held_ok rows (ps_claimedAt p) r))"

lemma held_okD:
  "held_ok rows c r \<Longrightarrow> \<exists>d. row_by rows (dl_id r) = Some d \<and> dl_status d \<noteq> DlSuccess
     \<and> (is_open d \<longrightarrow> dl_nextAttemptAt d = Some (c + LEASE_MS))"
  by (auto simp: held_ok_def is_open_def split: if_splits)

lemma sub_mset_distinct:
  assumes "mset ys \<subseteq># mset xs" "distinct xs"
  shows "distinct ys" "set ys \<subseteq> set xs"
proof -
  obtain zs where "mset zs = mset xs - mset ys" using ex_mset by blast
  then have e: "mset xs = mset (ys @ zs)" using assms(1) by simp
  then show "distinct ys" using assms(2) mset_eq_imp_distinct_iff [OF e] by simp
  show "set ys \<subseteq> set xs" using mset_eq_setD [OF e] by auto
qed

text \<open>
  What one step of a pass may do: it changes only rows the pass holds, or due rows no lease
  covers, and what it holds afterwards it held before or has just claimed.
\<close>

definition step_ok :: "instant \<Rightarrow> drain_pass \<Rightarrow> delivery list \<Rightarrow> drain_pass \<Rightarrow> delivery list \<Rightarrow> bool" where
  "step_ok now p rows p' rows' \<longleftrightarrow> map dl_id rows' = map dl_id rows \<and> pass_ok now rows' p'
     \<and> (\<exists>T. (\<forall>i. i \<notin> T \<longrightarrow> row_by rows' i = row_by rows i)
          \<and> (\<forall>i \<in> T. i \<in> set (held now p) \<or> (\<exists>d. row_by rows i = Some d \<and> is_open d \<and> due_by now d))
          \<and> set (held now p') \<subseteq> set (held now p) \<union> T)"

lemma step_ok_shrink:
  assumes p: "pass_ok now rows p" "holds now p"
    and S: "S \<subseteq> set (held now p)" "\<And>d. dl_id (f d) = dl_id d"
    and p': "ps_claimedAt p' = ps_claimedAt p" "ps_phase p' = Working" "mset (held_rows p') \<subseteq># mset (held_rows p)"
      "S \<inter> dl_id ` set (held_rows p') = {}"
  shows "step_ok now p rows p' (update_rows (\<lambda>d. dl_id d \<in> S) f rows)"
proof -
  let ?rows = "update_rows (\<lambda>d. dl_id d \<in> S) f rows"
  have h: "held now p = map dl_id (held_rows p)" using p(2) by (simp add: held_def)
  have h': "held now p' = map dl_id (held_rows p')" using p(2) p'(1,2) by (simp add: held_def holds_def in_lease_def on_page_def)
  have m: "mset (held now p') \<subseteq># mset (held now p)" using p'(3) by (simp add: h h' image_mset_subseteq_mono)
  note d = sub_mset_distinct [OF m]
  have sub: "set (held_rows p') \<subseteq> set (held_rows p)" using set_mset_mono [OF p'(3)] by simp
  have "held_ok ?rows (ps_claimedAt p') r" if "r \<in> set (held_rows p')" for r
  proof -
    have "dl_id r \<notin> S" using that p'(4) by blast
    then have "row_by ?rows (dl_id r) = row_by rows (dl_id r)" by (simp add: row_by_update S(2) option.map_ident)
    moreover have "held_ok rows (ps_claimedAt p) r" using p that sub by (auto simp: pass_ok_def)
    ultimately show ?thesis by (simp add: held_ok_def p'(1))
  qed
  then have "pass_ok now ?rows p'" using p(1) d p'(2) by (simp add: pass_ok_def)
  moreover have "row_by ?rows i = row_by rows i" if "i \<notin> S" for i using that by (simp add: row_by_update S(2) option.map_ident)
  ultimately show ?thesis unfolding step_ok_def using S d(2) p(1) by (auto simp: pass_ok_def intro!: exI [of _ S])
qed

lemma step_ok_leave:
  assumes "S \<subseteq> set (held now p)" "\<And>d. dl_id (f d) = dl_id d" "\<not> on_page p'"
  shows "step_ok now p rows p' (update_rows (\<lambda>d. dl_id d \<in> S) f rows)"
  using assms unfolding step_ok_def pass_ok_def
  by (auto simp: held_def holds_def row_by_update option.map_ident on_page_def intro!: exI [of _ S])

lemma update_none [simp]: "update_rows (\<lambda>d. dl_id d \<in> {}) f rows = rows"
  by (simp add: update_rows_def)

lemma mset_remove1_le: "mset (remove1 x xs) \<subseteq># mset xs"
  by (simp add: diff_subset_eq_self)

lemma step_head:
  assumes "distinct (map dl_id (dd_rows db))" "ps_phase p = AtHead" "pass_head aborted now skip p db = (p', db')"
  shows "step_ok now p (dd_rows db) p' (dd_rows db')"
proof -
  let ?page = "due_deliveries (ps_endpointId p) now skip (dd_rows db)"
  let ?S = "set (map dl_id ?page)"
  let ?rows = "update_rows (\<lambda>d. dl_id d \<in> ?S) (lease_row now) (dd_rows db)"
  have none: "held now p = []" using assms(2) by (simp add: held_def holds_def on_page_def)
  show ?thesis
  proof (cases "overBudget aborted now p \<or> ?page = []")
    case True
    then have "\<not> on_page p'" "dd_rows db' = dd_rows db"
      using assms(3) by (auto simp: pass_head_def claimDue_def on_page_def Let_def update_rows_def split: if_splits)
    then show ?thesis using step_ok_leave [of "{}" now p id p' "dd_rows db"] by simp
  next
    case False
    then have p': "p' = p\<lparr>ps_phase := Claimed, ps_claimedAt := now, ps_page := ?page, ps_cursor := 0,
        ps_waiting := [], ps_posting := [], ps_handedBack := [], ps_stop := None\<rparr>" and db': "dd_rows db' = ?rows"
      using assms(3) by (auto simp: pass_head_def claimDue_def Let_def)
    have h: "held_rows p' = ?page" "holds now p'"
      by (simp_all add: p' held_rows_def holds_def on_page_def in_lease_def LEASE_MS_def)
    have row: "row_by (dd_rows db) (dl_id r) = Some r" "is_open r" "due_by now r" if "r \<in> set ?page" for r
      using due_deliveries_facts [OF that] row_by_iff [OF assms(1)] by auto
    have "held_ok ?rows now r" if "r \<in> set ?page" for r
    proof -
      have "row_by ?rows (dl_id r) = Some (lease_row now r)" using that row(1) [OF that] by (simp add: row_by_update)
      then show ?thesis using row(2) [OF that] by (simp add: held_ok_def) (simp add: lease_row_def)
    qed
    then have "pass_ok now ?rows p'"
      using distinct_due_deliveries [OF assms(1)] h by (simp add: pass_ok_def held_def p')
    moreover have "\<forall>i \<in> ?S. \<exists>d. row_by (dd_rows db) i = Some d \<and> is_open d \<and> due_by now d"
      using row by fastforce
    ultimately show ?thesis unfolding step_ok_def db'
      by (intro conjI exI [of _ ?S]) (use h in \<open>auto simp: row_by_update option.map_ident held_def\<close>)
  qed
qed

lemma held_when: "on_page p \<Longrightarrow> in_lease now p \<Longrightarrow> holds now p \<and> held now p = map dl_id (held_rows p)"
  by (simp add: holds_def held_def)

lemma step_check:
  assumes "pass_ok now (dd_rows db) p" "ps_phase p = Claimed" "in_lease now p" "pass_check now p db = (p', db')"
  shows "step_ok now p (dd_rows db) p' (dd_rows db')"
proof -
  have c: "held_rows p = ps_page p" using assms(1,2) by (simp add: pass_ok_def held_rows_def)
  have h: "holds now p" "held now p = map dl_id (ps_page p)"
    using held_when [of p now] assms(2,3) c by (simp_all add: on_page_def)
  show ?thesis
  proof (cases "enabled_now (ps_endpointId p) (dd_endpoints db)")
    case True
    then have p': "p' = p\<lparr>ps_phase := Working\<rparr>" "db' = db" using assms(4) by (simp_all add: pass_check_def)
    show ?thesis using step_ok_shrink [OF assms(1) h(1), of "{}" id p'] by (simp add: p' held_rows_def)
  next
    case False
    then have "\<not> on_page p'" and d: "dd_rows db' = release_rows (ps_page p) now (dd_rows db)"
      using assms(4) by (auto simp: pass_check_def on_page_def)
    then show ?thesis using step_ok_leave [of "set (map dl_id (ps_page p))" now p
        "\<lambda>d. d\<lparr>dl_nextAttemptAt := Some now\<rparr>" p' "dd_rows db"] h(2)
      by (simp add: release_rows_def)
  qed
qed

lemma step_take:
  assumes "pass_ok now (dd_rows db) p" "ps_phase p = Working" "in_lease now p"
    and "take_row aborted now p db = Some (p', db')"
  shows "step_ok now p (dd_rows db) p' (dd_rows db')"
proof -
  have h: "holds now p" "held now p = map dl_id (held_rows p)"
    using held_when [of p now] assms(2,3) by (simp_all add: on_page_def)
  show ?thesis
  proof (cases "overBudget aborted now p")
    case True
    then have p': "p' = p\<lparr>ps_stop := Some (StopBudget, now)\<rparr>" "db' = db"
      using assms(4) by (auto simp: take_row_def split: if_splits)
    show ?thesis using step_ok_shrink [OF assms(1) h(1), of "{}" id p'] assms(2) by (simp add: p' held_rows_def)
  next
    case False
    let ?row = "ps_page p ! ps_cursor p"
    have c: "ps_cursor p < length (ps_page p)" using assms(4) False by (auto simp: take_row_def split: if_splits)
    have drop: "drop (ps_cursor p) (ps_page p) = ?row # drop (Suc (ps_cursor p)) (ps_page p)"
      using Cons_nth_drop_Suc [OF c] by simp
    show ?thesis
    proof (cases "WEBHOOK_MAX_AGE_MS \<le> now - dl_createdAt ?row")
      case True
      let ?p = "p\<lparr>ps_cursor := ps_cursor p + 1, ps_exhausted := ps_exhausted p + 1\<rparr>"
      have e: "p' = ?p" "dd_rows db' = update_rows (\<lambda>d. dl_id d \<in> {dl_id ?row}) exhaust_row (dd_rows db)"
        using assms(4) False True c by (auto simp: take_row_def Let_def split: if_splits)
      have m: "mset (held_rows p) = add_mset ?row (mset (held_rows ?p))"
        by (simp add: held_rows_def drop)
      have "distinct (map dl_id (held_rows p))" using assms(1) h(2) by (simp add: pass_ok_def)
      then have "dl_id ?row \<notin> dl_id ` set (held_rows ?p)"
        by (auto simp: held_rows_def drop image_Un comp_def)
      moreover have "dl_id ?row \<in> set (held now p)" by (simp add: h(2) held_rows_def drop)
      ultimately show ?thesis unfolding e
        by (intro step_ok_shrink [OF assms(1) h(1)]) (simp_all add: m assms(2))
    next
      case False
      let ?p = "p\<lparr>ps_cursor := ps_cursor p + 1, ps_waiting := ps_waiting p @ [?row]\<rparr>"
      have e: "p' = ?p" "db' = db"
        using assms(4) \<open>\<not> overBudget aborted now p\<close> False c by (auto simp: take_row_def Let_def split: if_splits)
      have "mset (held_rows p) = mset (held_rows ?p)" by (simp add: held_rows_def drop)
      then show ?thesis using step_ok_shrink [OF assms(1) h(1), of "{}" id ?p] assms(2) by (simp add: e)
    qed
  qed
qed

lemma step_bucket:
  assumes "pass_ok now (dd_rows db) p" "ps_phase p = Working" "in_lease now p" "row \<in> set (ps_waiting p)"
  shows "step_ok now p (dd_rows db) (bucket_row aborted now row p) (dd_rows db)"
proof -
  have h: "holds now p" using held_when [of p now] assms(2,3) by (simp add: on_page_def)
  let ?p = "bucket_row aborted now row p"
  have "mset (ps_waiting p) = add_mset row (mset (remove1 row (ps_waiting p)))" using assms(4) by simp
  then have "mset (held_rows p) = mset (held_rows ?p)"
    by (simp add: held_rows_def bucket_row_def Let_def)
  moreover have "ps_claimedAt ?p = ps_claimedAt p" "ps_phase ?p = Working"
    by (simp_all add: bucket_row_def Let_def assms(2))
  ultimately show ?thesis using step_ok_shrink [OF assms(1) h, of "{}" id ?p] by simp
qed

lemma answer_row_shape:
  assumes "answer_row parse an post p db = (p', db')"
  shows "\<exists>f stop posted exh. (\<forall>d. dl_id (f d) = dl_id d)
    \<and> dd_rows db' = update_rows (\<lambda>d. dl_id d \<in> {dl_id (fst post)}) f (dd_rows db)
    \<and> p' = p\<lparr>ps_posting := remove1 post (ps_posting p), ps_posted := posted, ps_stop := stop, ps_exhausted := exh\<rparr>"
proof (cases "an_status an = Some 429")
  case True
  then show ?thesis using assms
    by (intro exI [of _ "throttle_row an (snd post) (throttled_until parse an (snd post))"]
        exI [of _ "throttle_stop (throttled_until parse an (snd post)) (ps_stop p)"]
        exI [of _ "ps_posted p + 1"] exI [of _ "ps_exhausted p"]) (auto simp: answer_row_def Let_def)
next
  case False
  define db1 where "db1 = db\<lparr>dd_rows := update_rows (\<lambda>d. dl_id d = dl_id (fst post))
      (settle_row an (fst post) (snd post)) (dd_rows db)\<rparr>"
  define ad where "ad = autoDisableIfDead (ps_endpointId p) (dd_rows db1) (dd_endpoints db1)"
  have e: "answer_row parse an post p db =
      (let p1 = p\<lparr>ps_posting := remove1 post (ps_posting p), ps_posted := ps_posted p + 1\<rparr> in
       if \<not> exhausting an (fst post) then (p1, db1)
       else (p1\<lparr>ps_exhausted := ps_exhausted p + 1,
                ps_stop := (if snd ad then disable_stop (snd post) (ps_stop p) else ps_stop p)\<rparr>,
             db1\<lparr>dd_endpoints := fst ad\<rparr>))"
    using False by (simp add: answer_row_def Let_def db1_def ad_def case_prod_beta)
  show ?thesis using assms unfolding e
    by (intro exI [of _ "settle_row an (fst post) (snd post)"] exI [of _ "ps_stop p'"]
        exI [of _ "ps_posted p + 1"] exI [of _ "ps_exhausted p'"])
      (auto simp: Let_def db1_def split: if_splits)
qed

lemma step_answer:
  assumes "pass_ok now (dd_rows db) p" "ps_phase p = Working" "in_lease now p" "post \<in> set (ps_posting p)"
    and "answer_row parse an post p db = (p', db')"
  shows "step_ok now p (dd_rows db) p' (dd_rows db')"
proof -
  have h: "holds now p" "held now p = map dl_id (held_rows p)"
    using held_when [of p now] assms(2,3) by (simp_all add: on_page_def)
  obtain f stop posted exh where f: "\<And>d. dl_id (f d) = dl_id d"
    and r: "dd_rows db' = update_rows (\<lambda>d. dl_id d \<in> {dl_id (fst post)}) f (dd_rows db)"
    and p': "p' = p\<lparr>ps_posting := remove1 post (ps_posting p), ps_posted := posted, ps_stop := stop, ps_exhausted := exh\<rparr>"
    using answer_row_shape [OF assms(5)] by blast
  have "mset (ps_posting p) = add_mset post (mset (remove1 post (ps_posting p)))" using assms(4) by simp
  then have "mset (map fst (ps_posting p)) = add_mset (fst post) (mset (map fst (remove1 post (ps_posting p))))"
    by (metis image_mset_add_mset mset_map)
  then have m: "mset (held_rows p) = add_mset (fst post) (mset (held_rows p'))"
    by (simp add: held_rows_def p')
  then have "mset (map dl_id (held_rows p)) = mset (dl_id (fst post) # map dl_id (held_rows p'))" by simp
  then have "distinct (dl_id (fst post) # map dl_id (held_rows p'))"
    using assms(1) h(2) mset_eq_imp_distinct_iff by (metis pass_ok_def)
  moreover have "fst post \<in> set (held_rows p)" by (metis m set_mset_mset union_single_eq_member)
  ultimately show ?thesis unfolding r
    by (intro step_ok_shrink [OF assms(1) h(1)]) (auto simp: h(2) f m p' assms(2))
qed

lemma step_page_over:
  assumes "pass_ok now (dd_rows db) p" "ps_phase p = Working" "in_lease now p" "page_done p"
    and "end_page p db = (p', db')"
  shows "step_ok now p (dd_rows db) p' (dd_rows db')"
proof -
  have h: "held now p = map dl_id (held_rows p)"
    using held_when [of p now] assms(2,3) by (simp add: on_page_def)
  let ?given = "ps_handedBack p @ drop (ps_cursor p) (ps_page p)"
  have b: "held_rows p = ?given" using assms(4) by (simp add: held_rows_def page_done_def)
  show ?thesis
  proof (cases "ps_stop p")
    case None
    then have "\<not> on_page p'" "db' = db" using assms(5) by (auto simp: end_page_def on_page_def)
    then show ?thesis using step_ok_leave [of "{}" now p id p' "dd_rows db"] by simp
  next
    case (Some s)
    obtain r u where s: "s = (r, u)" by (cases s)
    have "\<not> on_page p'" "dd_rows db' = release_rows ?given u (dd_rows db)"
      using assms(5) Some s by (auto simp: end_page_def on_page_def Let_def split: if_splits)
    then show ?thesis using step_ok_leave [of "set (map dl_id ?given)" now p
        "\<lambda>d. d\<lparr>dl_nextAttemptAt := Some u\<rparr>" p' "dd_rows db"] h b
      by (simp add: release_rows_def)
  qed
qed

lemma step_over:
  "step_ok now p (dd_rows db) (pass_end now p db) (dd_rows db)"
  using step_ok_leave [of "{}" now p id "pass_end now p db" "dd_rows db"]
  by (simp add: pass_end_def on_page_def split: list.split)

lemma pass_step_ok:
  assumes "pass_step parse now (p, db) (p', db')" "pass_ok now (dd_rows db) p"
    and "distinct (map dl_id (dd_rows db))" "on_page p \<Longrightarrow> in_lease now p"
  shows "step_ok now p (dd_rows db) p' (dd_rows db')"
  using assms(1)
proof cases
  case (head aborted skip)
  then show ?thesis using step_head [OF assms(3)] by simp
next
  case check
  then show ?thesis using step_check [OF assms(2)] assms(4) by (simp add: on_page_def)
next
  case (take_one aborted)
  then show ?thesis using step_take [OF assms(2)] assms(4) by (simp add: on_page_def)
next
  case (bucket row aborted)
  then show ?thesis using step_bucket [OF assms(2)] assms(4) by (simp add: on_page_def)
next
  case (answered post an)
  then show ?thesis using step_answer [OF assms(2)] assms(4) by (simp add: on_page_def)
next
  case page_over
  then show ?thesis using step_page_over [OF assms(2)] assms(4) by (simp add: on_page_def)
next
  case over
  then show ?thesis using step_over by simp
qed

section \<open>The worlds a drain reaches\<close>

definition held_apart :: "instant \<Rightarrow> drain_pass list \<Rightarrow> bool" where
  "held_apart now ps \<longleftrightarrow> (\<forall>j < length ps. \<forall>k < length ps. j \<noteq> k \<longrightarrow>
     set (held now (ps ! j)) \<inter> set (held now (ps ! k)) = {})"

definition world_ok :: "drain_world \<Rightarrow> bool" where
  "world_ok w \<longleftrightarrow> distinct (map dl_id (dd_rows (dw_db w)))
     \<and> (\<forall>p \<in> set (dw_passes w). pass_ok (dw_now w) (dd_rows (dw_db w)) p)
     \<and> held_apart (dw_now w) (dw_passes w)"

text \<open>A row some pass holds is no success, and no claim can take it.\<close>

lemma held_row:
  assumes "pass_ok now rows p" "i \<in> set (held now p)"
  shows "\<exists>d. row_by rows i = Some d \<and> dl_status d \<noteq> DlSuccess \<and> \<not> (is_open d \<and> due_by now d)"
proof -
  have h: "holds now p" "held now p = map dl_id (held_rows p)" using assms(2) by (auto simp: held_def split: if_splits)
  then obtain r where "r \<in> set (held_rows p)" "dl_id r = i" using assms(2) by auto
  then obtain d where "row_by rows i = Some d" "dl_status d \<noteq> DlSuccess"
    "is_open d \<longrightarrow> dl_nextAttemptAt d = Some (ps_claimedAt p + LEASE_MS)"
    using assms(1) h(1) held_okD unfolding pass_ok_def by blast
  then show ?thesis using h(1) by (auto simp: due_by_def holds_def in_lease_def)
qed

lemma pass_ok_frame:
  assumes "pass_ok now rows p" "\<And>i. i \<in> set (held now p) \<Longrightarrow> row_by rows' i = row_by rows i"
  shows "pass_ok now rows' p"
  using assms unfolding pass_ok_def held_ok_def by (auto simp: held_def)

lemma pass_ok_exhausted:
  assumes "pass_ok now rows p" "maybe_exhausted rows rows'"
  shows "pass_ok now rows' p"
proof -
  have e: "held_ok rows' c r" if h: "held_ok rows c r" for c r
  proof -
    obtain d where d: "row_by rows (dl_id r) = Some d" "dl_attempts d = dl_attempts r"
      "if is_open d then dl_status d = dl_status r \<and> dl_nextAttemptAt d = Some (c + LEASE_MS)
        else dl_status d = DlExhausted"
      using h by (auto simp: held_ok_def)
    have "row_by rows' (dl_id r) = Some d \<or> row_by rows' (dl_id r) = Some (exhaust_row d)"
      using assms(2) d(1) unfolding maybe_exhausted_def by (metis option.inject)
    moreover have "\<not> is_open (exhaust_row d)" "dl_attempts (exhaust_row d) = dl_attempts d"
      "dl_status (exhaust_row d) = DlExhausted" by (simp_all) (simp_all add: exhaust_row_def)
    ultimately show ?thesis using h d by (auto simp: held_ok_def)
  qed
  then show ?thesis using assms(1) by (auto simp: pass_ok_def)
qed

lemma later_holds: "now \<le> now' \<Longrightarrow> holds now' p \<Longrightarrow> holds now p"
  by (auto simp: holds_def in_lease_def)

lemma later_held: "now \<le> now' \<Longrightarrow> held now' p = held now p \<or> held now' p = []"
  by (auto simp: held_def dest: later_holds)

lemma held_apart_append: "held_apart now ps \<Longrightarrow> held now p = [] \<Longrightarrow> held_apart now (ps @ [p])"
  by (auto simp: held_apart_def nth_append less_Suc_eq)

lemma held_apart_update:
  assumes "held_apart now ps" "j < length ps"
    and "\<And>k. k < length ps \<Longrightarrow> k \<noteq> j \<Longrightarrow> set (held now p) \<inter> set (held now (ps ! k)) = {}"
  shows "held_apart now (ps[j := p])"
  using assms unfolding held_apart_def by (auto simp: nth_list_update)

lemma world_ok_pass:
  assumes w: "distinct (map dl_id (dd_rows db))" "\<forall>p \<in> set ps. pass_ok now (dd_rows db) p" "held_apart now ps"
    and j: "j < length ps" "on_page (ps ! j) \<Longrightarrow> in_lease now (ps ! j)"
    and s: "pass_step parse now (ps ! j, db) (p', db')"
  shows "distinct (map dl_id (dd_rows db'))" "\<forall>p \<in> set (ps[j := p']). pass_ok now (dd_rows db') p"
    "held_apart now (ps[j := p'])"
    "row_by (dd_rows db) i = Some d \<Longrightarrow> dl_status d = DlSuccess \<Longrightarrow> row_by (dd_rows db') i = Some d"
proof -
  have pj: "pass_ok now (dd_rows db) (ps ! j)" using w(2) j(1) by simp
  have ok: "step_ok now (ps ! j) (dd_rows db) p' (dd_rows db')" by (rule pass_step_ok [OF s pj w(1) j(2)])
  then obtain T where T: "\<And>i. i \<notin> T \<Longrightarrow> row_by (dd_rows db') i = row_by (dd_rows db) i"
    "\<And>i. i \<in> T \<Longrightarrow> i \<in> set (held now (ps ! j))
       \<or> (\<exists>d. row_by (dd_rows db) i = Some d \<and> is_open d \<and> due_by now d)"
    "set (held now p') \<subseteq> set (held now (ps ! j)) \<union> T"
    unfolding step_ok_def by blast
  have apart: "i \<notin> T \<and> i \<notin> set (held now (ps ! j))"
    if k: "k < length ps" "k \<noteq> j" "i \<in> set (held now (ps ! k))" for i k
  proof -
    have pk: "pass_ok now (dd_rows db) (ps ! k)" using w(2) k(1) by simp
    have "i \<notin> set (held now (ps ! j))" using w(3) j(1) k unfolding held_apart_def by blast
    then show ?thesis using T(2) [of i] held_row [OF pk k(3)] by auto
  qed
  show "distinct (map dl_id (dd_rows db'))" using ok w(1) by (simp add: step_ok_def)
  show "held_apart now (ps[j := p'])"
    by (rule held_apart_update [OF w(3) j(1)]) (use apart T(3) in blast)
  show "\<forall>p \<in> set (ps[j := p']). pass_ok now (dd_rows db') p"
  proof
    fix p assume "p \<in> set (ps[j := p'])"
    then obtain k where k: "k < length ps" "p = (ps[j := p']) ! k" by (auto simp: in_set_conv_nth)
    show "pass_ok now (dd_rows db') p"
    proof (cases "k = j")
      case True
      then show ?thesis using k ok by (simp add: step_ok_def)
    next
      case False
      then have e: "p = ps ! k" using k by simp
      then have pk: "pass_ok now (dd_rows db) p" using w(2) k(1) by simp
      show ?thesis by (rule pass_ok_frame [OF pk]) (use apart [OF k(1) False] e T(1) in blast)
    qed
  qed
  show "row_by (dd_rows db') i = Some d" if "row_by (dd_rows db) i = Some d" "dl_status d = DlSuccess"
  proof -
    have "i \<notin> T" using T(2) [of i] held_row [OF pj, of i] that by (auto simp: is_open_def)
    then show ?thesis using T(1) that by simp
  qed
qed

lemma maybe_exhausted_refl: "maybe_exhausted rows rows"
  by (simp add: maybe_exhausted_def)

lemma start_drain_rows:
  assumes "start_drain i now db = (db', opened)" "distinct (map dl_id (dd_rows db))"
  shows "maybe_exhausted (dd_rows db) (dd_rows db')"
proof -
  have "dd_rows db' = dd_rows db
      \<or> dd_rows db' = fst (exhaustOpenDeliveries (\<lambda>d. dl_endpointId d = i) True (dd_rows db))"
    using assms(1) by (auto simp: start_drain_def split: option.splits if_splits)
  then show ?thesis using exhaustOpen_rows [OF assms(2)] maybe_exhausted_refl by auto
qed

lemma drain_step_ok:
  assumes "drain_step parse timely w w'" "timely" "world_ok w"
  shows "world_ok w' \<and> (\<forall>i d. row_by (dd_rows (dw_db w)) i = Some d \<longrightarrow> dl_status d = DlSuccess
    \<longrightarrow> row_by (dd_rows (dw_db w')) i = Some d)"
  using assms(1)
proof cases
  case (tick now now' db ps)
  have "pass_ok now' (dd_rows db) p" if "pass_ok now (dd_rows db) p" for p
    using that later_held [OF tick(3), of p] later_holds [OF tick(3), of p] by (auto simp: pass_ok_def)
  moreover have "set (held now' p) \<subseteq> set (held now p)" for p using later_held [OF tick(3), of p] by auto
  then have "held_apart now' ps" if "held_apart now ps" using that unfolding held_apart_def by blast
  ultimately show ?thesis using assms(3) by (simp add: world_ok_def tick)
next
  case (fan_out now db new ps)
  let ?rows = "dd_rows db @ new"
  have f: "row_by ?rows i = Some d" if "row_by (dd_rows db) i = Some d" for i d using that by (simp add: row_by_append)
  have "pass_ok now ?rows p" if p: "pass_ok now (dd_rows db) p" for p
  proof (rule pass_ok_frame [OF p])
    fix i assume "i \<in> set (held now p)"
    then show "row_by ?rows i = row_by (dd_rows db) i" using held_row [OF p] f by fastforce
  qed
  moreover have "distinct (map dl_id ?rows)" if "distinct (map dl_id (dd_rows db))"
  proof -
    have fresh: "dl_id x \<notin> dl_id ` set (dd_rows db)" if "x \<in> set new" for x
      using that fan_out(3) by (simp add: list_all_iff new_delivery_def)
    have "dl_id ` set (dd_rows db) \<inter> dl_id ` set new = {}"
    proof (rule Int_emptyI)
      fix i assume a: "i \<in> dl_id ` set (dd_rows db)" and "i \<in> dl_id ` set new"
      then obtain x where "x \<in> set new" "i = dl_id x" by auto
      then show False using fresh a by simp
    qed
    then show ?thesis using that fan_out(4) by simp
  qed
  ultimately show ?thesis using assms(3) f by (simp add: world_ok_def fan_out)
next
  case (operator now db ps eps)
  then show ?thesis using assms(3) by (simp add: world_ok_def)
next
  case (job i now db db' opened ps)
  have d: "distinct (map dl_id (dd_rows db))" "\<forall>p \<in> set ps. pass_ok now (dd_rows db) p" "held_apart now ps"
    using assms(3) job(1) by (simp_all add: world_ok_def)
  have m: "maybe_exhausted (dd_rows db) (dd_rows db')"
    by (rule start_drain_rows [OF job(3) d(1)])
  then have s: "row_by (dd_rows db') k = Some e" if "row_by (dd_rows db) k = Some e" "dl_status e = DlSuccess" for k e
  proof -
    have "row_by (dd_rows db') k = row_by (dd_rows db) k \<or> (\<exists>d. row_by (dd_rows db) k = Some d \<and> is_open d
        \<and> row_by (dd_rows db') k = Some (exhaust_row d))"
      using m by (simp add: maybe_exhausted_def)
    then show ?thesis using that by (auto simp: is_open_def)
  qed
  have new: "held now p = [] \<and> pass_ok now (dd_rows db') p" if "opened = Some p" for p
    using job(3) that by (auto simp: start_drain_def new_pass_def held_def holds_def on_page_def pass_ok_def
        split: option.splits if_splits)
  have ids: "distinct (map dl_id (dd_rows db'))" using d(1) m by (simp add: maybe_exhausted_def)
  have ps: "\<forall>p \<in> set ps. pass_ok now (dd_rows db') p" using d(2) pass_ok_exhausted [OF _ m] by blast
  have "world_ok w'"
  proof (cases opened)
    case None
    then show ?thesis using ids ps d(3) by (simp add: world_ok_def job(2))
  next
    case (Some p)
    then show ?thesis using ids ps new [OF Some] held_apart_append [OF d(3), of p]
      by (simp add: world_ok_def job(2))
  qed
  then show ?thesis using s by (simp add: job(1,2))
next
  case (pass j ps now db p' db')
  have d: "distinct (map dl_id (dd_rows db))" "\<forall>p \<in> set ps. pass_ok now (dd_rows db) p" "held_apart now ps"
    using assms(3) pass(1) by (simp_all add: world_ok_def)
  note n = world_ok_pass [OF d pass(3) pass(4) [OF assms(2)] pass(5)]
  have "world_ok w'" unfolding world_ok_def pass(2) using n(1-3) by simp
  then show ?thesis using n(4) by (simp add: pass(1,2))
qed

lemma drain_reach_ok: "drain_reach parse True w \<Longrightarrow> world_ok w"
proof (induction rule: drain_reach.induct)
  case (init now eps)
  then show ?case by (simp add: world_ok_def held_apart_def)
next
  case (step w w')
  then show ?case using drain_step_ok by blast
qed

section \<open>Attempts and clocks, whatever the timing\<close>

definition row_fine :: "instant \<Rightarrow> delivery \<Rightarrow> bool" where
  "row_fine now d \<longleftrightarrow> 0 \<le> dl_attempts d \<and> dl_attempts d \<le> WEBHOOK_MAX_ATTEMPTS
     \<and> (dl_status d = DlPending \<longrightarrow> dl_attempts d = 0)
     \<and> (dl_status d = DlFailed \<longrightarrow> 1 \<le> dl_attempts d \<and> dl_attempts d < WEBHOOK_MAX_ATTEMPTS)
     \<and> (dl_status d = DlSuccess \<longrightarrow> 1 \<le> dl_attempts d)
     \<and> (is_open d \<longrightarrow> (\<exists>t. dl_nextAttemptAt d = Some t \<and> t \<le> now + 36000000))"

definition stop_fine :: "instant \<Rightarrow> (stop_reason \<times> instant) option \<Rightarrow> bool" where
  "stop_fine now s \<longleftrightarrow> (case s of None \<Rightarrow> True | Some (_, u) \<Rightarrow> u \<le> now + RETRY_AFTER_MAX_MS)"

definition pass_fine :: "instant \<Rightarrow> drain_pass \<Rightarrow> bool" where
  "pass_fine now p \<longleftrightarrow> ps_started p \<le> ps_claimedAt p \<and> ps_claimedAt p \<le> now
     \<and> (\<forall>r \<in> set (held_rows p). 0 \<le> dl_attempts r \<and> dl_attempts r < WEBHOOK_MAX_ATTEMPTS)
     \<and> (\<forall>post \<in> set (ps_posting p). ps_claimedAt p \<le> snd post \<and> snd post \<le> now
          \<and> snd post < ps_started p + DRAIN_BUDGET_MS)
     \<and> stop_fine now (ps_stop p)
     \<and> (case ps_rearmAt p of None \<Rightarrow> True | Some u \<Rightarrow> u \<le> now + RETRY_AFTER_MAX_MS)"

lemma retryAfter_bounds:
  "of_int RETRY_AFTER_MIN_MS \<le> retryAfterMs parse h now" "retryAfterMs parse h now \<le> of_int RETRY_AFTER_MAX_MS"
  by (auto simp: retryAfterMs_def Let_def RETRY_AFTER_MIN_MS_def RETRY_AFTER_MAX_MS_def)

lemma throttled_bounds:
  "t + RETRY_AFTER_MIN_MS \<le> throttled_until parse an t" "throttled_until parse an t \<le> t + RETRY_AFTER_MAX_MS"
proof -
  let ?r = "retryAfterMs parse (an_retryAfter an) t"
  have b: "of_int (t + RETRY_AFTER_MIN_MS) \<le> of_int t + ?r" "of_int t + ?r \<le> of_int (t + RETRY_AFTER_MAX_MS)"
    using retryAfter_bounds [of parse "an_retryAfter an" t] by simp_all
  show "t + RETRY_AFTER_MIN_MS \<le> throttled_until parse an t"
    unfolding throttled_until_def le_floor_iff by (rule b(1))
  show "throttled_until parse an t \<le> t + RETRY_AFTER_MAX_MS"
    using floor_mono [OF b(2)] unfolding throttled_until_def by simp
qed

lemma fine_update:
  assumes "\<forall>d \<in> set rows. row_fine now d" "\<And>d. row_fine now d \<Longrightarrow> P d \<Longrightarrow> row_fine now (f d)"
  shows "\<forall>d \<in> set (update_rows P f rows). row_fine now d"
  using assms by (auto simp: update_rows_def)

lemma attempts_numeral: "WEBHOOK_MAX_ATTEMPTS = 6"
  by (simp add: WEBHOOK_MAX_ATTEMPTS_def WEBHOOK_RETRY_SCHEDULE_MS_def)

lemma schedule_bounds:
  assumes "0 \<le> n" "n < 6"
  shows "5000 \<le> WEBHOOK_RETRY_SCHEDULE_MS ! nat n" "WEBHOOK_RETRY_SCHEDULE_MS ! nat n \<le> 36000000"
proof -
  have "nat n \<in> {0, 1, 2, 3, 4, 5}" using assms by auto
  then show "5000 \<le> WEBHOOK_RETRY_SCHEDULE_MS ! nat n" "WEBHOOK_RETRY_SCHEDULE_MS ! nat n \<le> 36000000"
    by (auto simp: WEBHOOK_RETRY_SCHEDULE_MS_def numeral_eq_Suc)
qed

lemma fine_exhaust: "row_fine now d \<Longrightarrow> row_fine now (exhaust_row d)"
  by (simp add: row_fine_def is_open_def exhaust_row_def)

lemma fine_clock: "row_fine now d \<Longrightarrow> u \<le> now + 36000000 \<Longrightarrow> row_fine now (d\<lparr>dl_nextAttemptAt := Some u\<rparr>)"
  by (simp add: row_fine_def is_open_def)

lemma fine_throttle: "row_fine now d \<Longrightarrow> u \<le> now + 36000000 \<Longrightarrow> row_fine now (throttle_row an t u d)"
  by (simp add: row_fine_def is_open_def throttle_row_def)

lemma fine_settle:
  assumes "0 \<le> dl_attempts row" "dl_attempts row < WEBHOOK_MAX_ATTEMPTS" "t \<le> now"
  shows "row_fine now (settle_row an row t d)"
  using assms schedule_bounds [of "dl_attempts row"]
  by (auto simp: row_fine_def is_open_def settle_row_def exhausting_def attempts_numeral)

lemma fine_release:
  "\<forall>d \<in> set rows. row_fine now d \<Longrightarrow> u \<le> now + 36000000 \<Longrightarrow> \<forall>d \<in> set (release_rows page u rows). row_fine now d"
  unfolding release_rows_def by (rule fine_update) (auto intro: fine_clock)

lemma fine_open_attempts: "row_fine now d \<Longrightarrow> is_open d \<Longrightarrow> 0 \<le> dl_attempts d \<and> dl_attempts d < WEBHOOK_MAX_ATTEMPTS"
  by (auto simp: row_fine_def is_open_def attempts_numeral)

lemma stop_fine_simps [simp]:
  "stop_fine now None" "stop_fine now (Some (r, u)) \<longleftrightarrow> u \<le> now + RETRY_AFTER_MAX_MS"
  by (simp_all add: stop_fine_def)

lemma pass_fine_sub:
  assumes "pass_fine now p" "ps_started p' = ps_started p" "ps_claimedAt p' = ps_claimedAt p"
    and "set (held_rows p') \<subseteq> set (held_rows p)"
    and "\<And>post. post \<in> set (ps_posting p') \<Longrightarrow> post \<in> set (ps_posting p)
        \<or> (snd post = now \<and> now < ps_started p + DRAIN_BUDGET_MS)"
    and "stop_fine now (ps_stop p')" "ps_rearmAt p' = ps_rearmAt p"
  shows "pass_fine now p'"
proof -
  have "ps_claimedAt p \<le> snd post \<and> snd post \<le> now \<and> snd post < ps_started p + DRAIN_BUDGET_MS"
    if "post \<in> set (ps_posting p')" for post
    using assms(5) [OF that] assms(1) by (auto simp: pass_fine_def)
  then show ?thesis using assms(1-4,6,7) by (simp add: pass_fine_def subset_iff)
qed

lemma pass_fine_stop: "pass_fine now p \<Longrightarrow> stop_fine now (ps_stop p)"
  by (simp add: pass_fine_def)

lemma retry_max_pos [simp]: "0 \<le> RETRY_AFTER_MAX_MS"
  by (simp add: RETRY_AFTER_MAX_MS_def)

lemma fine_head:
  assumes "pass_head aborted now skip p db = (p', db')" "pass_fine now p" "\<forall>d \<in> set (dd_rows db). row_fine now d"
  shows "pass_fine now p'" "\<forall>d \<in> set (dd_rows db'). row_fine now d"
proof -
  let ?page = "due_deliveries (ps_endpointId p) now skip (dd_rows db)"
  let ?rows = "update_rows (\<lambda>d. dl_id d \<in> set (map dl_id ?page)) (lease_row now) (dd_rows db)"
  have f: "0 \<le> dl_attempts r \<and> dl_attempts r < WEBHOOK_MAX_ATTEMPTS" if "r \<in> set ?page" for r
    using due_deliveries_facts [OF that] assms(3) fine_open_attempts by blast
  have shape: "p' = p\<lparr>ps_phase := Ending\<rparr> \<or> (ps_started p' = ps_started p \<and> ps_claimedAt p' = now
      \<and> held_rows p' = ?page \<and> ps_posting p' = [] \<and> ps_stop p' = None \<and> ps_rearmAt p' = ps_rearmAt p)"
    and rows: "dd_rows db' = dd_rows db \<or> dd_rows db' = ?rows"
    using assms(1) by (auto simp: pass_head_def claimDue_def Let_def held_rows_def split: if_splits)
  from shape show "pass_fine now p'"
  proof
    assume "p' = p\<lparr>ps_phase := Ending\<rparr>"
    then show ?thesis using pass_fine_sub [OF assms(2), of p'] pass_fine_stop [OF assms(2)] by (simp add: held_rows_def)
  next
    assume "ps_started p' = ps_started p \<and> ps_claimedAt p' = now
      \<and> held_rows p' = ?page \<and> ps_posting p' = [] \<and> ps_stop p' = None \<and> ps_rearmAt p' = ps_rearmAt p"
    then show ?thesis using assms(2) f by (simp add: pass_fine_def)
  qed
  have "\<forall>d \<in> set ?rows. row_fine now d"
    by (rule fine_update [OF assms(3)]) (simp add: lease_row_def LEASE_MS_def fine_clock)
  then show "\<forall>d \<in> set (dd_rows db'). row_fine now d" using rows assms(3) by auto
qed

lemma fine_check:
  assumes "pass_check now p db = (p', db')" "pass_fine now p" "\<forall>d \<in> set (dd_rows db). row_fine now d"
  shows "pass_fine now p'" "\<forall>d \<in> set (dd_rows db'). row_fine now d"
proof -
  have "\<exists>ph. p' = p\<lparr>ps_phase := ph\<rparr>" and r: "dd_rows db' = dd_rows db \<or> dd_rows db' = release_rows (ps_page p) now (dd_rows db)"
    using assms(1) by (auto simp: pass_check_def split: if_splits)
  then obtain ph where "p' = p\<lparr>ps_phase := ph\<rparr>" by blast
  then show "pass_fine now p'"
    using pass_fine_sub [OF assms(2), of p'] pass_fine_stop [OF assms(2)] by (simp add: held_rows_def)
  show "\<forall>d \<in> set (dd_rows db'). row_fine now d"
    using r assms(3) fine_release [OF assms(3), of now "ps_page p"] by auto
qed

lemma fine_take:
  assumes "take_row aborted now p db = Some (p', db')" "pass_fine now p" "\<forall>d \<in> set (dd_rows db). row_fine now d"
  shows "pass_fine now p'" "\<forall>d \<in> set (dd_rows db'). row_fine now d"
proof -
  let ?row = "ps_page p ! ps_cursor p"
  let ?rows = "update_rows (\<lambda>d. dl_id d = dl_id ?row) exhaust_row (dd_rows db)"
  have drop: "set (drop (ps_cursor p) (ps_page p)) = insert ?row (set (drop (Suc (ps_cursor p)) (ps_page p)))"
    if "ps_cursor p < length (ps_page p)" using Cons_nth_drop_Suc [OF that] by (metis list.simps(15))
  have shape: "ps_started p' = ps_started p" "ps_claimedAt p' = ps_claimedAt p"
    "set (held_rows p') \<subseteq> set (held_rows p)" "ps_posting p' = ps_posting p"
    "ps_stop p' = ps_stop p \<or> ps_stop p' = Some (StopBudget, now)" "ps_rearmAt p' = ps_rearmAt p"
    "dd_rows db' = dd_rows db \<or> dd_rows db' = ?rows"
    using assms(1) drop by (auto simp: take_row_def Let_def held_rows_def split: if_splits)
  then have "stop_fine now (ps_stop p')" using pass_fine_stop [OF assms(2)] by auto
  then show "pass_fine now p'" by (intro pass_fine_sub [OF assms(2)]) (simp_all add: shape)
  have "\<forall>d \<in> set ?rows. row_fine now d" by (rule fine_update [OF assms(3)]) (rule fine_exhaust)
  then show "\<forall>d \<in> set (dd_rows db'). row_fine now d" using shape(7) assms(3) by auto
qed

lemma fine_bucket:
  assumes "pass_fine now p" "row \<in> set (ps_waiting p)"
  shows "pass_fine now (bucket_row aborted now row p)"
proof -
  let ?p = "bucket_row aborted now row p"
  have "mset (ps_waiting p) = add_mset row (mset (remove1 row (ps_waiting p)))" using assms(2) by simp
  then have "mset (held_rows ?p) = mset (held_rows p)" by (simp add: held_rows_def bucket_row_def Let_def)
  then have "set (held_rows ?p) = set (held_rows p)" by (rule mset_eq_setD)
  moreover have "stop_fine now (ps_stop ?p)"
    using pass_fine_stop [OF assms(1)] by (simp add: bucket_row_def Let_def)
  moreover have "post \<in> set (ps_posting p) \<or> (snd post = now \<and> now < ps_started p + DRAIN_BUDGET_MS)"
    if "post \<in> set (ps_posting ?p)" for post
    using that by (auto simp: bucket_row_def Let_def overBudget_def split: if_splits)
  ultimately show ?thesis using pass_fine_sub [OF assms(1), of ?p] by (simp add: bucket_row_def Let_def)
qed

lemma stop_fine_throttle: "stop_fine now s \<Longrightarrow> u \<le> now + RETRY_AFTER_MAX_MS \<Longrightarrow> stop_fine now (throttle_stop u s)"
  by (auto simp: throttle_stop_def stop_fine_def split: option.splits)

lemma stop_fine_disable:
  assumes "stop_fine now s" "t \<le> now"
  shows "stop_fine now (disable_stop t s)"
proof -
  have "t \<le> now + RETRY_AFTER_MAX_MS" using assms(2) retry_max_pos by linarith
  then show ?thesis using assms(1)
    by (auto simp: disable_stop_def stop_fine_def split: option.splits stop_reason.splits)
qed

lemma answer_row_stop:
  assumes "answer_row parse an post p db = (p', db')"
  shows "ps_stop p' \<in> {ps_stop p, throttle_stop (throttled_until parse an (snd post)) (ps_stop p),
      disable_stop (snd post) (ps_stop p)}"
    and "dd_rows db' = update_rows (\<lambda>d. dl_id d = dl_id (fst post)) (settle_row an (fst post) (snd post)) (dd_rows db)
      \<or> dd_rows db' = update_rows (\<lambda>d. dl_id d = dl_id (fst post))
           (throttle_row an (snd post) (throttled_until parse an (snd post))) (dd_rows db)"
  using assms by (auto simp: answer_row_def Let_def case_prod_beta split: if_splits)

lemma fine_answer:
  assumes "answer_row parse an post p db = (p', db')" "post \<in> set (ps_posting p)" "pass_fine now p"
    "\<forall>d \<in> set (dd_rows db). row_fine now d"
  shows "pass_fine now p'" "\<forall>d \<in> set (dd_rows db'). row_fine now d"
proof -
  obtain f stop posted exh where
    p': "p' = p\<lparr>ps_posting := remove1 post (ps_posting p), ps_posted := posted, ps_stop := stop, ps_exhausted := exh\<rparr>"
    using answer_row_shape [OF assms(1)] by blast
  have t: "snd post \<le> now" using assms(2,3) by (simp add: pass_fine_def)
  have m: "fst post \<in> set (held_rows p)" using assms(2) by (simp add: held_rows_def)
  have a: "0 \<le> dl_attempts (fst post)" "dl_attempts (fst post) < WEBHOOK_MAX_ATTEMPTS"
    using assms(3) m by (simp_all add: pass_fine_def)
  let ?u = "throttled_until parse an (snd post)"
  have u: "?u \<le> now + RETRY_AFTER_MAX_MS" using throttled_bounds(2) [of parse an "snd post"] t by linarith
  have s: "stop_fine now (ps_stop p)" by (rule pass_fine_stop [OF assms(3)])
  have "stop_fine now (ps_stop p')"
    using answer_row_stop(1) [OF assms(1)] s stop_fine_throttle [OF s u] stop_fine_disable [OF s t] by auto
  moreover have "set (held_rows p') \<subseteq> set (held_rows p)"
    unfolding held_rows_def p' using set_remove1_subset [of post "ps_posting p"] by auto
  moreover have "set (ps_posting p') \<subseteq> set (ps_posting p)"
    unfolding p' using set_remove1_subset [of post "ps_posting p"] by simp
  ultimately show "pass_fine now p'"
    by (intro pass_fine_sub [OF assms(3)]) (auto simp: p')
  have "?u \<le> now + 36000000" using u by (simp add: RETRY_AFTER_MAX_MS_def)
  then have "\<forall>d \<in> set (update_rows (\<lambda>d. dl_id d = dl_id (fst post)) (throttle_row an (snd post) ?u) (dd_rows db)).
      row_fine now d" by (intro fine_update [OF assms(4)] fine_throttle)
  moreover have "\<forall>d \<in> set (update_rows (\<lambda>d. dl_id d = dl_id (fst post)) (settle_row an (fst post) (snd post))
      (dd_rows db)). row_fine now d" by (rule fine_update [OF assms(4)]) (rule fine_settle [OF a t])
  ultimately show "\<forall>d \<in> set (dd_rows db'). row_fine now d" using answer_row_stop(2) [OF assms(1)] by auto
qed

lemma fine_page_over:
  assumes "end_page p db = (p', db')" "pass_fine now p" "\<forall>d \<in> set (dd_rows db). row_fine now d"
  shows "pass_fine now p'" "\<forall>d \<in> set (dd_rows db'). row_fine now d"
proof -
  let ?given = "ps_handedBack p @ drop (ps_cursor p) (ps_page p)"
  have s: "stop_fine now (ps_stop p)" by (rule pass_fine_stop [OF assms(2)])
  have h: "held_rows (p\<lparr>ps_phase := ph, ps_rearmAt := ra\<rparr>) = held_rows p" for ph ra by (simp add: held_rows_def)
  have h2: "held_rows (p\<lparr>ps_phase := ph\<rparr>) = held_rows p" for ph by (simp add: held_rows_def)
  have shape: "(\<exists>ph. p' = p\<lparr>ps_phase := ph\<rparr>)
      \<or> (\<exists>u. p' = p\<lparr>ps_phase := Finished, ps_rearmAt := Some u\<rparr> \<and> u \<le> now + RETRY_AFTER_MAX_MS)"
    using assms(1) s by (auto simp: end_page_def Let_def split: option.splits if_splits)
  show "pass_fine now p'"
  proof (rule disjE [OF shape])
    assume "\<exists>ph. p' = p\<lparr>ps_phase := ph\<rparr>"
    then obtain ph where "p' = p\<lparr>ps_phase := ph\<rparr>" ..
    then show ?thesis using assms(2) by (simp add: pass_fine_def h2)
  next
    assume "\<exists>u. p' = p\<lparr>ps_phase := Finished, ps_rearmAt := Some u\<rparr> \<and> u \<le> now + RETRY_AFTER_MAX_MS"
    then obtain u where "p' = p\<lparr>ps_phase := Finished, ps_rearmAt := Some u\<rparr>" "u \<le> now + RETRY_AFTER_MAX_MS" by blast
    then show ?thesis using assms(2) by (simp add: pass_fine_def h)
  qed
  show "\<forall>d \<in> set (dd_rows db'). row_fine now d"
  proof (cases "ps_stop p")
    case None
    then show ?thesis using assms(1,3) by (simp add: end_page_def)
  next
    case (Some ru)
    then have "snd ru \<le> now + 36000000" using s by (cases ru) (simp add: RETRY_AFTER_MAX_MS_def)
    then have "\<forall>d \<in> set (release_rows ?given (snd ru) (dd_rows db)). row_fine now d" by (rule fine_release [OF assms(3)])
    then show ?thesis using assms(1) Some by (auto simp: end_page_def Let_def case_prod_beta split: if_splits)
  qed
qed

lemma fine_over: "pass_fine now p \<Longrightarrow> pass_fine now (pass_end now p db)"
proof -
  assume f: "pass_fine now p"
  have h: "held_rows (p\<lparr>ps_phase := ph, ps_rearmAt := ra\<rparr>) = held_rows p"
    "held_rows (p\<lparr>ps_phase := ph\<rparr>) = held_rows p" for ph ra by (simp_all add: held_rows_def)
  have "min t (now + DRAIN_IDLE_POLL_MS) \<le> now + RETRY_AFTER_MAX_MS" for t
    by (simp add: DRAIN_IDLE_POLL_MS_def RETRY_AFTER_MAX_MS_def)
  then show ?thesis using f
    by (cases "open_clocks (ps_endpointId p) (dd_rows db)") (simp_all add: pass_end_def pass_fine_def h)
qed

lemma fine_pass_step:
  assumes "pass_step parse now (p, db) (p', db')" "pass_fine now p" "\<forall>d \<in> set (dd_rows db). row_fine now d"
  shows "pass_fine now p' \<and> (\<forall>d \<in> set (dd_rows db'). row_fine now d)"
  using assms(1)
proof cases
  case (head aborted skip)
  from fine_head [OF head(1) [symmetric] assms(2,3)] show ?thesis by blast
next
  case check
  from fine_check [OF check(1) [symmetric] assms(2,3)] show ?thesis by blast
next
  case (take_one aborted)
  from fine_take [OF take_one(2) assms(2,3)] show ?thesis by blast
next
  case (bucket row aborted)
  then show ?thesis using fine_bucket [OF assms(2)] assms(3) by simp
next
  case (answered post an)
  from fine_answer [OF answered(1) [symmetric] answered(3) assms(2,3)] show ?thesis by blast
next
  case page_over
  from fine_page_over [OF page_over(1) [symmetric] assms(2,3)] show ?thesis by blast
next
  case over
  then show ?thesis using fine_over [OF assms(2)] assms(3) by simp
qed

lemma row_fine_later: "row_fine now d \<Longrightarrow> now \<le> now' \<Longrightarrow> row_fine now' d"
  by (auto simp: row_fine_def)

lemma pass_fine_later: "pass_fine now p \<Longrightarrow> now \<le> now' \<Longrightarrow> pass_fine now' p"
  by (auto simp: pass_fine_def stop_fine_def split: option.splits)

lemma fine_exhaust_batch:
  "\<forall>d \<in> set rows. row_fine now d \<Longrightarrow> \<forall>d \<in> set (fst (exhaust_batch c od rows)). row_fine now d"
  unfolding exhaust_batch_def Let_def fst_conv by (rule fine_update) (auto intro: fine_exhaust)

lemma fine_exhaustOpen:
  "\<forall>d \<in> set rows. row_fine now d \<Longrightarrow> \<forall>d \<in> set (fst (exhaustOpenDeliveries c od rows)). row_fine now d"
proof (induction c od rows rule: exhaustOpenDeliveries.induct)
  case (1 c od rows)
  note b = fine_exhaust_batch [OF "1.prems", of c od]
  show ?case
  proof (cases "snd (exhaust_batch c od rows) < SETTLE_BATCH")
    case True
    then show ?thesis using b by (subst exhaustOpenDeliveries.simps) simp
  next
    case False
    then show ?thesis using "1.IH" [OF False b]
      by (subst exhaustOpenDeliveries.simps) (simp add: case_prod_beta)
  qed
qed

lemma fine_job:
  assumes "start_drain i now db = (db', opened)" "\<forall>d \<in> set (dd_rows db). row_fine now d"
  shows "\<forall>d \<in> set (dd_rows db'). row_fine now d" "opened = Some p \<Longrightarrow> pass_fine now p"
proof -
  have "dd_rows db' = dd_rows db
      \<or> dd_rows db' = fst (exhaustOpenDeliveries (\<lambda>d. dl_endpointId d = i) True (dd_rows db))"
    and o: "opened = None \<or> opened = Some (new_pass i now)"
    using assms(1) by (auto simp: start_drain_def split: option.splits if_splits)
  then show "\<forall>d \<in> set (dd_rows db'). row_fine now d" using assms(2) fine_exhaustOpen [OF assms(2)] by auto
  show "opened = Some p \<Longrightarrow> pass_fine now p" using o by (auto simp: new_pass_def pass_fine_def held_rows_def)
qed

definition world_fine :: "drain_world \<Rightarrow> bool" where
  "world_fine w \<longleftrightarrow> (\<forall>d \<in> set (dd_rows (dw_db w)). row_fine (dw_now w) d)
     \<and> (\<forall>p \<in> set (dw_passes w). pass_fine (dw_now w) p)"

lemma drain_step_fine:
  assumes "drain_step parse timely w w'" "world_fine w"
  shows "world_fine w'"
  using assms(1)
proof cases
  case (tick now now' db ps)
  then show ?thesis using assms(2) row_fine_later pass_fine_later by (simp add: world_fine_def) blast
next
  case (fan_out now db new ps)
  have "row_fine now d" if "d \<in> set new" for d
    using fan_out(3) that by (auto simp: list_all_iff new_delivery_def row_fine_def attempts_numeral)
  then show ?thesis using assms(2) by (auto simp: world_fine_def fan_out)
next
  case (operator now db ps eps)
  then show ?thesis using assms(2) by (simp add: world_fine_def)
next
  case (job i now db db' opened ps)
  have "\<forall>d \<in> set (dd_rows db). row_fine now d" using assms(2) by (simp add: world_fine_def job)
  note f = fine_job [OF job(3) this]
  have "\<forall>p \<in> set (ps @ (case opened of None \<Rightarrow> [] | Some p \<Rightarrow> [p])). pass_fine now p"
    using assms(2) f(2) by (cases opened) (auto simp: world_fine_def job)
  then show ?thesis using f(1) by (simp add: world_fine_def job)
next
  case (pass j ps now db p' db')
  have d: "\<forall>d \<in> set (dd_rows db). row_fine now d" "\<forall>p \<in> set ps. pass_fine now p"
    using assms(2) by (simp_all add: world_fine_def pass)
  then have "pass_fine now (ps ! j)" using pass(3) by simp
  from fine_pass_step [OF pass(5) this d(1)]
  have n: "pass_fine now p'" "\<forall>d \<in> set (dd_rows db'). row_fine now d" by blast+
  have "\<forall>p \<in> set (ps[j := p']). pass_fine now p"
    using d(2) n(1) set_update_subset_insert [of ps j p'] by blast
  then show ?thesis using n(2) by (simp add: world_fine_def pass)
qed

lemma drain_reach_fine: "drain_reach parse timely w \<Longrightarrow> world_fine w"
proof (induction rule: drain_reach.induct)
  case (init now eps)
  then show ?case by (simp add: world_fine_def)
next
  case (step w w')
  then show ?case using drain_step_fine by blast
qed

section \<open>Properties\<close>

text \<open>
  C20: the lease keeps one sender. As long as a pass acts within the lease it took, no
  delivery is in the hands of two passes, or twice in one pass's, and a delivery that
  succeeded is never written again, whatever passes, fan-outs, disables and crashes interleave.
\<close>

theorem lease_keeps_one_sender:
  assumes "drain_reach parse True w" "drain_step parse True w w'"
  shows "(\<forall>j < length (dw_passes w). \<forall>k < length (dw_passes w). j \<noteq> k \<longrightarrow>
        set (held (dw_now w) (dw_passes w ! j)) \<inter> set (held (dw_now w) (dw_passes w ! k)) = {})
    \<and> (\<forall>p \<in> set (dw_passes w). distinct (held (dw_now w) p))
    \<and> (\<forall>d \<in> set (dd_rows (dw_db w)). dl_status d = DlSuccess \<longrightarrow> d \<in> set (dd_rows (dw_db w')))"
proof -
  have w: "world_ok w" by (rule drain_reach_ok [OF assms(1)])
  have s: "row_by (dd_rows (dw_db w)) i = Some d \<longrightarrow> dl_status d = DlSuccess
      \<longrightarrow> row_by (dd_rows (dw_db w')) i = Some d" for i d
    using drain_step_ok [OF assms(2) TrueI w] by blast
  have "d \<in> set (dd_rows (dw_db w'))" if "d \<in> set (dd_rows (dw_db w))" "dl_status d = DlSuccess" for d
  proof -
    have "row_by (dd_rows (dw_db w)) (dl_id d) = Some d"
      using row_by_iff [of "dd_rows (dw_db w)"] w that(1) by (simp add: world_ok_def)
    then show ?thesis using s that(2) row_by_Some by blast
  qed
  then show ?thesis using w by (simp add: world_ok_def held_apart_def pass_ok_def)
qed


text \<open>
  C22: the drain forgets nothing. While a delivery is open its endpoint's pass re-arms the next
  one when it ends: within a minute, or when the receiver asked it to wait, within the hour.
\<close>

theorem open_deliveries_rearm:
  assumes "drain_reach parse timely w" "p \<in> set (dw_passes w)"
    and "d \<in> set (dd_rows (dw_db w))" "is_open d" "dl_endpointId d = ps_endpointId p"
  shows "(\<exists>u. ps_rearmAt (pass_end (dw_now w) p (dw_db w)) = Some u \<and> u \<le> dw_now w + DRAIN_IDLE_POLL_MS)
    \<and> (case ps_stop p of Some (StopThrottled, t) \<Rightarrow> ps_rearmAt (fst (end_page p (dw_db w))) = Some t
           \<and> t \<le> dw_now w + RETRY_AFTER_MAX_MS | _ \<Rightarrow> True)"
proof -
  have w: "world_fine w" by (rule drain_reach_fine [OF assms(1)])
  have "dl_nextAttemptAt d \<noteq> None" using w assms(3,4) by (auto simp: world_fine_def row_fine_def)
  then have "d \<in> set (filter (\<lambda>d. dl_endpointId d = ps_endpointId p \<and> open_with_clock (\<lambda>_. True) d) (dd_rows (dw_db w)))"
    using assms(3-5) by (simp add: open_with_clock_def)
  then have "open_clocks (ps_endpointId p) (dd_rows (dw_db w)) \<noteq> []" by (auto simp: open_clocks_def filter_empty_conv)
  then have "\<exists>u. ps_rearmAt (pass_end (dw_now w) p (dw_db w)) = Some u \<and> u \<le> dw_now w + DRAIN_IDLE_POLL_MS"
    by (cases "open_clocks (ps_endpointId p) (dd_rows (dw_db w))") (simp_all add: pass_end_def)
  moreover have "pass_fine (dw_now w) p" using w assms(2) by (simp add: world_fine_def)
  ultimately show ?thesis
    by (auto simp: end_page_def pass_fine_def Let_def split: option.splits stop_reason.splits)
qed

text \<open>One endpoint, one delivery, and a pass that posts it.\<close>

definition demo_endpoint :: endpoint where
  "demo_endpoint = \<lparr>ep_id = ''e1'', ep_teamId = ''t1'', ep_url = ''https://x.co'', ep_secret = ''k1'',
     ep_prevSecret = None, ep_prevSecretExpiresAt = None, ep_events = None, ep_inboxIds = None,
     ep_status = EpEnabled\<rparr>"

definition demo_delivery :: "delivery_status \<Rightarrow> int \<Rightarrow> instant option \<Rightarrow> delivery" where
  "demo_delivery st n clock = \<lparr>dl_id = ''d1'', dl_endpointId = ''e1'', dl_emailId = None, dl_messageId = ''m1'',
     dl_eventType = ''email.sent'', dl_payload = \<lparr>wp_type = ''email.sent'', wp_created_at = 0, wp_data = []\<rparr>,
     dl_status = st, dl_attempts = n, dl_lastAttemptAt = None, dl_lastResponseCode = None,
     dl_lastResponseBody = None, dl_nextAttemptAt = clock, dl_createdAt = 0\<rparr>"

definition demo_due :: delivery where "demo_due = demo_delivery DlPending 0 (Some 0)"

definition demo_drain :: "delivery list \<Rightarrow> drain_pass list \<Rightarrow> drain_world" where
  "demo_drain rows ps = \<lparr>dw_now = 0, dw_db = \<lparr>dd_rows = rows, dd_endpoints = [demo_endpoint]\<rparr>, dw_passes = ps\<rparr>"

definition demo_claimed :: drain_pass where
  "demo_claimed = (new_pass ''e1'' 0)\<lparr>ps_phase := Claimed, ps_page := [demo_due]\<rparr>"

definition demo_posting :: drain_pass where
  "demo_posting = demo_claimed\<lparr>ps_phase := Working, ps_cursor := 1, ps_posting := [(demo_due, 0)]\<rparr>"

definition demo_leased :: delivery where "demo_leased = demo_delivery DlPending 0 (Some 60000)"

definition demo_answer :: answer where
  "demo_answer = \<lparr>an_status = Some 204, an_body = [], an_retryAfter = None\<rparr>"

definition demo_done :: delivery where
  "demo_done = settle_row demo_answer demo_due 0 demo_leased"

lemmas demo_drain_defs = demo_drain_def demo_due_def demo_delivery_def demo_endpoint_def demo_claimed_def
  demo_posting_def demo_leased_def demo_answer_def demo_done_def new_pass_def

lemma demo_reach_pass:
  assumes "drain_reach parse True (demo_drain rows [p])" "on_page p \<Longrightarrow> in_lease 0 p"
    and "pass_step parse 0 (p, \<lparr>dd_rows = rows, dd_endpoints = [demo_endpoint]\<rparr>)
           (p', \<lparr>dd_rows = rows', dd_endpoints = [demo_endpoint]\<rparr>)"
  shows "drain_reach parse True (demo_drain rows' [p'])"
proof -
  have "drain_step parse True (demo_drain rows [p]) (demo_drain rows' ([p][0 := p']))"
    unfolding demo_drain_def by (rule drain_step.pass) (use assms(2,3) in auto)
  then show ?thesis using drain_reach.step [OF assms(1)] by simp
qed

lemma demo_reach_claimed: "drain_reach parse True (demo_drain [demo_leased] [demo_claimed])"
proof -
  have "drain_reach parse True (demo_drain [] [])" unfolding demo_drain_def by (rule drain_reach.init)
  moreover have "drain_step parse True (demo_drain [] []) (demo_drain [demo_due] [])"
    using drain_step.fan_out [of 0 "\<lparr>dd_rows = [], dd_endpoints = [demo_endpoint]\<rparr>" "[demo_due]" parse True "[]"]
    by (simp add: demo_drain_def new_delivery_def demo_due_def demo_delivery_def)
  moreover have "drain_step parse True (demo_drain [demo_due] []) (demo_drain [demo_due] [new_pass ''e1'' 0])"
    using drain_step.job [of "''e1''" 0 "\<lparr>dd_rows = [demo_due], dd_endpoints = [demo_endpoint]\<rparr>"
        "\<lparr>dd_rows = [demo_due], dd_endpoints = [demo_endpoint]\<rparr>" "Some (new_pass ''e1'' 0)" parse True "[]"]
    by (simp add: demo_drain_def start_drain_def endpoint_by_id_def demo_endpoint_def)
  ultimately have "drain_reach parse True (demo_drain [demo_due] [new_pass ''e1'' 0])"
    by (meson drain_reach.step)
  then show ?thesis
  proof (rule demo_reach_pass)
    show "in_lease 0 (new_pass ''e1'' 0)" by (simp add: in_lease_def new_pass_def LEASE_MS_def)
    have "pass_head False 0 {} (new_pass ''e1'' 0) \<lparr>dd_rows = [demo_due], dd_endpoints = [demo_endpoint]\<rparr>
        = (demo_claimed, \<lparr>dd_rows = [demo_leased], dd_endpoints = [demo_endpoint]\<rparr>)"
      by code_simp
    moreover have "pass_step parse 0 (new_pass ''e1'' 0, db) (pass_head False 0 {} (new_pass ''e1'' 0) db)" for db
      by (rule pass_step.head) (simp add: new_pass_def)
    ultimately show "pass_step parse 0 (new_pass ''e1'' 0, \<lparr>dd_rows = [demo_due], dd_endpoints = [demo_endpoint]\<rparr>)
       (demo_claimed, \<lparr>dd_rows = [demo_leased], dd_endpoints = [demo_endpoint]\<rparr>)" by metis
  qed
qed

lemma demo_reach_posting: "drain_reach parse True (demo_drain [demo_leased] [demo_posting])"
proof -
  let ?db = "\<lparr>dd_rows = [demo_leased], dd_endpoints = [demo_endpoint]\<rparr>"
  let ?w = "demo_claimed\<lparr>ps_phase := Working\<rparr>"
  let ?t = "?w\<lparr>ps_cursor := 1, ps_waiting := [demo_due]\<rparr>"
  have l: "in_lease 0 demo_claimed" "in_lease 0 ?w" "in_lease 0 ?t"
    by (simp_all add: in_lease_def demo_claimed_def new_pass_def LEASE_MS_def)
  have "pass_check 0 demo_claimed ?db = (?w, ?db)" by code_simp
  then have "pass_step parse 0 (demo_claimed, ?db) (?w, ?db)"
    using pass_step.check [of demo_claimed parse 0 ?db] by (simp add: demo_claimed_def)
  then have 1: "drain_reach parse True (demo_drain [demo_leased] [?w])"
    by (rule demo_reach_pass [OF demo_reach_claimed l(1)])
  have "take_row False 0 ?w ?db = Some (?t, ?db)" by code_simp
  then have "pass_step parse 0 (?w, ?db) (?t, ?db)" by (intro pass_step.take_one) simp
  then have 2: "drain_reach parse True (demo_drain [demo_leased] [?t])" by (rule demo_reach_pass [OF 1 l(2)])
  have "bucket_row False 0 demo_due ?t = demo_posting" by code_simp
  moreover have "pass_step parse 0 (?t, ?db) (bucket_row False 0 demo_due ?t, ?db)"
    by (rule pass_step.bucket) simp_all
  ultimately have "pass_step parse 0 (?t, ?db) (demo_posting, ?db)" by simp
  then show ?thesis by (rule demo_reach_pass [OF 2 l(3)])
qed

lemma demo_posting_step:
  "drain_step parse True (demo_drain [demo_leased] [demo_posting])
     (demo_drain [demo_done] [demo_posting\<lparr>ps_posting := [], ps_posted := 1\<rparr>])"
proof -
  let ?db = "\<lparr>dd_rows = [demo_leased], dd_endpoints = [demo_endpoint]\<rparr>"
  have "answer_row parse demo_answer (demo_due, 0) demo_posting ?db
      = (demo_posting\<lparr>ps_posting := [], ps_posted := 1\<rparr>, \<lparr>dd_rows = [demo_done], dd_endpoints = [demo_endpoint]\<rparr>)"
    by (simp add: answer_row_def exhausting_def ok_answer_def update_rows_def demo_drain_defs Let_def)
  moreover have "pass_step parse 0 (demo_posting, ?db) (answer_row parse demo_answer (demo_due, 0) demo_posting ?db)"
    by (rule pass_step.answered) (simp_all add: demo_posting_def)
  ultimately have s: "pass_step parse 0 ([demo_posting] ! 0, ?db)
      (demo_posting\<lparr>ps_posting := [], ps_posted := 1\<rparr>, \<lparr>dd_rows = [demo_done], dd_endpoints = [demo_endpoint]\<rparr>)" by simp
  show ?thesis using drain_step.pass [OF _ _ s, of True]
    by (simp add: demo_drain_def in_lease_def demo_posting_def demo_claimed_def new_pass_def LEASE_MS_def)
qed

theorem lease_keeps_one_sender_witness:
  "held 0 demo_posting = [''d1''] \<and> distinct (held 0 demo_posting) \<and> dl_status demo_done = DlSuccess
   \<and> demo_done \<in> set (dd_rows (dw_db (demo_drain [demo_done] [demo_posting\<lparr>ps_posting := [], ps_posted := 1\<rparr>])))"
proof -
  let ?w = "demo_drain [demo_done] [demo_posting\<lparr>ps_posting := [], ps_posted := 1\<rparr>]"
  have d: "distinct (held 0 demo_posting)"
    using lease_keeps_one_sender [OF demo_reach_posting demo_posting_step] by (simp add: demo_drain_def)
  have s: "dl_status demo_done = DlSuccess" by code_simp
  have "drain_step (\<lambda>_. HUnreadable) True ?w ?w" unfolding demo_drain_def by (rule drain_step.tick) simp
  then have "demo_done \<in> set (dd_rows (dw_db ?w))"
    using lease_keeps_one_sender [OF drain_reach.step [OF demo_reach_posting demo_posting_step]] s
    by (simp add: demo_drain_def)
  moreover have "held 0 demo_posting = [''d1'']" by code_simp
  ultimately show ?thesis using d s by blast
qed


theorem open_deliveries_rearm_witness:
  "is_open demo_leased \<and> ps_rearmAt (pass_end 0 demo_posting (dw_db (demo_drain [demo_leased] [demo_posting]))) = Some 60000
   \<and> (\<exists>u. ps_rearmAt (pass_end 0 demo_posting (dw_db (demo_drain [demo_leased] [demo_posting]))) = Some u
        \<and> u \<le> DRAIN_IDLE_POLL_MS)"
proof -
  have o: "is_open demo_leased" "dl_endpointId demo_leased = ps_endpointId demo_posting" by code_simp+
  have r: "ps_rearmAt (pass_end 0 demo_posting (dw_db (demo_drain [demo_leased] [demo_posting]))) = Some 60000"
    by code_simp
  have "dw_now (demo_drain [demo_leased] [demo_posting]) = 0" by (simp add: demo_drain_def)
  then show ?thesis
    using open_deliveries_rearm [OF demo_reach_posting, of demo_posting demo_leased] o r
    by (simp add: demo_drain_def)
qed

end
