(* ===== verification/SesEvents.thy ===== *)
theory SesEvents
  imports WebhookDrain QuotaProps
begin

text \<open>
  \<open>apps/worker/src/handlers/process-ses-event.ts\<close>: what a verified event of SES does to the tables,
  with the parts of \<open>mailbox-providers.ts\<close>, \<open>contact-events.ts\<close> and \<open>console-code.ts\<close> it calls. The row
  is read first; everything an event causes then commits in one transaction, \<open>ses_apply\<close>, behind an
  insert that is unique per SNS message. \<open>fresh_ids\<close> are the ids the database draws, and \<open>now\<close> its clock.
\<close>

section \<open>Providers and answers\<close>

definition SES_MAILBOX_SIMULATOR_DOMAIN :: string where
  "SES_MAILBOX_SIMULATOR_DOMAIN = ''simulator.amazonses.com''"

definition APPLE_MAIL_DOMAINS :: "string list" where
  "APPLE_MAIL_DOMAINS = [''icloud.com'', ''me.com'', ''mac.com'']"

definition NO_COMPLAINT_FEEDBACK_DOMAINS :: "string list" where
  "NO_COMPLAINT_FEEDBACK_DOMAINS = GMAIL_DOMAINS @ APPLE_MAIL_DOMAINS @ [''t-online.de'', ''magenta.de'']"

definition SES_UNATTEMPTED_SUBTYPES :: "string list" where
  "SES_UNATTEMPTED_SUBTYPES = [''OnAccountSuppressionList'', ''OnTenantSuppressionList'',
     ''EmailValidationSuppressed'', ''UnsubscribedRecipient'']"

definition sesAttempted :: "string option \<Rightarrow> bool" where
  "sesAttempted subType \<longleftrightarrow> (case subType of None \<Rightarrow> [] | Some s \<Rightarrow> s) \<notin> set SES_UNATTEMPTED_SUBTYPES"

text \<open>What follows the last @, or the whole string, without the angles that close it.\<close>

definition recipientDomain :: "text_lib \<Rightarrow> string \<Rightarrow> string" where
  "recipientDomain lib recipient =
     (let tail = rev (takeWhile (\<lambda>c. c \<noteq> CHR ''@'') (rev recipient))
      in tl_lower lib (rev (dropWhile (\<lambda>c. c = CHR ''>'') (rev tail))))"

definition complaintReportingRecipients :: "text_lib \<Rightarrow> string list \<Rightarrow> string list" where
  "complaintReportingRecipients lib recipients =
     js_set (filter (\<lambda>r. recipientDomain lib r \<notin> set NO_COMPLAINT_FEEDBACK_DOMAINS
        \<and> recipientDomain lib r \<noteq> SES_MAILBOX_SIMULATOR_DOMAIN) recipients)"

definition sentWithoutComplaintFeedback :: "text_lib \<Rightarrow> string list \<Rightarrow> bool" where
  "sentWithoutComplaintFeedback lib recipients \<longleftrightarrow>
     recipients \<noteq> [] \<and> complaintReportingRecipients lib recipients = []"

definition simulatorFeedback :: "text_lib \<Rightarrow> string list \<Rightarrow> bool" where
  "simulatorFeedback lib recipients \<longleftrightarrow>
     recipients \<noteq> [] \<and> list_all (\<lambda>r. recipientDomain lib r = SES_MAILBOX_SIMULATOR_DOMAIN) recipients"

text \<open>The tests of the two patterns, over a text in lower case.\<close>

fun contains :: "string \<Rightarrow> string \<Rightarrow> bool" where
  "contains w [] = (w = [])"
| "contains w (c # cs) = (starts_with w (c # cs) \<or> contains w cs)"

definition is_word :: "char \<Rightarrow> bool" where
  "is_word c \<longleftrightarrow> is_alnum c \<or> c = CHR ''_''"

fun contains_word :: "string \<Rightarrow> bool \<Rightarrow> string \<Rightarrow> bool" where
  "contains_word w inside [] = False"
| "contains_word w inside (c # cs) =
     ((\<not> inside \<and> starts_with w (c # cs)
        \<and> (case drop (length w) (c # cs) of [] \<Rightarrow> True | d # _ \<Rightarrow> \<not> is_word d))
      \<or> contains_word w (is_word c) cs)"

definition INACTIVE_MAILBOX_PATTERN :: "string \<Rightarrow> bool" where
  "INACTIVE_MAILBOX_PATTERN answer = contains_word ''inactive'' False (map lower_ascii answer)"

definition MAILBOX_FULL_PATTERN :: "string \<Rightarrow> bool" where
  "MAILBOX_FULL_PATTERN answer =
     (list_ex (\<lambda>w. contains w (map lower_ascii answer))
        [''mailboxfull'', ''out of storage'', ''over quota'', ''quota exceeded'', ''quotaexceeded'',
         ''mailbox is full'', ''mailbox full'', ''mailbox limit'', ''insufficient system storage'',
         ''insufficient storage'']
      \<or> INACTIVE_MAILBOX_PATTERN answer)"

section \<open>Events and tables\<close>

datatype event_type =
  EvQueued | EvQueuedQuota | EvSent | EvDeliveryDelayed | EvDelivered | EvOpened | EvClicked | EvBounced
| EvComplained | EvSuppressed | EvRenderingFailure | EvFailed | EvPrefetched | EvUnsubscribed

fun event_type_name :: "event_type \<Rightarrow> string" where
  "event_type_name EvQueued = ''queued''" | "event_type_name EvQueuedQuota = ''queued_quota''"
| "event_type_name EvSent = ''sent''" | "event_type_name EvDeliveryDelayed = ''delivery_delayed''"
| "event_type_name EvDelivered = ''delivered''" | "event_type_name EvOpened = ''opened''"
| "event_type_name EvClicked = ''clicked''" | "event_type_name EvBounced = ''bounced''"
| "event_type_name EvComplained = ''complained''" | "event_type_name EvSuppressed = ''suppressed''"
| "event_type_name EvRenderingFailure = ''rendering_failure''" | "event_type_name EvFailed = ''failed''"
| "event_type_name EvPrefetched = ''prefetched''" | "event_type_name EvUnsubscribed = ''unsubscribed''"

record ses_bounce =
  bo_bounceType :: string
  bo_bounceSubType :: string
  bo_recipients :: "string list"
  bo_diagnosticCode :: "string option"

record ses_complaint =
  cp_complaintFeedbackType :: "string option"
  cp_complaintSubType :: "string option"
  cp_recipients :: "string list"

record ses_event =
  se_eventType :: string
  se_sesMessageId :: string
  se_emailId :: "ident option"
  se_poolOwnerId :: "ident option"
  se_occurredAt :: instant
  se_sentAt :: "instant option"
  se_bounce :: "ses_bounce option"
  se_complaint :: "ses_complaint option"
  se_data :: "(string \<times> json) list"

record event_row =
  ev_emailId :: ident
  ev_type :: event_type
  ev_occurredAt :: instant
  ev_snsMessageId :: "string option"
  ev_bounceType :: "string option"
  ev_data :: "(string \<times> json) list option"

record unmatched_row =
  un_snsMessageId :: "string option"
  un_sesMessageId :: string
  un_type :: event_type
  un_bounceType :: "string option"
  un_subType :: "string option"
  un_poolOwnerId :: "ident option"
  un_occurredAt :: instant

record mailbox_contact = contact_row +
  ct_mailboxFullAt :: "instant option"

record verification_row =
  ve_identifier :: string
  ve_value :: string
  ve_expiresAt :: instant

text \<open>\<open>sb_counters\<close> are the columns of \<open>usage_counters\<close> that feedback counts.\<close>

record ses_db =
  sb_mails :: "mail_row list"
  sb_events :: "event_row list"
  sb_unmatched :: "unmatched_row list"
  sb_usage :: usage_db
  sb_counters :: "ident \<times> int \<rightharpoonup> (usage_counter \<Rightarrow> int)"
  sb_suppressions :: "suppression_row list"
  sb_contacts :: "mailbox_contact list"
  sb_teams :: "ident \<rightharpoonup> team_row"
  sb_endpoints :: "endpoint list"
  sb_deliveries :: "delivery list"
  sb_codes :: "verification_row list"

record fresh_ids =
  fi_suppression :: "nat \<Rightarrow> ident"
  fi_email_delivery :: "nat \<Rightarrow> ident \<times> ident"
  fi_team_delivery :: "nat \<Rightarrow> ident \<times> ident"

section \<open>Console codes\<close>

definition CONSOLE_CODE_MINUTES :: int where "CONSOLE_CODE_MINUTES = 10"
definition MAIL_PREFIX :: string where "MAIL_PREFIX = ''console-code-mail:''"
definition SYSTEM_MAIL_TAG :: string where "SYSTEM_MAIL_TAG = ''millionsend_system''"

definition consoleCodeUnsentId :: "string \<Rightarrow> string" where
  "consoleCodeUnsentId userId = ''console-code-unsent:'' @ userId"

definition code_bound :: "ident \<Rightarrow> instant \<Rightarrow> verification_row \<Rightarrow> bool" where
  "code_bound emailId now v \<longleftrightarrow>
     starts_with MAIL_PREFIX (ve_identifier v) \<and> ve_value v = emailId \<and> now < ve_expiresAt v"

definition noteConsoleCodeUndelivered :: "'a mail_row_scheme \<Rightarrow> instant \<Rightarrow> verification_row list \<Rightarrow> verification_row list" where
  "noteConsoleCodeUndelivered email now codes =
     (if (case ma_tags email of None \<Rightarrow> None | Some tags \<Rightarrow> map_of tags SYSTEM_MAIL_TAG) \<noteq> Some ''console_code''
      then codes
      else case List.find (code_bound (er_id email) now) codes of
        None \<Rightarrow> codes
      | Some bound \<Rightarrow>
          let unsent = consoleCodeUnsentId (drop (length MAIL_PREFIX) (ve_identifier bound))
          in filter (\<lambda>v. ve_identifier v \<noteq> unsent) codes
             @ [\<lparr>ve_identifier = unsent, ve_value = ''1'', ve_expiresAt = now + CONSOLE_CODE_MINUTES * 60000\<rparr>])"

section \<open>Suppression events\<close>

definition ERASED_TOMBSTONE :: string where "ERASED_TOMBSTONE = ''[erased]''"

definition suppression_data :: "suppression_row \<Rightarrow> string option \<Rightarrow> (string \<times> json) list" where
  "suppression_data row source =
     [(''id'', JStr (sp_id row)),
      (''email'', JStr (case sp_email row of Some e \<Rightarrow> e | None \<Rightarrow> ERASED_TOMBSTONE)),
      (''origin'', JStr (SUPPRESSION_ORIGIN_BY_REASON (sp_reason row))),
      (''source'', case source of Some s \<Rightarrow> JStr s | None \<Rightarrow> JNull),
      (''source_id'', case sp_sourceEmailId row of Some i \<Rightarrow> JStr i | None \<Rightarrow> JNull),
      (''created_at'', JDate (sp_createdAt row))]"

definition emitSuppressionEvents ::
    "(nat \<Rightarrow> ident \<times> ident) \<Rightarrow> instant \<Rightarrow> endpoint list \<Rightarrow> ident \<Rightarrow> string \<Rightarrow> suppression_row list \<Rightarrow> string option
     \<Rightarrow> delivery list \<Rightarrow> delivery list \<times> (ident \<times> ident) list list" where
  "emitSuppressionEvents fresh now eps teamId type rows source dls =
     (if rows = [] then (dls, [])
      else enqueueTeamWebhookEvents fresh now eps teamId
             (map (\<lambda>row. \<lparr>te_type = type, te_occurredAt = now, te_data = suppression_data row source,
                          te_inboxIds = None\<rparr>) rows) dls)"

section \<open>An event\<close>

definition STATUS_BY_EVENT :: "string \<Rightarrow> email_status option" where
  "STATUS_BY_EVENT = map_of [(''Delivery'', Delivered), (''DeliveryDelay'', DeliveryDelayed), (''Bounce'', Bounced),
     (''Complaint'', Complained), (''Reject'', Failed), (''Rendering Failure'', Failed)]"

definition EVENT_TYPE_BY_EVENT :: "string \<Rightarrow> event_type option" where
  "EVENT_TYPE_BY_EVENT = map_of [(''Delivery'', EvDelivered), (''DeliveryDelay'', EvDeliveryDelayed),
     (''Bounce'', EvBounced), (''Complaint'', EvComplained), (''Reject'', EvFailed),
     (''Rendering Failure'', EvRenderingFailure)]"

definition webhookExtras :: "ses_event \<Rightarrow> (string \<times> json) list" where
  "webhookExtras event =
     (case se_bounce event of
        Some b \<Rightarrow> [(''bounce'', JObj ([(''type'', JStr (bo_bounceType b)), (''sub_type'', JStr (bo_bounceSubType b))]
           @ (case bo_diagnosticCode b of Some d \<Rightarrow> if d = [] then [] else [(''diagnostic_code'', JStr d)] | None \<Rightarrow> [])))]
      | None \<Rightarrow> (case se_complaint event of
          Some c \<Rightarrow> (case cp_complaintFeedbackType c of
              Some f \<Rightarrow> if f = [] then [] else [(''complaint_feedback_type'', JStr f)] | None \<Rightarrow> [])
        | None \<Rightarrow> if se_eventType event = ''Reject'' then failedEmailExtras ''ses_Reject'' else []))"

definition event_day :: "ses_event \<Rightarrow> int" where
  "event_day event = utcDay (if se_eventType event = ''Complaint''
     then (case se_sentAt event of Some s \<Rightarrow> s | None \<Rightarrow> se_occurredAt event) else se_occurredAt event)"

definition rated :: "text_lib \<Rightarrow> ses_event \<Rightarrow> bool" where
  "rated lib event \<longleftrightarrow> \<not> simulatorFeedback lib
     (case se_bounce event of Some b \<Rightarrow> bo_recipients b
      | None \<Rightarrow> (case se_complaint event of Some c \<Rightarrow> cp_recipients c | None \<Rightarrow> []))"

definition feedback_cols :: "text_lib \<Rightarrow> ses_event \<Rightarrow> usage_counter list" where
  "feedback_cols lib event =
     (if se_eventType event = ''Delivery'' then [UDelivered]
      else if se_eventType event = ''Bounce''
      then (if (case se_bounce event of Some b \<Rightarrow> bo_bounceType b = ''Permanent'' \<and> sesAttempted (Some (bo_bounceSubType b))
                | None \<Rightarrow> False) \<and> rated lib event
            then [UBounced, UHardBounced] else [UBounced])
      else if se_eventType event = ''Complaint''
           \<and> sesAttempted (case se_complaint event of Some c \<Rightarrow> cp_complaintSubType c | None \<Rightarrow> None) \<and> rated lib event
      then [UComplained] else [])"

definition hourly_counts :: "usage_counter list \<Rightarrow> usage_counter \<rightharpoonup> int" where
  "hourly_counts cols c = (if c \<in> set cols then Some 1 else None)"

definition pool_counts :: "usage_counter list \<Rightarrow> pool_counter \<rightharpoonup> int" where
  "pool_counts cols = map_of (map (\<lambda>c. (c, 1)) (
     (if UHardBounced \<in> set cols then [PHardBounced] else []) @ (if UComplained \<in> set cols then [PComplained] else [])))"

definition is_hex :: "char \<Rightarrow> bool" where
  "is_hex c \<longleftrightarrow> (let n = of_char c :: nat in 48 \<le> n \<and> n \<le> 57 \<or> 65 \<le> n \<and> n \<le> 70 \<or> 97 \<le> n \<and> n \<le> 102)"

definition isUuid :: "string \<Rightarrow> bool" where
  "isUuid v \<longleftrightarrow> length v = 36 \<and>
     list_all (\<lambda>i. if i \<in> {8, 13, 18, 23} then v ! i = CHR ''-''
        else if i = 14 then v ! i \<in> set ''12345678''
        else if i = 19 then v ! i \<in> set ''89abAB'' else is_hex (v ! i)) [0..<36]"

text \<open>The row an event is about, and whether only SES's tag names it.\<close>

definition ses_read :: "ses_event \<Rightarrow> mail_row list \<Rightarrow> (mail_row \<times> bool) option" where
  "ses_read event mails =
     (case List.find (\<lambda>e. er_sesMessageId e = Some (se_sesMessageId event)) mails of
        Some e \<Rightarrow> Some (e, False)
      | None \<Rightarrow> (case se_emailId event of
          None \<Rightarrow> None
        | Some i \<Rightarrow> if i \<noteq> [] \<and> isUuid i
            then map_option (\<lambda>e. (e, True))
                   (List.find (\<lambda>e. er_id e = i \<and> er_sesMessageId e = None \<and> er_sentAt e \<noteq> None) mails)
            else None))"

definition sns_seen :: "string option \<Rightarrow> string option list \<Rightarrow> bool" where
  "sns_seen sns seen \<longleftrightarrow> sns \<noteq> None \<and> sns \<in> set seen"

definition record_unmatched :: "text_lib \<Rightarrow> instant \<Rightarrow> string option \<Rightarrow> ses_event \<Rightarrow> event_type \<Rightarrow> ses_db \<Rightarrow> ses_db" where
  "record_unmatched lib now sns event type db =
     (if (type = EvComplained \<or> type = EvBounced) \<and> rated lib event
         \<and> \<not> sns_seen sns (map un_snsMessageId (sb_unmatched db))
      then
        let row = \<lparr>un_snsMessageId = sns, un_sesMessageId = se_sesMessageId event, un_type = type,
              un_bounceType = map_option bo_bounceType (se_bounce event),
              un_subType = (case se_bounce event of Some b \<Rightarrow> Some (bo_bounceSubType b)
                | None \<Rightarrow> (case se_complaint event of Some c \<Rightarrow> cp_complaintSubType c | None \<Rightarrow> None)),
              un_poolOwnerId = se_poolOwnerId event, un_occurredAt = se_occurredAt event\<rparr>
        in db\<lparr>sb_unmatched := sb_unmatched db @ [row],
              sb_usage := (case se_poolOwnerId event of
                  None \<Rightarrow> sb_usage db
                | Some ow \<Rightarrow> if ow = [] then sb_usage db
                    else bumpFreePoolUsage (sb_teams db) (ByOwner ow) (event_day event)
                           (pool_counts (feedback_cols lib event)) now (sb_usage db))\<rparr>
      else db)"

section \<open>Suppressions an event writes\<close>

text \<open>The contacts with their first full answers, and the recipients given up on.\<close>

fun full_loop :: "text_lib \<Rightarrow> mail_row \<Rightarrow> instant \<Rightarrow> string list \<Rightarrow> mailbox_contact list \<Rightarrow> mailbox_contact list \<times> string list" where
  "full_loop lib email occurred [] contacts = (contacts, [])"
| "full_loop lib email occurred (r # rs) contacts =
     (case List.find (\<lambda>c. ct_teamId c = er_teamId email
           \<and> (case ma_contactId email of
                Some i \<Rightarrow> ct_id c = i
              | None \<Rightarrow> tl_pgLower lib (ct_email c) = tl_pgLower lib r)) contacts of
        None \<Rightarrow> full_loop lib email occurred rs contacts
      | Some c \<Rightarrow>
          (case ct_mailboxFullAt c of
             Some first \<Rightarrow>
               let age = occurred - first in
               if DAY_MS \<le> age \<and> age \<le> 30 * DAY_MS
               then (case full_loop lib email occurred rs contacts of (cs, out) \<Rightarrow> (cs, r # out))
               else if 30 * DAY_MS < age
               then full_loop lib email occurred rs
                      (update_rows (\<lambda>x. ct_id x = ct_id c) (\<lambda>x. x\<lparr>ct_mailboxFullAt := Some occurred\<rparr>) contacts)
               else full_loop lib email occurred rs contacts
           | None \<Rightarrow> full_loop lib email occurred rs
                      (update_rows (\<lambda>x. ct_id x = ct_id c) (\<lambda>x. x\<lparr>ct_mailboxFullAt := Some occurred\<rparr>) contacts)))"

definition bounce_answer :: "ses_bounce \<Rightarrow> string" where
  "bounce_answer b = bo_bounceSubType b @ CHR '' '' # (case bo_diagnosticCode b of Some d \<Rightarrow> d | None \<Rightarrow> [])"

definition fullMailboxes ::
    "text_lib \<Rightarrow> mail_row \<Rightarrow> ses_bounce \<Rightarrow> string list \<Rightarrow> instant \<Rightarrow> mailbox_contact list \<Rightarrow> mailbox_contact list \<times> string list" where
  "fullMailboxes lib email bounce recipients occurred contacts =
     (if bo_bounceType bounce \<noteq> ''Transient'' \<or> \<not> MAILBOX_FULL_PATTERN (bounce_answer bounce) then (contacts, [])
      else if INACTIVE_MAILBOX_PATTERN (bounce_answer bounce) then (contacts, recipients)
      else full_loop lib email occurred recipients contacts)"

definition mail_recipients :: "mail_row \<Rightarrow> string list" where
  "mail_recipients e = er_to e @ (case ma_cc e of Some xs \<Rightarrow> xs | None \<Rightarrow> []) @ (case ma_bcc e of Some xs \<Rightarrow> xs | None \<Rightarrow> [])"

definition own_recipients :: "text_lib \<Rightarrow> mail_row \<Rightarrow> string list \<Rightarrow> string list" where
  "own_recipients lib email recipients =
     filter (\<lambda>r. hashRecipient lib r \<in> set (map (hashRecipient lib) (mail_recipients email))) recipients"

definition to_suppress ::
    "text_lib \<Rightarrow> mail_row \<Rightarrow> ses_event \<Rightarrow> mailbox_contact list
     \<Rightarrow> mailbox_contact list \<times> (string \<times> suppression_reason_kind) list" where
  "to_suppress lib email event contacts =
     (case (se_eventType event = ''Bounce'', se_bounce event) of
        (True, Some b) \<Rightarrow>
          (case (if bo_bounceType b = ''Permanent'' then (contacts, own_recipients lib email (bo_recipients b))
                 else fullMailboxes lib email b (own_recipients lib email (bo_recipients b)) (se_occurredAt event) contacts) of
             (cs, rs) \<Rightarrow> (cs, map (\<lambda>r. (r, HardBounce)) rs))
      | _ \<Rightarrow>
          if se_eventType event = ''Complaint''
          then (contacts, map (\<lambda>r. (r, Complaint)) (own_recipients lib email
                  (case se_complaint event of Some c \<Rightarrow> cp_recipients c | None \<Rightarrow> [])))
          else (contacts, []))"

definition suppression_of ::
    "text_lib \<Rightarrow> mail_row \<Rightarrow> instant \<Rightarrow> ident \<Rightarrow> string \<times> suppression_reason_kind \<Rightarrow> suppression_row" where
  "suppression_of lib email now i s =
     \<lparr>sp_id = i, sp_teamId = er_teamId email, sp_email = Some (fst s), sp_emailHash = hashRecipient lib (fst s),
      sp_reason = snd s, sp_sourceEmailId = Some (er_id email), sp_createdAt = now\<rparr>"

fun suppress_loop ::
    "text_lib \<Rightarrow> mail_row \<Rightarrow> instant \<Rightarrow> (nat \<Rightarrow> ident) \<Rightarrow> nat \<Rightarrow> (string \<times> suppression_reason_kind) list
     \<Rightarrow> suppression_row list \<Rightarrow> suppression_row list \<times> suppression_row list" where
  "suppress_loop lib email now ids n [] rows = (rows, [])"
| "suppress_loop lib email now ids n (s # ss) rows =
     (let row = suppression_of lib email now (ids n) s in
      case insert_suppression row rows of
        (rows', inserted) \<Rightarrow>
          (case suppress_loop lib email now ids (Suc n) ss rows' of
             (rows'', added) \<Rightarrow> (rows'', if inserted then row # added else added)))"

section \<open>The transaction\<close>

definition joins :: "ses_event \<Rightarrow> mail_row \<Rightarrow> mail_row \<Rightarrow> bool" where
  "joins event email e \<longleftrightarrow> er_id e = er_id email \<and> er_sentAt e \<noteq> None
     \<and> (er_sesMessageId e = None \<or> er_sesMessageId e = Some (se_sesMessageId event))"

definition join_row :: "ses_event \<Rightarrow> mail_row \<Rightarrow> mail_row" where
  "join_row event e = e\<lparr>er_sesMessageId := Some (se_sesMessageId event)\<rparr>"

definition event_of :: "string option \<Rightarrow> ses_event \<Rightarrow> event_type \<Rightarrow> mail_row \<Rightarrow> event_row" where
  "event_of sns event type email =
     \<lparr>ev_emailId = er_id email, ev_type = type, ev_occurredAt = se_occurredAt event, ev_snsMessageId = sns,
      ev_bounceType = (if se_eventType event = ''Bounce'' then map_option bo_bounceType (se_bounce event) else None),
      ev_data = Some (se_data event)\<rparr>"

definition email_webhook ::
    "fresh_ids \<Rightarrow> instant \<Rightarrow> ses_event \<Rightarrow> event_type \<Rightarrow> bool \<Rightarrow> mail_row \<Rightarrow> endpoint list \<Rightarrow> delivery list
     \<Rightarrow> delivery list \<times> (ident \<times> ident) list list" where
  "email_webhook ids now event type flipped email eps dls =
     (let webhookType = ''email.'' @ event_type_name type in
      if type \<noteq> EvSent \<and> isWebhookEventType webhookType \<and> (webhookType \<noteq> ''email.failed'' \<or> flipped)
      then enqueueWebhookDeliveries (fi_email_delivery ids) now eps (er_teamId email)
             \<lparr>ei_type = webhookType,
              ei_email = \<lparr>ef_emailId = er_id email, ef_from = er_from email, ef_to = er_to email, ef_subject = er_subject email\<rparr>,
              ei_occurredAt = se_occurredAt event, ei_extras = webhookExtras event\<rparr> dls
      else (dls, []))"

definition count_feedback ::
    "instant \<Rightarrow> ses_event \<Rightarrow> usage_counter list \<Rightarrow> mail_row \<Rightarrow> ses_db \<Rightarrow> ses_db" where
  "count_feedback now event cols email db =
     (if cols = [] then db
      else
        let es = map (\<lambda>c. (c, 1)) cols;
            usage1 = bumpHourlyUsage (er_teamId email) (se_occurredAt event) (hourly_counts cols) (sb_usage db);
            ref = (case se_poolOwnerId event of
                Some ow \<Rightarrow> if ow = [] then ByTeam (er_teamId email) else ByOwner ow
              | None \<Rightarrow> ByTeam (er_teamId email))
        in db\<lparr>sb_counters := (case upsert (er_teamId email, event_day event) (add_entries es (\<lambda>_. 0))
                    (\<lambda>r. Some (add_entries es r)) (sb_counters db) of
                 Some (m, _) \<Rightarrow> m | None \<Rightarrow> sb_counters db),
              sb_usage := bumpFreePoolUsage (sb_teams db) ref (event_day event) (pool_counts cols) now usage1\<rparr>)"

text \<open>\<open>None\<close> is a throw, which rolls back; the second component is what the hooks flush to the queue.\<close>

definition ses_apply ::
    "text_lib \<Rightarrow> fresh_ids \<Rightarrow> instant \<Rightarrow> string option \<Rightarrow> ses_event \<Rightarrow> email_status \<Rightarrow> event_type
     \<Rightarrow> mail_row \<times> bool \<Rightarrow> ses_db \<Rightarrow> (ses_db \<times> (ident \<times> ident) list) option" where
  "ses_apply lib ids now sns event status type target db =
     (let email = fst target in
      if snd target \<and> \<not> list_ex (joins event email) (sb_mails db) then Some (db, [])
      else
        let db1 = (if snd target
                   then db\<lparr>sb_mails := update_rows (joins event email) (join_row event) (sb_mails db)\<rparr> else db)
        in
        if sns_seen sns (map ev_snsMessageId (sb_events db1)) then Some (db1, [])
        else
          (case applyStatusCas (er_id email) status (sb_mails db1) of
             None \<Rightarrow> None
           | Some (mails, flipped) \<Rightarrow>
               let (dls1, handed1) = email_webhook ids now event type flipped email (sb_endpoints db1) (sb_deliveries db1);
                   db2 = count_feedback now event (feedback_cols lib event) email
                     (db1\<lparr>sb_mails := mails,
                         sb_events := sb_events db1 @ [event_of sns event type email],
                         sb_codes := (if status = Bounced \<or> status = Failed
                            then noteConsoleCodeUndelivered email now (sb_codes db1) else sb_codes db1),
                         sb_deliveries := dls1\<rparr>);
                   (contacts, items) = to_suppress lib email event (sb_contacts db2);
                   (rows, added) = suppress_loop lib email now (fi_suppression ids) 0 items (sb_suppressions db2);
                   (dls2, handed2) = emitSuppressionEvents (fi_team_delivery ids) now (sb_endpoints db2)
                     (er_teamId email) ''suppression.added'' added None (sb_deliveries db2)
               in Some (db2\<lparr>sb_contacts := contacts, sb_suppressions := rows, sb_deliveries := dls2\<rparr>,
                        concat handed1 @ concat handed2)))"

definition processSesEvent ::
    "text_lib \<Rightarrow> fresh_ids \<Rightarrow> instant \<Rightarrow> ses_event \<Rightarrow> string option \<Rightarrow> ses_db \<Rightarrow> (ses_db \<times> (ident \<times> ident) list) option" where
  "processSesEvent lib ids now event sns db =
     (case (STATUS_BY_EVENT (se_eventType event), EVENT_TYPE_BY_EVENT (se_eventType event)) of
        (Some status, Some type) \<Rightarrow>
          (case ses_read event (sb_mails db) of
             None \<Rightarrow> Some (record_unmatched lib now sns event type db, [])
           | Some target \<Rightarrow> ses_apply lib ids now sns event status type target db)
      | _ \<Rightarrow> Some (db, []))"

section \<open>Lemmas\<close>

definition joined :: "ses_event \<Rightarrow> mail_row \<times> bool \<Rightarrow> ses_db \<Rightarrow> ses_db" where
  "joined event target db = (if snd target
     then db\<lparr>sb_mails := update_rows (joins event (fst target)) (join_row event) (sb_mails db)\<rparr> else db)"

lemma count_feedback_frame [simp]:
  "sb_mails (count_feedback now event cols email db) = sb_mails db"
  "sb_events (count_feedback now event cols email db) = sb_events db"
  "sb_unmatched (count_feedback now event cols email db) = sb_unmatched db"
  "sb_suppressions (count_feedback now event cols email db) = sb_suppressions db"
  "sb_contacts (count_feedback now event cols email db) = sb_contacts db"
  by (simp_all add: count_feedback_def Let_def)

lemma count_feedback_counters:
  "sb_counters db = sb_counters db0
    \<Longrightarrow> sb_counters (count_feedback now event cols email db) = sb_counters (count_feedback now event cols email db0)"
  by (simp add: count_feedback_def Let_def split: option.splits)

lemma joined_frame [simp]:
  "sb_events (joined event target db) = sb_events db"
  "sb_unmatched (joined event target db) = sb_unmatched db"
  "sb_suppressions (joined event target db) = sb_suppressions db"
  "sb_contacts (joined event target db) = sb_contacts db"
  "sb_counters (joined event target db) = sb_counters db"
  by (simp_all add: joined_def)

lemma STATUS_BY_EVENT_floor: "STATUS_BY_EVENT t = Some status \<Longrightarrow> Sent < status"
  by (auto simp: STATUS_BY_EVENT_def status_order split: if_splits)

text \<open>An event that is applied for the first time.\<close>

definition applied ::
    "text_lib \<Rightarrow> fresh_ids \<Rightarrow> instant \<Rightarrow> string option \<Rightarrow> ses_event \<Rightarrow> email_status \<Rightarrow> event_type
     \<Rightarrow> mail_row \<times> bool \<Rightarrow> ses_db \<Rightarrow> ses_db \<Rightarrow> bool" where
  "applied lib ids now sns event status type target db db' \<longleftrightarrow>
     sb_events db' = sb_events db @ [event_of sns event type (fst target)]
     \<and> sb_mails db' = update_rows (\<lambda>r. er_id r = er_id (fst target) \<and> er_latestStatus r < status)
          (\<lambda>r. r\<lparr>er_latestStatus := status\<rparr>) (sb_mails (joined event target db))
     \<and> sb_unmatched db' = sb_unmatched db
     \<and> sb_suppressions db' = fst (suppress_loop lib (fst target) now (fi_suppression ids) 0
          (snd (to_suppress lib (fst target) event (sb_contacts db))) (sb_suppressions db))
     \<and> sb_counters db' = sb_counters (count_feedback now event (feedback_cols lib event) (fst target) db)"

lemma ses_apply_cases:
  assumes "STATUS_BY_EVENT (se_eventType event) = Some status"
  shows "(\<exists>db' q. ses_apply lib ids now sns event status type target db = Some (db', q)
     \<and> (if snd target \<and> \<not> list_ex (joins event (fst target)) (sb_mails db) then db' = db \<and> q = []
        else if sns_seen sns (map ev_snsMessageId (sb_events db)) then db' = joined event target db \<and> q = []
        else applied lib ids now sns event status type target db db'))"
proof -
  have f: "\<not> compareStatus status EVENT_LADDER_FLOOR < 0"
    using STATUS_BY_EVENT_floor [OF assms] by (simp add: compareStatus_def EVENT_LADDER_FLOOR_def status_order)
  show ?thesis
  proof (cases "(snd target \<and> \<not> list_ex (joins event (fst target)) (sb_mails db))
      \<or> sns_seen sns (map ev_snsMessageId (sb_events db))")
    case True
    then show ?thesis by (auto simp: ses_apply_def joined_def Let_def)
  next
    case False
    have c: "sb_counters (count_feedback now event cols e (joined event target db\<lparr>sb_mails := a, sb_events := b,
        sb_codes := c, sb_deliveries := d\<rparr>)) = sb_counters (count_feedback now event cols e db)" for cols e a b c d
      by (rule count_feedback_counters) simp
    have n: "(snd target \<and> \<not> list_ex (joins event (fst target)) (sb_mails db)) = False"
      "sns_seen sns (map ev_snsMessageId (sb_events db)) = False" using False by blast+
    show ?thesis
      by (simp add: ses_apply_def applied_def applyStatusCas_def f Let_def joined_def [symmetric] split_beta c n
        split del: if_split)
  qed
qed

lemma ses_read_known:
  assumes "e \<in> set mails" "er_sesMessageId e = Some (se_sesMessageId event)"
  shows "\<exists>e'. ses_read event mails = Some (e', False)"
  using assms by (cases "List.find (\<lambda>e. er_sesMessageId e = Some (se_sesMessageId event)) mails")
    (auto simp: ses_read_def find_None_iff)

lemma ses_read_SomeD:
  assumes "ses_read event mails = Some (e, byTag)"
  shows "e \<in> set mails" "\<not> byTag \<Longrightarrow> er_sesMessageId e = Some (se_sesMessageId event)"
    "byTag \<Longrightarrow> se_emailId event = Some (er_id e) \<and> er_sesMessageId e = None \<and> er_sentAt e \<noteq> None"
  using assms by (auto simp: ses_read_def dest: find_Some_set split: option.splits if_splits)

lemma ses_read_joins: "ses_read event mails = Some (e, True) \<Longrightarrow> list_ex (joins event e) mails"
  using ses_read_SomeD [of event mails e True] by (auto simp: list_ex_iff joins_def)

lemma joined_known:
  assumes "ses_read event (sb_mails db) = Some target"
  shows "\<exists>e \<in> set (sb_mails (joined event target db)). er_sesMessageId e = Some (se_sesMessageId event)"
proof (cases target)
  case (Pair e byTag)
  note r = ses_read_SomeD [of event "sb_mails db" e byTag] assms Pair
  have "joins event e e" if byTag using r that by (simp add: joins_def)
  then have "byTag \<Longrightarrow> join_row event e \<in> set (sb_mails (joined event target db))"
    using r by (auto simp: joined_def set_update_rows)
  then show ?thesis using r by (cases byTag) (force simp: joined_def join_row_def)+
qed

lemma applied_known:
  assumes "applied lib ids now sns event status type target db db'"
    and "e \<in> set (sb_mails (joined event target db))" "er_sesMessageId e = Some (se_sesMessageId event)"
  shows "\<exists>e \<in> set (sb_mails db'). er_sesMessageId e = Some (se_sesMessageId event)"
proof -
  have "map er_sesMessageId (sb_mails db') = map er_sesMessageId (sb_mails (joined event target db))"
    using assms(1) by (simp add: applied_def map_update_rows)
  then have "er_sesMessageId e \<in> er_sesMessageId ` set (sb_mails db')"
    using assms(2) by (metis imageI list.set_map)
  then show ?thesis using assms(3) by auto
qed

lemma joined_again: "joined event target (joined event target db) = joined event target db"
proof -
  have "(if joins event e r' then join_row event r' else r') = r'"
    if "r' = (if joins event e r then join_row event r else r)" for e r r'
    using that by (cases r) (auto simp: joins_def join_row_def)
  then show ?thesis by (simp add: joined_def update_rows_def comp_def)
qed

text \<open>What the suppressions of an event are, and that each of them is in the list.\<close>

lemma suppress_loop_rows:
  "a \<in> set (fst (suppress_loop lib email now ids n ss rows)) \<Longrightarrow>
     a \<in> set rows \<or> (\<exists>i. \<exists>s \<in> set ss. a = suppression_of lib email now i s)"
proof (induction ss arbitrary: n rows)
  case (Cons s ss)
  let ?row = "suppression_of lib email now (ids n) s"
  have "a \<in> set (fst (insert_suppression ?row rows))
      \<or> (\<exists>i. \<exists>s \<in> set ss. a = suppression_of lib email now i s)"
    using Cons.IH Cons.prems by (simp add: Let_def split_beta)
  moreover have "set (fst (insert_suppression ?row rows)) \<subseteq> insert ?row (set rows)"
    by (auto simp: insert_suppression_def)
  ultimately show ?case by auto
qed simp

lemma suppress_loop_keeps: "a \<in> set rows \<Longrightarrow> a \<in> set (fst (suppress_loop lib email now ids n ss rows))"
  by (induction ss arbitrary: n rows) (simp_all add: Let_def insert_suppression_def split_beta)

lemma suppress_loop_covers:
  assumes "s \<in> set ss" "inj ids" "\<forall>k \<ge> n. ids k \<notin> sp_id ` set rows"
  shows "\<exists>a \<in> set (fst (suppress_loop lib email now ids n ss rows)).
     sp_teamId a = er_teamId email \<and> sp_emailHash a = hashRecipient lib (fst s)"
  using assms
proof (induction ss arbitrary: n rows)
  case (Cons x ss)
  let ?row = "suppression_of lib email now (ids n) x"
  let ?rows = "fst (insert_suppression ?row rows)"
  have rows: "?rows = rows \<or> ?rows = rows @ [?row]" by (simp add: insert_suppression_def)
  have id: "sp_id ?row = ids n" by (simp add: suppression_of_def)
  have fresh: "\<forall>k \<ge> Suc n. ids k \<notin> sp_id ` set ?rows"
  proof (intro allI impI)
    fix k assume k: "Suc n \<le> k"
    then have "ids k \<noteq> ids n" using Cons.prems(2) by (auto dest: injD)
    moreover have "ids k \<notin> sp_id ` set rows" using Cons.prems(3) k by simp
    ultimately show "ids k \<notin> sp_id ` set ?rows" using rows id by auto
  qed
  have step: "fst (suppress_loop lib email now ids n (x # ss) rows)
      = fst (suppress_loop lib email now ids (Suc n) ss ?rows)"
    by (simp add: Let_def split_beta)
  show ?case
  proof (cases "s = x")
    case True
    have "\<exists>a \<in> set ?rows. sp_teamId a = er_teamId email \<and> sp_emailHash a = hashRecipient lib (fst x)"
    proof (cases "?rows = rows")
      case True
      then have "\<not> (\<forall>a \<in> set rows. sp_id a \<noteq> ids n \<and>
          (sp_teamId a = er_teamId email \<longrightarrow> sp_emailHash a \<noteq> hashRecipient lib (fst x)))"
        by (auto simp: insert_suppression_def suppression_of_def list_ex_iff split: if_splits)
      moreover have "\<forall>a \<in> set rows. sp_id a \<noteq> ids n" using Cons.prems(3) by force
      ultimately show ?thesis using True by auto
    next
      case False
      then have "?row \<in> set ?rows" using rows by auto
      then show ?thesis by (intro bexI [of _ ?row]) (simp_all add: suppression_of_def)
    qed
    then show ?thesis unfolding step True using suppress_loop_keeps by blast
  next
    case False
    then show ?thesis unfolding step using Cons.IH [of "Suc n" ?rows] Cons.prems fresh by simp
  qed
qed simp

lemma to_suppress_own:
  assumes "(r, k) \<in> set (snd (to_suppress lib email event contacts))"
  shows "hashRecipient lib r \<in> hashRecipient lib ` set (mail_recipients email)"
    "k = HardBounce \<and> se_eventType event = ''Bounce'' \<or> k = Complaint \<and> se_eventType event = ''Complaint''"
proof -
  have full: "set (snd (full_loop lib e t rs cs)) \<subseteq> set rs" for e t rs cs
  proof (induction rs arbitrary: cs)
    case (Cons r rs)
    have s: "set (snd (case x of (cs, out) \<Rightarrow> (cs, r # out))) = insert r (set (snd x))" for x :: "mailbox_contact list \<times> string list"
      by (cases x) simp
    show ?case using Cons.IH by (simp add: Let_def s subset_insertI2 split: option.split)
  qed simp
  have fm: "r \<in> set rs" if "fullMailboxes lib email b rs t cs = (cs', out)" "r \<in> set out" for b rs t cs cs' out r
    using full [of email t rs cs] that by (auto simp: fullMailboxes_def split: if_splits)
  show "hashRecipient lib r \<in> hashRecipient lib ` set (mail_recipients email)"
    "k = HardBounce \<and> se_eventType event = ''Bounce'' \<or> k = Complaint \<and> se_eventType event = ''Complaint''"
    using assms by (auto simp: to_suppress_def own_recipients_def dest!: fm
      split: option.splits if_splits prod.splits bool.splits)
qed

lemma process_matched:
  assumes "STATUS_BY_EVENT (se_eventType event) = Some st" "EVENT_TYPE_BY_EVENT (se_eventType event) = Some ty"
    and "ses_read event (sb_mails db) = Some target"
  shows "\<exists>db' q. processSesEvent lib ids now event sns db = Some (db', q)
     \<and> (if sns_seen sns (map ev_snsMessageId (sb_events db)) then db' = joined event target db \<and> q = []
        else applied lib ids now sns event st ty target db db')"
proof -
  have "\<not> (snd target \<and> \<not> list_ex (joins event (fst target)) (sb_mails db))"
    using assms(3) ses_read_joins by (cases target) auto
  moreover obtain db' q where "ses_apply lib ids now sns event st ty target db = Some (db', q)"
    "if snd target \<and> \<not> list_ex (joins event (fst target)) (sb_mails db) then db' = db \<and> q = []
        else if sns_seen sns (map ev_snsMessageId (sb_events db)) then db' = joined event target db \<and> q = []
        else applied lib ids now sns event st ty target db db'"
    using ses_apply_cases [OF assms(1)] by blast
  ultimately show ?thesis using assms by (intro exI [of _ db'] exI [of _ q]) (simp add: processSesEvent_def)
qed

lemma process_unmatched:
  assumes "STATUS_BY_EVENT (se_eventType event) = None \<or> EVENT_TYPE_BY_EVENT (se_eventType event) = None
      \<or> ses_read event (sb_mails db) = None"
  shows "\<exists>db'. processSesEvent lib ids now event sns db = Some (db', []) \<and> sb_suppressions db' = sb_suppressions db
     \<and> (\<forall>ids' now'. sns \<noteq> None \<longrightarrow> processSesEvent lib ids' now' event sns db' = Some (db', []))"
  using assms by (auto simp: processSesEvent_def record_unmatched_def sns_seen_def Let_def split: option.splits)

lemma matched_known:
  assumes "ses_read event (sb_mails db) = Some target"
    and "if sns_seen (Some s) (map ev_snsMessageId (sb_events db)) then db' = joined event target db \<and> q = []
        else applied lib ids now (Some s) event st ty target db db'"
  shows "Some s \<in> set (map ev_snsMessageId (sb_events db'))" "\<exists>e. ses_read event (sb_mails db') = Some (e, False)"
proof -
  show "Some s \<in> set (map ev_snsMessageId (sb_events db'))"
    using assms(2) by (cases "sns_seen (Some s) (map ev_snsMessageId (sb_events db))")
      (simp_all add: sns_seen_def applied_def event_of_def)
  obtain e where "e \<in> set (sb_mails (joined event target db))" "er_sesMessageId e = Some (se_sesMessageId event)"
    using joined_known [OF assms(1)] by blast
  then have "\<exists>e \<in> set (sb_mails db'). er_sesMessageId e = Some (se_sesMessageId event)"
    using assms(2) applied_known by (cases "sns_seen (Some s) (map ev_snsMessageId (sb_events db))") auto
  then show "\<exists>e. ses_read event (sb_mails db') = Some (e, False)" using ses_read_known by blast
qed

definition counter_of :: "(ident \<times> int \<rightharpoonup> (usage_counter \<Rightarrow> int)) \<Rightarrow> ident \<times> int \<Rightarrow> usage_counter \<Rightarrow> int" where
  "counter_of m k c = (case m k of Some f \<Rightarrow> f c | None \<Rightarrow> 0)"

lemma add_entries_ones:
  "distinct cols \<Longrightarrow> add_entries (map (\<lambda>c. (c, 1)) cols) f c = f c + (if c \<in> set cols then 1 else 0)"
  by (induction cols arbitrary: f) (auto simp: add_entries_def)

lemma distinct_feedback_cols: "distinct (feedback_cols lib event)"
  by (simp add: feedback_cols_def)

lemma counter_of_feedback:
  assumes "distinct cols"
  shows "counter_of (sb_counters (count_feedback now event cols email db)) k c
    = counter_of (sb_counters db) k c + (if k = (er_teamId email, event_day event) \<and> c \<in> set cols then 1 else 0)"
  using add_entries_ones [OF assms]
  by (cases "sb_counters db (er_teamId email, event_day event)")
    (auto simp: count_feedback_def counter_of_def upsert_def Let_def)

section \<open>Properties\<close>


text \<open>
  C24: feedback suppresses at home only. Every suppression an event adds belongs to the team of the mail
  SES named and to a recipient that mail was sent to, with the reason of the event; none is removed.
\<close>

theorem suppressions_stay_home:
  assumes "processSesEvent lib ids now event sns db = Some (db', q)"
  shows "set (sb_suppressions db) \<subseteq> set (sb_suppressions db')
    \<and> (\<forall>a \<in> set (sb_suppressions db') - set (sb_suppressions db). \<exists>e \<in> set (sb_mails db).
         (er_sesMessageId e = Some (se_sesMessageId event)
           \<or> se_emailId event = Some (er_id e) \<and> er_sesMessageId e = None \<and> er_sentAt e \<noteq> None)
         \<and> sp_teamId a = er_teamId e \<and> sp_sourceEmailId a = Some (er_id e)
         \<and> sp_emailHash a \<in> hashRecipient lib ` set (mail_recipients e)
         \<and> (sp_reason a = HardBounce \<and> se_eventType event = ''Bounce''
           \<or> sp_reason a = Complaint \<and> se_eventType event = ''Complaint''))"
proof (cases "STATUS_BY_EVENT (se_eventType event) = None \<or> EVENT_TYPE_BY_EVENT (se_eventType event) = None
      \<or> ses_read event (sb_mails db) = None")
  case True
  then show ?thesis using process_unmatched [of event db lib ids now sns] assms by auto
next
  case False
  then obtain st ty e b where e: "STATUS_BY_EVENT (se_eventType event) = Some st" "EVENT_TYPE_BY_EVENT (se_eventType event) = Some ty"
      "ses_read event (sb_mails db) = Some (e, b)" by auto
  let ?rows = "fst (suppress_loop lib e now (fi_suppression ids) 0 (snd (to_suppress lib e event (sb_contacts db))) (sb_suppressions db))"
  have rows: "sb_suppressions db' = sb_suppressions db \<or> sb_suppressions db' = ?rows"
    using process_matched [OF e, of lib ids now sns] assms by (auto simp: applied_def split: if_splits)
  have one: "sp_teamId a = er_teamId e \<and> sp_sourceEmailId a = Some (er_id e)
         \<and> sp_emailHash a \<in> hashRecipient lib ` set (mail_recipients e)
         \<and> (sp_reason a = HardBounce \<and> se_eventType event = ''Bounce''
           \<or> sp_reason a = Complaint \<and> se_eventType event = ''Complaint'')"
    if a: "a \<in> set (sb_suppressions db') - set (sb_suppressions db)" for a
  proof -
    have "a \<in> set ?rows" "a \<notin> set (sb_suppressions db)" using a rows by auto
    then obtain i s where "s \<in> set (snd (to_suppress lib e event (sb_contacts db)))" "a = suppression_of lib e now i s"
      using suppress_loop_rows by blast
    then show ?thesis using to_suppress_own [of "fst s" "snd s" lib e event "sb_contacts db"] by (simp add: suppression_of_def)
  qed
  moreover have "er_sesMessageId e = Some (se_sesMessageId event)
           \<or> se_emailId event = Some (er_id e) \<and> er_sesMessageId e = None \<and> er_sentAt e \<noteq> None"
    using ses_read_SomeD [OF e(3)] by (cases b) auto
  moreover have "set (sb_suppressions db) \<subseteq> set (sb_suppressions db')"
    using rows suppress_loop_keeps by auto
  ultimately show ?thesis using ses_read_SomeD(1) [OF e(3)] by blast
qed

text \<open>
  C25: what a bounce counts. The first time a message about a known mail is processed, the mail's row
  takes the higher of its status and the event's, the counters of its team and day rise by one in the
  event's own columns and in no other, and every other count and row stays as it was.
\<close>

theorem feedback_counts_exact:
  assumes "processSesEvent lib ids now event sns db = Some (db', q)"
    and "STATUS_BY_EVENT (se_eventType event) = Some st" "EVENT_TYPE_BY_EVENT (se_eventType event) = Some ty"
    and "ses_read event (sb_mails db) = Some (e, byTag)" "\<not> sns_seen sns (map ev_snsMessageId (sb_events db))"
  shows "counter_of (sb_counters db') k c = counter_of (sb_counters db) k c
      + (if k = (er_teamId e, event_day event) \<and> c \<in> set (feedback_cols lib event) then 1 else 0)
    \<and> map er_id (sb_mails db') = map er_id (sb_mails db)
    \<and> map er_latestStatus (sb_mails db') =
        map (\<lambda>r. if er_id r = er_id e then max (er_latestStatus r) st else er_latestStatus r) (sb_mails db)
    \<and> sb_events db' = sb_events db @ [event_of sns event ty e]"
proof -
  have a: "applied lib ids now sns event st ty (e, byTag) db db'"
    using process_matched [OF assms(2,3,4), of lib ids now sns] assms(1,5) by auto
  have j: "map er_id (sb_mails (joined event (e, byTag) db)) = map er_id (sb_mails db)"
    "map (\<lambda>r. if er_id r = er_id e then max (er_latestStatus r) st else er_latestStatus r) (sb_mails (joined event (e, byTag) db))
       = map (\<lambda>r. if er_id r = er_id e then max (er_latestStatus r) st else er_latestStatus r) (sb_mails db)"
    by (simp_all add: joined_def map_update_rows join_row_def)
  have "map er_latestStatus (update_rows (\<lambda>r. er_id r = er_id e \<and> er_latestStatus r < st) (\<lambda>r. r\<lparr>er_latestStatus := st\<rparr>) rows)
      = map (\<lambda>r. if er_id r = er_id e then max (er_latestStatus r) st else er_latestStatus r) rows" for rows :: "mail_row list"
    by (auto simp: update_rows_def max_def)
  then show ?thesis
    using a j counter_of_feedback [OF distinct_feedback_cols]
    by (simp add: applied_def map_update_rows)
qed

text \<open>
  C26: a hard bounce stops the next send. Once SES reports a permanent bounce of a recipient a team's mail
  was sent to, no send of the team reaches any spelling of that address, transactional or not; unless the
  team keeps a one-click unsubscribe under the same address.
\<close>

theorem hard_bounce_blocks:
  assumes "processSesEvent lib ids now event sns db = Some (db', q)"
    and "se_eventType event = ''Bounce''" "se_bounce event = Some b" "bo_bounceType b = ''Permanent''" "r \<in> set (bo_recipients b)"
    and "ses_read event (sb_mails db) = Some (e, byTag)" "\<not> sns_seen sns (map ev_snsMessageId (sb_events db))"
    and "hashRecipient lib r \<in> hashRecipient lib ` set (mail_recipients e)"
    and "inj (fi_suppression ids)" "\<forall>k. fi_suppression ids k \<notin> sp_id ` set (sb_suppressions db)"
    and "\<forall>s \<in> set (sb_suppressions db). sp_teamId s = er_teamId e \<and> sp_emailHash s = hashRecipient lib r
      \<longrightarrow> sp_reason s \<noteq> OneClickUnsubscribe"
    and "x \<in> set rs" "hashRecipient lib x = hashRecipient lib r"
  shows "x \<in> set (findSuppressed lib (sb_suppressions db') (er_teamId e) rs transactional)"
proof -
  let ?items = "snd (to_suppress lib e event (sb_contacts db))"
  have "STATUS_BY_EVENT (se_eventType event) = Some Bounced" "EVENT_TYPE_BY_EVENT (se_eventType event) = Some EvBounced"
    using assms(2) by (simp_all add: STATUS_BY_EVENT_def EVENT_TYPE_BY_EVENT_def)
  then have rows: "sb_suppressions db' = fst (suppress_loop lib e now (fi_suppression ids) 0 ?items (sb_suppressions db))"
    using process_matched [OF _ _ assms(6), of Bounced EvBounced lib ids now sns] assms(1,7) by (auto simp: applied_def)
  have "(r, HardBounce) \<in> set ?items"
    using assms(2-5,8) by (auto simp: to_suppress_def own_recipients_def)
  then obtain a where a: "a \<in> set (sb_suppressions db')" "sp_teamId a = er_teamId e" "sp_emailHash a = hashRecipient lib r"
    using suppress_loop_covers [OF _ assms(9), of "(r, HardBounce)" ?items 0 "sb_suppressions db" lib e now] assms(10) rows
    by auto
  have "sp_reason a \<noteq> OneClickUnsubscribe"
  proof (cases "a \<in> set (sb_suppressions db)")
    case False
    then obtain i s where "s \<in> set ?items" "a = suppression_of lib e now i s"
      using suppress_loop_rows a(1) rows by metis
    then show ?thesis using to_suppress_own(2) [of "fst s" "snd s" lib e event "sb_contacts db"] by (auto simp: suppression_of_def)
  qed (use a assms(11) in auto)
  moreover have "sp_emailHash a \<in> set (suppressionHashesFor lib x)" using a(3) assms(13) hashRecipient_in [of lib x] by simp
  ultimately show ?thesis unfolding findSuppressed_set using a(1,2) assms(12) by blast
qed

section \<open>A bounce\<close>

definition demo_ses :: "suppression_row list \<Rightarrow> ses_db" where
  "demo_ses sups = \<lparr>sb_mails = [demo_mail Sent (Some ''m1'') None], sb_events = [], sb_unmatched = [],
     sb_usage = empty_usage, sb_counters = Map.empty, sb_suppressions = sups, sb_contacts = [], sb_teams = Map.empty,
     sb_endpoints = [demo_hook ''h1'' None], sb_deliveries = [], sb_codes = []\<rparr>"

definition demo_bounce :: ses_event where
  "demo_bounce = \<lparr>se_eventType = ''Bounce'', se_sesMessageId = ''m1'', se_emailId = None, se_poolOwnerId = None,
     se_occurredAt = 0, se_sentAt = None, se_bounce = Some \<lparr>bo_bounceType = ''Permanent'', bo_bounceSubType = ''General'',
       bo_recipients = [''bob@x.co''], bo_diagnosticCode = None\<rparr>, se_complaint = None, se_data = []\<rparr>"

definition demo_ids :: fresh_ids where
  "demo_ids = \<lparr>fi_suppression = \<lambda>n. CHR ''u'' # replicate n CHR ''0'', fi_email_delivery = \<lambda>n. ([], []),
     fi_team_delivery = \<lambda>n. ([], [])\<rparr>"

lemma demo_read: "ses_read demo_bounce (sb_mails (demo_ses sups)) = Some (demo_mail Sent (Some ''m1'') None, False)"
  by (simp add: ses_read_def demo_bounce_def demo_ses_def demo_mail_def)

lemma demo_types:
  "STATUS_BY_EVENT (se_eventType demo_bounce) = Some Bounced" "EVENT_TYPE_BY_EVENT (se_eventType demo_bounce) = Some EvBounced"
  by (simp_all add: STATUS_BY_EVENT_def EVENT_TYPE_BY_EVENT_def demo_bounce_def)

lemma demo_hash: "hashRecipient demo_text ''bob@x.co'' = ''bob@x.co''"
  by code_simp

lemma demo_processed:
  obtains db' q where "processSesEvent demo_text demo_ids 0 demo_bounce sns (demo_ses sups) = Some (db', q)"
    "sb_suppressions db' = fst (insert_suppression
       (suppression_of demo_text (demo_mail Sent (Some ''m1'') None) 0 (fi_suppression demo_ids 0) (''bob@x.co'', HardBounce)) sups)"
proof -
  have seen: "\<not> sns_seen sns (map ev_snsMessageId (sb_events (demo_ses sups)))"
    by (simp add: sns_seen_def demo_ses_def)
  have items: "snd (to_suppress demo_text (demo_mail Sent (Some ''m1'') None) demo_bounce cs) = [(''bob@x.co'', HardBounce)]" for cs
    by (simp add: to_suppress_def demo_bounce_def own_recipients_def mail_recipients_def demo_mail_def)
  show ?thesis
    using process_matched [OF demo_types demo_read, of demo_text demo_ids 0 sns sups] seen that
    by (auto simp: applied_def items split_beta Let_def) (simp add: demo_ses_def)
qed


theorem suppressions_stay_home_witness:
  "\<exists>db' q a. processSesEvent demo_text demo_ids 0 demo_bounce (Some ''n1'') (demo_ses []) = Some (db', q)
     \<and> sb_suppressions db' = [a] \<and> sp_sourceEmailId a = Some ''e1'' \<and> sp_teamId a = ''t1'' \<and> sp_reason a = HardBounce"
proof -
  obtain db' q where p: "processSesEvent demo_text demo_ids 0 demo_bounce (Some ''n1'') (demo_ses []) = Some (db', q)"
    "sb_suppressions db' = fst (insert_suppression
       (suppression_of demo_text (demo_mail Sent (Some ''m1'') None) 0 (fi_suppression demo_ids 0) (''bob@x.co'', HardBounce)) [])"
    by (rule demo_processed)
  then obtain a where a: "sb_suppressions db' = [a]" by (simp add: insert_suppression_def)
  have "\<exists>e \<in> set (sb_mails (demo_ses [])). sp_teamId a = er_teamId e \<and> sp_sourceEmailId a = Some (er_id e)
     \<and> (sp_reason a = HardBounce \<and> se_eventType demo_bounce = ''Bounce'' \<or> sp_reason a = Complaint \<and> se_eventType demo_bounce = ''Complaint'')"
    using suppressions_stay_home [OF p(1)] a by (force simp: demo_ses_def)
  then show ?thesis using p(1) a by (auto simp: demo_ses_def demo_mail_def demo_bounce_def)
qed

theorem feedback_counts_exact_witness:
  "\<exists>db' q. processSesEvent demo_text demo_ids 0 demo_bounce (Some ''n1'') (demo_ses []) = Some (db', q)
     \<and> counter_of (sb_counters db') (''t1'', 0) UHardBounced = 1 \<and> map er_latestStatus (sb_mails db') = [Bounced]"
proof -
  obtain db' q where p: "processSesEvent demo_text demo_ids 0 demo_bounce (Some ''n1'') (demo_ses []) = Some (db', q)"
    by (rule demo_processed)
  have c: "UHardBounced \<in> set (feedback_cols demo_text demo_bounce)" "event_day demo_bounce = 0" by code_simp+
  have n: "\<not> sns_seen (Some ''n1'') (map ev_snsMessageId (sb_events (demo_ses [])))"
    by (simp add: sns_seen_def demo_ses_def)
  show ?thesis
    using p feedback_counts_exact [OF p demo_types demo_read n, of "(''t1'', 0)" UHardBounced] c
    by (simp add: demo_ses_def demo_mail_def counter_of_def max_def status_order)
qed

theorem hard_bounce_blocks_witness:
  "\<exists>db' q. processSesEvent demo_text demo_ids 0 demo_bounce (Some ''n1'') (demo_ses []) = Some (db', q)
     \<and> ''bob@x.co'' \<in> set (findSuppressed demo_text (sb_suppressions db') ''t1'' [''ann@x.co'', ''bob@x.co''] True)"
proof -
  obtain db' q where p: "processSesEvent demo_text demo_ids 0 demo_bounce (Some ''n1'') (demo_ses []) = Some (db', q)"
    by (rule demo_processed)
  have n: "\<not> sns_seen (Some ''n1'') (map ev_snsMessageId (sb_events (demo_ses [])))"
    by (simp add: sns_seen_def demo_ses_def)
  have i: "inj (fi_suppression demo_ids)" by (simp add: demo_ids_def inj_def)
  show ?thesis
    using p hard_bounce_blocks [OF p _ _ _ _ demo_read n _ i, of _ "''bob@x.co''" "''bob@x.co''" "[''ann@x.co'', ''bob@x.co'']" True]
    by (simp add: demo_ses_def demo_mail_def demo_bounce_def mail_recipients_def)
qed


end
