(* ===== verification/InboxPolicy.thy ===== *)
theory InboxPolicy
  imports Recipients Plans
begin

text \<open>
  The rules of inboxes that are pure functions: \<open>shared-mode.ts\<close>, \<open>send-policy.ts\<close>, \<open>safety.ts\<close> and
  \<open>compose.ts\<close> under \<open>packages/core/src/inboxes\<close>, the actors of \<open>activity.ts\<close>, and \<open>trust.ts\<close> under
  \<open>receiving\<close>. The public suffix list behind \<open>registrableDomain\<close> is the argument \<open>org\<close>. A header object is
  the list of its entries. Messages are kept where they name a cause and nothing else distinguishes it.
\<close>

section \<open>Actors\<close>

datatype inbox_actor =
  UserActor ident | ApiKeyActor ident "ident option" | OAuthActor ident ident | SystemActor

text \<open>An OAuth actor is its user, then its client.\<close>

definition encodeInboxActor :: "inbox_actor \<Rightarrow> string" where
  "encodeInboxActor a =
     (case a of
        UserActor u \<Rightarrow> ''user:'' @ u
      | ApiKeyActor k _ \<Rightarrow> ''api_key:'' @ k
      | OAuthActor u c \<Rightarrow> ''oauth:'' @ c @ CHR '':'' # u
      | SystemActor \<Rightarrow> ''system'')"

datatype parsed_actor = ParsedUser ident | ParsedApiKey ident | ParsedOAuth ident ident | ParsedSystem

text \<open>What stands before and after the last colon.\<close>

definition last_colon :: "string \<Rightarrow> (string \<times> string) option" where
  "last_colon s =
     (case dropWhile (\<lambda>c. c \<noteq> CHR '':'') (rev s) of
        [] \<Rightarrow> None
      | _ # before \<Rightarrow> Some (rev before, rev (takeWhile (\<lambda>c. c \<noteq> CHR '':'') (rev s))))"

definition parseInboxActor :: "string \<Rightarrow> parsed_actor" where
  "parseInboxActor encoded =
     (if starts_with ''user:'' encoded then ParsedUser (drop 5 encoded)
      else if starts_with ''api_key:'' encoded then ParsedApiKey (drop 8 encoded)
      else if starts_with ''oauth:'' encoded
      then (case last_colon (drop 6 encoded) of
              Some (c, u) \<Rightarrow> if c \<noteq> [] then ParsedOAuth u c else ParsedSystem
            | None \<Rightarrow> ParsedSystem)
      else ParsedSystem)"

record api_key_auth =
  aa_apiKeyId :: "ident option"
  aa_inboxId :: "ident option"
  aa_userId :: "ident option"
  aa_oauthClientId :: "ident option"

definition truthy :: "ident option \<Rightarrow> bool" where
  "truthy x \<longleftrightarrow> (case x of Some s \<Rightarrow> s \<noteq> [] | None \<Rightarrow> False)"

definition inboxActorFromAuth :: "api_key_auth \<Rightarrow> inbox_actor" where
  "inboxActorFromAuth auth =
     (case aa_apiKeyId auth of
        Some k \<Rightarrow> if k \<noteq> [] \<and> \<not> truthy (aa_oauthClientId auth) then ApiKeyActor k (aa_inboxId auth)
          else OAuthActor (case aa_userId auth of Some u \<Rightarrow> u | None \<Rightarrow> [])
                 (case aa_oauthClientId auth of Some c \<Rightarrow> c | None \<Rightarrow> [])
      | None \<Rightarrow> OAuthActor (case aa_userId auth of Some u \<Rightarrow> u | None \<Rightarrow> [])
                 (case aa_oauthClientId auth of Some c \<Rightarrow> c | None \<Rightarrow> []))"

definition webhookSource :: "inbox_actor \<Rightarrow> string" where
  "webhookSource a = (case a of UserActor _ \<Rightarrow> ''dashboard'' | SystemActor \<Rightarrow> ''system'' | _ \<Rightarrow> ''api'')"

definition isAgentActor :: "inbox_actor \<Rightarrow> bool" where
  "isAgentActor a \<longleftrightarrow> (case a of OAuthActor _ _ \<Rightarrow> True | ApiKeyActor _ i \<Rightarrow> i \<noteq> None | _ \<Rightarrow> False)"

definition canApprove :: "inbox_actor \<Rightarrow> bool" where
  "canApprove a \<longleftrightarrow> (case a of UserActor _ \<Rightarrow> True | ApiKeyActor _ i \<Rightarrow> i = None | _ \<Rightarrow> False)"

section \<open>The shared domain\<close>

datatype shared_mode = OpenMode | ReplyOnlyMode | ReceiveOnlyMode
datatype shared_cause = PlanCause | InstanceCause

record shared_sending =
  ss_mode :: shared_mode
  ss_cause :: "shared_cause option"

record inbox_settings =
  is_sharedInboxSend :: bool
  is_sharedInboxOpen :: bool
  is_autoHold :: bool
  is_sharedInboxTeamDailyCap :: int

definition sharedSendMode :: "inbox_settings \<Rightarrow> plan \<Rightarrow> bool \<Rightarrow> bool \<Rightarrow> shared_sending" where
  "sharedSendMode settings plan isCloud judgeConfigured =
     (if \<not> is_sharedInboxSend settings then \<lparr>ss_mode = ReceiveOnlyMode, ss_cause = Some InstanceCause\<rparr>
      else if \<not> is_sharedInboxOpen settings \<or> \<not> judgeConfigured \<or> \<not> is_autoHold settings
      then \<lparr>ss_mode = ReplyOnlyMode, ss_cause = Some InstanceCause\<rparr>
      else if \<not> paidPlan plan isCloud then \<lparr>ss_mode = ReplyOnlyMode, ss_cause = Some PlanCause\<rparr>
      else \<lparr>ss_mode = OpenMode, ss_cause = None\<rparr>)"

datatype shared_refusal = SharedPaused | SharedPlan | SharedDomain | SharedTeamCap | SharedRecipients

definition SHARED_RECIPIENTS_MAX :: nat where "SHARED_RECIPIENTS_MAX = 10"

definition INBOX_KEY_FROM_MESSAGE :: string where
  "INBOX_KEY_FROM_MESSAGE = ''This API key can only send from its inbox address''"

definition SHARED_REPLY_ONLY_MESSAGE :: string where
  "SHARED_REPLY_ONLY_MESSAGE = ''Addresses on the shared domain only reply inside their threads''"

definition SHARED_REFUSALS :: "shared_refusal \<Rightarrow> int \<times> string \<times> string" where
  "SHARED_REFUSALS r =
     (case r of
        SharedPaused \<Rightarrow> (403, ''inbox_send_policy'',
          ''Sending from addresses on the shared domain is paused; mail to them still arrives'')
      | SharedPlan \<Rightarrow> (403, ''inbox_send_policy'',
          ''On the Free plan, addresses on the shared domain only reply inside their threads'')
      | SharedDomain \<Rightarrow> (403, ''inbox_send_policy'', SHARED_REPLY_ONLY_MESSAGE)
      | SharedTeamCap \<Rightarrow> (429, ''inbox_send_cap_reached'',
          ''Your team reached today's limit for mail from the shared domain'')
      | SharedRecipients \<Rightarrow> (422, ''validation_error'',
          ''At most 10 recipients per email from the shared domain''))"

definition sharedModeReason :: "shared_sending \<Rightarrow> shared_refusal" where
  "sharedModeReason s =
     (if ss_mode s = ReceiveOnlyMode then SharedPaused
      else if ss_cause s = Some PlanCause then SharedPlan else SharedDomain)"

definition ends_with :: "string \<Rightarrow> string \<Rightarrow> bool" where
  "ends_with suffix s \<longleftrightarrow> starts_with (rev suffix) (rev s)"

definition isSharedInboxSender :: "string \<Rightarrow> string option \<Rightarrow> bool" where
  "isSharedInboxSender from' sharedDomain =
     (case sharedDomain of
        None \<Rightarrow> False
      | Some sd \<Rightarrow> sd \<noteq> [] \<and>
          (case parseSingleSender from' of
             None \<Rightarrow> False
           | Some (_, domain) \<Rightarrow> domain = sd \<or> ends_with (CHR ''.'' # sd) domain))"

section \<open>The send decision\<close>

datatype inbox_kind = Agent | Human
datatype accept_policy = FromAnyone | FromVerified | FromAllowlist
datatype send_policy = ReplyOnly | AllowlistOnly | OpenSend

record inbox_safety =
  sf_accept_from :: accept_policy
  sf_allowlist :: "string list"
  sf_owner_addresses :: "string list"
  sf_screening :: bool
  sf_extract_codes :: bool
  sf_send_policy :: send_policy
  sf_require_approval :: bool
  sf_private_codes :: bool
  sf_send_cap :: "int option"
  sf_forward_to :: "string list"

datatype recipient_class = ROwner | RAllowlisted | RThread | RKnown | RNew

record send_recipient =
  rc_address :: string
  rc_cls :: recipient_class
  rc_viaUntrustedReplyTo :: bool

record agent_send_input =
  ai_inboxId :: ident
  ai_kind :: inbox_kind
  ai_shared :: bool
  ai_safety :: inbox_safety
  ai_firstSentAt :: "instant option"
  ai_teamTierNew :: bool
  ai_sharedMode :: shared_sending
  ai_sharedNamesOk :: bool
  ai_sharedTeamCap :: jsnum
  ai_actor :: inbox_actor
  ai_approved :: bool
  ai_requiresApproval :: bool
  ai_isReply :: bool
  ai_recipients :: "send_recipient list"
  ai_replyTarget :: "string option option"
  ai_burstExceeded :: bool
  ai_privateHit :: bool
  ai_recipientsToday :: int
  ai_newRecipientsToday :: int
  ai_sharedRecipientsToday :: int
  ai_now :: instant

text \<open>A refusal is its status, name, message, retry-after and shared-domain rule.\<close>

datatype send_decision =
  DSend bool "string list" bool
| DDraft "string list"
| DRefuse int string string "int option" "shared_refusal option"

definition secondsToNextUtcDay :: "instant \<Rightarrow> int" where
  "secondsToNextUtcDay now = secondsUntil (nextUtcDayStart now) now"

definition sharedRefusal :: "shared_refusal \<Rightarrow> instant \<Rightarrow> send_decision" where
  "sharedRefusal reason now =
     (case SHARED_REFUSALS reason of (status, name, message) \<Rightarrow>
        DRefuse status name message (if reason = SharedTeamCap then Some (secondsToNextUtcDay now) else None)
          (Some reason))"

definition rampLimit :: "instant option \<Rightarrow> instant \<Rightarrow> int" where
  "rampLimit firstSentAt now =
     10 * 2 ^ nat (case firstSentAt of Some f \<Rightarrow> max 0 ((now - f) div DAY_MS) | None \<Rightarrow> 0)"

definition trusted :: "send_recipient \<Rightarrow> bool" where
  "trusted r \<longleftrightarrow> rc_cls r \<in> {ROwner, RAllowlisted, RThread}"

definition ownerOrAllowlisted :: "send_recipient \<Rightarrow> bool" where
  "ownerOrAllowlisted r \<longleftrightarrow> rc_cls r \<in> {ROwner, RAllowlisted}"

definition fresh_recipients :: "agent_send_input \<Rightarrow> send_recipient list" where
  "fresh_recipients inp = filter (\<lambda>r. rc_cls r = RNew) (ai_recipients inp)"

text \<open>The rules of the shared domain, which bind approved sends too.\<close>

definition shared_rule :: "agent_send_input \<Rightarrow> send_decision option" where
  "shared_rule inp =
     (let mode = ai_sharedMode inp;
          replyOnly = (ss_mode mode \<noteq> OpenMode \<or> \<not> ai_sharedNamesOk inp)
      in if \<not> ai_shared inp then None
         else if ss_mode mode = ReceiveOnlyMode
             \<or> (replyOnly \<and> (\<not> ai_isReply inp \<or> \<not> list_all trusted (ai_recipients inp)))
         then Some (sharedRefusal (sharedModeReason mode) (ai_now inp))
         else if ai_sharedTeamCap inp < Fin (ai_sharedRecipientsToday inp + int (length (ai_recipients inp)))
         then Some (sharedRefusal SharedTeamCap (ai_now inp))
         else None)"

definition effective_policy :: "agent_send_input \<Rightarrow> send_policy" where
  "effective_policy inp =
     (if sf_send_policy (ai_safety inp) = OpenSend \<and> ai_teamTierNew inp then ReplyOnly
      else sf_send_policy (ai_safety inp))"

definition policy_allows :: "agent_send_input \<Rightarrow> bool" where
  "policy_allows inp \<longleftrightarrow>
     effective_policy inp = OpenSend
     \<or> (ai_isReply inp \<and> list_all trusted (ai_recipients inp))
     \<or> (effective_policy inp = AllowlistOnly \<and> list_all ownerOrAllowlisted (ai_recipients inp))"

text \<open>Why an unattended send of an agent waits for a person.\<close>

definition hold_reasons :: "agent_send_input \<Rightarrow> string list" where
  "hold_reasons inp =
     (let safety = ai_safety inp; fresh = fresh_recipients inp in
      (case ai_replyTarget inp of Some (Some a) \<Rightarrow> if a \<noteq> [] then [''loop_guard:'' @ a] else [] | _ \<Rightarrow> [])
      @ (if ai_burstExceeded inp then [''loop_burst''] else [])
      @ (if list_ex rc_viaUntrustedReplyTo (ai_recipients inp) then [''reply_to_redirect''] else [])
      @ (if policy_allows inp then [] else [''send_policy''])
      @ (if sf_private_codes safety \<and> ai_privateHit inp \<and> \<not> list_all ownerOrAllowlisted (ai_recipients inp)
         then [''private_code''] else [])
      @ (if fresh \<noteq> [] \<and> min (jsnum_of (sf_send_cap safety)) (Fin (rampLimit (ai_firstSentAt inp) (ai_now inp)))
             < Fin (ai_newRecipientsToday inp + int (length fresh))
         then [''ramp''] else [])
      @ (if sf_require_approval safety then [''require_approval''] else [])
      @ (if ai_requiresApproval inp then [''approval_required''] else []))"

definition decideAgentSend :: "agent_send_input \<Rightarrow> send_decision" where
  "decideAgentSend inp =
     (if (case ai_actor inp of ApiKeyActor _ (Some i) \<Rightarrow> i \<noteq> ai_inboxId inp | _ \<Rightarrow> False)
      then DRefuse 403 ''restricted_api_key'' INBOX_KEY_FROM_MESSAGE None None
      else case shared_rule inp of
        Some refusal \<Rightarrow> refusal
      | None \<Rightarrow>
          if \<not> ai_approved inp \<and>
             (case sf_send_cap (ai_safety inp) of
                Some cap \<Rightarrow> cap < ai_recipientsToday inp + int (length (ai_recipients inp)) | None \<Rightarrow> False)
          then DRefuse 429 ''inbox_send_cap_reached'' ''This inbox reached its daily send limit''
                 (Some (secondsToNextUtcDay (ai_now inp))) None
          else
            let reasons = (if \<not> ai_approved inp \<and> ai_kind inp = Agent then hold_reasons inp else []) in
            if reasons \<noteq> [] then DDraft reasons
            else DSend (fresh_recipients inp \<noteq> []) (map rc_address (fresh_recipients inp)) (\<not> ai_approved inp))"

section \<open>Safety rules\<close>

definition SHARED_SEND_CAP_MAX :: int where "SHARED_SEND_CAP_MAX = 50"
definition SEND_CAP_MAX :: int where "SEND_CAP_MAX = 100000"

definition defaultSafety :: "inbox_kind \<Rightarrow> bool \<Rightarrow> inbox_safety" where
  "defaultSafety kind shared =
     \<lparr>sf_accept_from = (if kind = Agent then FromVerified else FromAnyone), sf_allowlist = [], sf_owner_addresses = [],
      sf_screening = (kind = Agent), sf_extract_codes = True,
      sf_send_policy = (if kind = Agent \<or> shared then ReplyOnly else OpenSend), sf_require_approval = False,
      sf_private_codes = (kind = Agent),
      sf_send_cap = (if shared then Some SHARED_SEND_CAP_MAX else if kind = Agent then Some 200 else None),
      sf_forward_to = []\<rparr>"

record safety_ctx =
  sc_kind :: inbox_kind
  sc_shared :: bool
  sc_teamTierNew :: bool
  sc_memberEmails :: "string list"
  sc_sharedSending :: "shared_sending option"

definition safetyProblem :: "text_lib \<Rightarrow> inbox_safety \<Rightarrow> safety_ctx \<Rightarrow> string option" where
  "safetyProblem lib s ctx =
     (let shared = sc_shared ctx; open = (sf_send_policy s = OpenSend) in
      if shared \<and> sf_send_policy s = AllowlistOnly
      then Some ''send_policy \"allowlist\" is not available on the shared domain: there the allowlist counts for incoming mail only''
      else if shared \<and> open \<and> (case sc_sharedSending ctx of Some x \<Rightarrow> ss_mode x \<noteq> OpenMode | None \<Rightarrow> True)
      then Some (snd (snd (SHARED_REFUSALS
             (case sc_sharedSending ctx of Some x \<Rightarrow> sharedModeReason x | None \<Rightarrow> SharedDomain))))
      else if shared \<and> (case sf_send_cap s of None \<Rightarrow> True | Some c \<Rightarrow> c < 1 \<or> SHARED_SEND_CAP_MAX < c)
      then Some ''send_cap must be between 1 and 50 on the shared domain''
      else if (case sf_send_cap s of None \<Rightarrow> False | Some c \<Rightarrow> c < 1 \<or> SEND_CAP_MAX < c)
      then Some ''send_cap must be between 1 and 100000, or null''
      else if open \<and> sc_teamTierNew ctx
      then Some (if shared then ''send_policy \"open\" is not available to a new team yet''
             else ''send_policy \"open\" is not available to a new team yet; use \"allowlist\" for now'')
      else if sf_screening s \<and> sc_kind ctx \<noteq> Agent then Some ''screening is available on agent inboxes only''
      else
        let owners = map (tl_lower lib) (sc_memberEmails ctx) @ (if shared then [] else sf_owner_addresses s) in
        case List.find (\<lambda>target. tl_lower lib target \<notin> set owners) (sf_forward_to s) of
          Some stranger \<Rightarrow> Some (if shared
             then ''forward_to accepts team members' login addresses only on the shared domain; '' @ stranger @ '' is not one''
             else ''forward_to accepts team members' login addresses and owner_addresses only; '' @ stranger @ '' is neither'')
        | None \<Rightarrow> None)"

section \<open>Trust of a sender\<close>

datatype sender_trust = TOwner | TAllowlisted | TKnownThread | TExternal | TUnauthenticated | TFailed

record auth_detail =
  ad_spfDomain :: "string option"
  ad_dkimAligned :: "string list"
  ad_dmarcResult :: string
  ad_dmarcPolicy :: "string option"
  ad_dmarcDomain :: "string option"

record sender_auth =
  sa_spf :: string
  sa_dkim :: string
  sa_dmarc :: string
  sa_authDetail :: "auth_detail option"
  sa_mailFrom :: string

text \<open>What follows the last @, or the whole of a string without one.\<close>

definition domainOf :: "text_lib \<Rightarrow> string \<Rightarrow> string" where
  "domainOf lib address = tl_lower lib (rev (takeWhile (\<lambda>c. c \<noteq> CHR ''@'') (rev address)))"

text \<open>The first component is aligned, the second failed.\<close>

definition authOutcome :: "text_lib \<Rightarrow> (string \<Rightarrow> string) \<Rightarrow> sender_auth \<Rightarrow> string \<Rightarrow> bool \<times> bool" where
  "authOutcome lib org p from' =
     (let fromOrg = org (domainOf lib from') in
      case sa_authDetail p of
        Some detail \<Rightarrow>
          let dmarc = ad_dmarcResult detail;
              spfAligned = (sa_spf p = ''pass'' \<and> (case ad_spfDomain detail of Some d \<Rightarrow> org d = fromOrg | None \<Rightarrow> False))
          in (dmarc = ''pass'' \<or> (dmarc = ''none'' \<and> (ad_dkimAligned detail \<noteq> [] \<or> spfAligned)),
              (dmarc = ''fail'' \<and> (ad_dmarcPolicy detail = Some ''quarantine'' \<or> ad_dmarcPolicy detail = Some ''reject''))
              \<or> (dmarc = ''none'' \<and> sa_spf p = ''fail'' \<and> ad_dkimAligned detail = []))
      | None \<Rightarrow>
          let spfAligned = (sa_spf p = ''pass'' \<and> sa_mailFrom p \<noteq> [] \<and> org (domainOf lib (sa_mailFrom p)) = fromOrg);
              aligned = (sa_dkim p = ''pass'' \<or> sa_dmarc p = ''pass'' \<or> spfAligned)
          in (aligned, \<not> aligned \<and> (sa_dmarc p = ''fail'' \<or> (sa_spf p = ''fail'' \<and> sa_dkim p \<noteq> ''pass''))))"

definition allowlisted :: "text_lib \<Rightarrow> string \<Rightarrow> string list \<Rightarrow> bool" where
  "allowlisted lib address allowlist =
     (let a = tl_lower lib address; d = domainOf lib a in
      list_ex (\<lambda>entry.
        let e = tl_lower lib entry in
        if starts_with ''*@'' e then d = drop 2 e \<or> ends_with (CHR ''.'' # drop 2 e) d else e = a) allowlist)"

record trust_input = sender_auth +
  ti_from :: string
  ti_fromFields :: int
  ti_fromMailboxes :: int
  ti_owners :: "string list"
  ti_allowlist :: "string list"
  ti_thread :: "(bool \<times> string list) option"

definition senderTrust :: "text_lib \<Rightarrow> (string \<Rightarrow> string) \<Rightarrow> trust_input \<Rightarrow> sender_trust" where
  "senderTrust lib org p =
     (case authOutcome lib org (sender_auth.truncate p) (ti_from p) of (aligned, failed) \<Rightarrow>
        if failed then TFailed
        else if ti_from p = [] then TUnauthenticated
        else
          let from' = tl_lower lib (ti_from p);
              single = (ti_fromFields p = 1 \<and> ti_fromMailboxes p = 1
                \<and> (case sa_authDetail p of None \<Rightarrow> True | Some d \<Rightarrow> ad_dmarcDomain d = Some (domainOf lib from')))
          in if single \<and> aligned \<and> from' \<in> set (ti_owners p) then TOwner
             else if single \<and> aligned \<and> allowlisted lib from' (ti_allowlist p) then TAllowlisted
             else if single \<and> (case ti_thread p of Some (proven, parts) \<Rightarrow> proven \<and> from' \<in> set parts | None \<Rightarrow> False)
             then TKnownThread
             else if single \<and> aligned then TExternal
             else TUnauthenticated)"

section \<open>Headers and recipients of a reply\<close>

definition MSG_ID_MAX :: nat where "MSG_ID_MAX = 998"
definition REFERENCES_MAX :: nat where "REFERENCES_MAX = 20"

definition msg_id_char :: "char \<Rightarrow> bool" where
  "msg_id_char c \<longleftrightarrow> c \<noteq> CHR ''<'' \<and> c \<noteq> CHR ''>'' \<and> \<not> js_space c"

text \<open>The matches of \<open>/<[^<>\s]+>/g\<close>, left to right.\<close>

function find_ids :: "string \<Rightarrow> string list" where
  "find_ids [] = []"
| "find_ids (c # cs) =
     (let body = takeWhile msg_id_char cs; rest = dropWhile msg_id_char cs in
      if c = CHR ''<'' \<and> body \<noteq> [] \<and> rest \<noteq> [] \<and> hd rest = CHR ''>''
      then (CHR ''<'' # body @ [CHR ''>'']) # find_ids (tl rest)
      else find_ids cs)"
  by pat_completeness auto
termination
proof (relation "measure length")
  fix c :: char and cs body rest :: string
  assume "body = takeWhile msg_id_char cs" "rest = dropWhile msg_id_char cs"
  then have "length rest \<le> length cs" by (simp add: length_dropWhile_le)
  then show "(tl rest, c # cs) \<in> measure length" by simp
qed simp_all

definition msgIds :: "string \<Rightarrow> string list" where
  "msgIds text = js_set (filter (\<lambda>i. length i \<le> MSG_ID_MAX) (find_ids text))"

text \<open>\<open>join(" ")\<close>.\<close>

fun join_spaced :: "string list \<Rightarrow> string" where
  "join_spaced [] = []"
| "join_spaced [s] = s"
| "join_spaced (s # ss) = s @ CHR '' '' # join_spaced ss"

definition addressKey :: "text_lib \<Rightarrow> string \<Rightarrow> string" where
  "addressKey lib mailbox = normalizeAddress lib (extractAddrSpec mailbox)"

definition entries :: "'a list option \<Rightarrow> 'a list" where
  "entries xs = (case xs of Some ys \<Rightarrow> ys | None \<Rightarrow> [])"

definition countDistinctRecipients :: "text_lib \<Rightarrow> string list \<Rightarrow> string list option \<Rightarrow> string list option \<Rightarrow> int" where
  "countDistinctRecipients lib to cc bcc =
     int (length (js_set (map (addressKey lib) (to @ entries cc @ entries bcc))))"

definition setHeader :: "text_lib \<Rightarrow> (string \<times> string) list \<Rightarrow> string \<Rightarrow> string \<Rightarrow> (string \<times> string) list" where
  "setHeader lib headers name v = filter (\<lambda>(k, _). tl_lower lib k \<noteq> tl_lower lib name) headers @ [(name, v)]"

definition headerValue :: "text_lib \<Rightarrow> (string \<times> string) list \<Rightarrow> string \<Rightarrow> string option" where
  "headerValue lib headers name =
     map_option snd (List.find (\<lambda>(k, _). tl_lower lib k = tl_lower lib name) headers)"

definition last_n :: "nat \<Rightarrow> 'a list \<Rightarrow> 'a list" where
  "last_n n xs = drop (length xs - n) xs"

definition replyHeaders :: "string option \<Rightarrow> string list \<Rightarrow> (string \<times> string) list" where
  "replyHeaders messageId references =
     (let mid = (case messageId of None \<Rightarrow> [] | Some m \<Rightarrow> take 1 (msgIds m));
          refs = last_n (REFERENCES_MAX - 1) (msgIds (join_spaced (references @ mid)))
      in map (\<lambda>m. (''In-Reply-To'', m)) mid
         @ (if refs = [] then [] else [(''References'', join_spaced refs)]))"

definition withThreadToken :: "text_lib \<Rightarrow> (string \<times> string) list \<Rightarrow> string \<Rightarrow> (string \<times> string) list" where
  "withThreadToken lib headers token =
     (let rest = last_n (REFERENCES_MAX - 1)
            (filter (\<lambda>i. i \<noteq> token) (case headerValue lib headers ''References'' of Some v \<Rightarrow> msgIds v | None \<Rightarrow> []))
      in setHeader lib headers ''References'' (join_spaced (token # rest)))"

definition replySubject :: "string option \<Rightarrow> string" where
  "replySubject subject =
     (let s = js_trim (case subject of Some x \<Rightarrow> x | None \<Rightarrow> []) in
      if starts_with ''re:'' (map lower_ascii s) then s else js_trim (''Re: '' @ s))"

definition forwardSubject :: "string option \<Rightarrow> string" where
  "forwardSubject subject =
     (let s = js_trim (case subject of Some x \<Rightarrow> x | None \<Rightarrow> []); l = map lower_ascii s in
      if starts_with ''fw:'' l \<or> starts_with ''fwd:'' l then s else js_trim (''Fwd: '' @ s))"

datatype reply_target =
  InboundTarget string "string list" "string list" "string list"
| OutboundTarget "string list" "string list"

text \<open>\<open>keep\<close>, with the addresses seen before and after it.\<close>

fun keep_new :: "text_lib \<Rightarrow> string list \<Rightarrow> string list \<Rightarrow> string list \<times> string list" where
  "keep_new lib seen [] = (seen, [])"
| "keep_new lib seen (m # ms) =
     (let key = addressKey lib m in
      if key \<in> set seen then keep_new lib seen ms
      else case keep_new lib (key # seen) ms of (seen', out) \<Rightarrow> (seen', m # out))"

definition replyRecipients ::
    "text_lib \<Rightarrow> reply_target \<Rightarrow> bool \<Rightarrow> string list \<Rightarrow> string list \<Rightarrow> string list
     \<Rightarrow> string list \<times> string list \<times> string list" where
  "replyRecipients lib target replyAll own cc bcc =
     (let to = (case target of InboundTarget from' replyTo _ _ \<Rightarrow> if replyTo \<noteq> [] then replyTo else [from']
                | OutboundTarget to _ \<Rightarrow> to);
          copied = (if \<not> replyAll then [] else case target of InboundTarget _ _ to cc \<Rightarrow> to @ cc | OutboundTarget _ cc \<Rightarrow> cc);
          others = filter (\<lambda>m. addressKey lib m \<notin> set (map (addressKey lib) own)) copied;
          (seen1, to') = keep_new lib [] to;
          (seen2, cc') = keep_new lib seen1 (others @ cc);
          (seen3, bcc') = keep_new lib seen2 bcc
      in (to', cc', bcc'))"

definition inboxKey :: "text_lib \<Rightarrow> string \<Rightarrow> bool \<Rightarrow> string" where
  "inboxKey lib address untagged =
     (case at_last address of
        None \<Rightarrow> (let local = tl_lower lib (butlast address); cut = takeWhile (\<lambda>c. c \<noteq> CHR ''+'') local
                 in (if untagged \<and> cut \<noteq> local \<and> cut \<noteq> [] then cut else local) @ CHR ''@'' # tl_lower lib address)
      | Some (l, r) \<Rightarrow>
          (let local = tl_lower lib l; cut = takeWhile (\<lambda>c. c \<noteq> CHR ''+'') local
           in (if untagged \<and> cut \<noteq> local \<and> cut \<noteq> [] then cut else local) @ CHR ''@'' # tl_lower lib (tl r)))"

section \<open>Lemmas\<close>

lemma decide_sendD:
  assumes "decideAgentSend inp = DSend firstContact newRecipients counted"
  shows "shared_rule inp = None"
    "\<not> ai_approved inp \<Longrightarrow> sf_send_cap (ai_safety inp) = Some cap \<Longrightarrow> ai_recipientsToday inp + int (length (ai_recipients inp)) \<le> cap"
    "\<not> ai_approved inp \<Longrightarrow> ai_kind inp = Agent \<Longrightarrow> hold_reasons inp = []"
    "newRecipients = map rc_address (fresh_recipients inp)" "counted = (\<not> ai_approved inp)"
    "ai_actor inp = ApiKeyActor k (Some i) \<Longrightarrow> i = ai_inboxId inp"
  using assms
  by (auto simp: decideAgentSend_def sharedRefusal_def shared_rule_def Let_def split: if_splits option.splits inbox_actor.splits prod.splits)

lemma shared_rule_NoneD:
  assumes "shared_rule inp = None" "ai_shared inp"
  shows "ss_mode (ai_sharedMode inp) \<noteq> ReceiveOnlyMode"
    "Fin (ai_sharedRecipientsToday inp + int (length (ai_recipients inp))) \<le> ai_sharedTeamCap inp"
    "ss_mode (ai_sharedMode inp) \<noteq> OpenMode \<or> \<not> ai_sharedNamesOk inp \<Longrightarrow> ai_isReply inp \<and> list_all trusted (ai_recipients inp)"
  using assms by (auto simp: shared_rule_def Let_def not_less split: if_splits)

lemma hold_reasons_NilD:
  assumes "hold_reasons inp = []"
  shows "policy_allows inp" "\<not> ai_burstExceeded inp" "\<not> list_ex rc_viaUntrustedReplyTo (ai_recipients inp)"
    "ai_replyTarget inp = Some (Some a) \<Longrightarrow> a = []"
    "sf_private_codes (ai_safety inp) \<Longrightarrow> ai_privateHit inp \<Longrightarrow> list_all ownerOrAllowlisted (ai_recipients inp)"
    "fresh_recipients inp \<noteq> [] \<Longrightarrow> ai_newRecipientsToday inp + int (length (fresh_recipients inp)) \<le> rampLimit (ai_firstSentAt inp) (ai_now inp)"
    "\<not> sf_require_approval (ai_safety inp)" "\<not> ai_requiresApproval inp"
proof -
  show "fresh_recipients inp \<noteq> [] \<Longrightarrow> ai_newRecipientsToday inp + int (length (fresh_recipients inp)) \<le> rampLimit (ai_firstSentAt inp) (ai_now inp)"
    using assms by (cases "jsnum_of (sf_send_cap (ai_safety inp))")
      (auto simp: hold_reasons_def Let_def min_def not_less split: if_splits option.splits)
qed (use assms in \<open>auto simp: hold_reasons_def Let_def split: if_splits option.splits\<close>)

section \<open>Properties\<close>

text \<open>
  C28: what an agent may send on its own. Without a person's approval mail leaves an agent's inbox only when no
  rule holds it: everyone it reaches is trusted in the thread, or its policy opens it (and an open policy of a
  new team opens nothing); it follows no Reply-To that nobody vouches for, answers no automatic mail, repeats no
  secret to a stranger, and stays within the day's cap and the ramp of new recipients.
\<close>

theorem agent_send_safe:
  assumes "decideAgentSend inp = DSend firstContact newRecipients counted" "\<not> ai_approved inp" "ai_kind inp = Agent"
  shows "(sf_send_policy (ai_safety inp) = OpenSend \<and> \<not> ai_teamTierNew inp
      \<or> ai_isReply inp \<and> list_all trusted (ai_recipients inp)
      \<or> sf_send_policy (ai_safety inp) = AllowlistOnly \<and> list_all ownerOrAllowlisted (ai_recipients inp))
    \<and> \<not> list_ex rc_viaUntrustedReplyTo (ai_recipients inp) \<and> \<not> ai_burstExceeded inp
    \<and> (case ai_replyTarget inp of Some (Some a) \<Rightarrow> a = [] | _ \<Rightarrow> True)
    \<and> \<not> (sf_private_codes (ai_safety inp) \<and> ai_privateHit inp \<and> list_ex (\<lambda>r. \<not> ownerOrAllowlisted r) (ai_recipients inp))
    \<and> (newRecipients = [] \<or> ai_newRecipientsToday inp + int (length newRecipients) \<le> rampLimit (ai_firstSentAt inp) (ai_now inp))
    \<and> (case sf_send_cap (ai_safety inp) of None \<Rightarrow> True
        | Some cap \<Rightarrow> ai_recipientsToday inp + int (length (ai_recipients inp)) \<le> cap)
    \<and> \<not> sf_require_approval (ai_safety inp) \<and> \<not> ai_requiresApproval inp \<and> counted"
proof -
  note d = decide_sendD [OF assms(1)]
  note h = hold_reasons_NilD [OF d(3) [OF assms(2,3)]]
  have "policy_allows inp" by (rule h(1))
  then have "sf_send_policy (ai_safety inp) = OpenSend \<and> \<not> ai_teamTierNew inp
      \<or> ai_isReply inp \<and> list_all trusted (ai_recipients inp)
      \<or> sf_send_policy (ai_safety inp) = AllowlistOnly \<and> list_all ownerOrAllowlisted (ai_recipients inp)"
    by (auto simp: policy_allows_def effective_policy_def split: if_splits)
  moreover have "case ai_replyTarget inp of Some (Some a) \<Rightarrow> a = [] | _ \<Rightarrow> True"
    using h(4) by (auto split: option.splits)
  moreover have "\<not> (sf_private_codes (ai_safety inp) \<and> ai_privateHit inp \<and> list_ex (\<lambda>r. \<not> ownerOrAllowlisted r) (ai_recipients inp))"
    using h(5) by (auto simp: list_ex_iff list_all_iff)
  moreover have "newRecipients = [] \<or> ai_newRecipientsToday inp + int (length newRecipients) \<le> rampLimit (ai_firstSentAt inp) (ai_now inp)"
    using h(6) d(4) by auto
  moreover have "case sf_send_cap (ai_safety inp) of None \<Rightarrow> True
        | Some cap \<Rightarrow> ai_recipientsToday inp + int (length (ai_recipients inp)) \<le> cap"
    using d(2) [OF assms(2)] by (simp split: option.split)
  ultimately show ?thesis using h(2,3,7,8) d(5) assms(2) by blast
qed

definition demo_agent_send :: "send_policy \<Rightarrow> recipient_class \<Rightarrow> agent_send_input" where
  "demo_agent_send policy cls = \<lparr>ai_inboxId = ''i1'', ai_kind = Agent, ai_shared = False,
     ai_safety = (defaultSafety Agent False)\<lparr>sf_send_policy := policy\<rparr>, ai_firstSentAt = None, ai_teamTierNew = False,
     ai_sharedMode = \<lparr>ss_mode = OpenMode, ss_cause = None\<rparr>, ai_sharedNamesOk = True, ai_sharedTeamCap = PInf,
     ai_actor = ApiKeyActor ''k1'' (Some ''i1''), ai_approved = False, ai_requiresApproval = False, ai_isReply = True,
     ai_recipients = [\<lparr>rc_address = ''bob@x.co'', rc_cls = cls, rc_viaUntrustedReplyTo = False\<rparr>],
     ai_replyTarget = Some None, ai_burstExceeded = False, ai_privateHit = False, ai_recipientsToday = 199,
     ai_newRecipientsToday = 9, ai_sharedRecipientsToday = 0, ai_now = 0\<rparr>"

lemma demo_agent_sends: "decideAgentSend (demo_agent_send OpenSend RNew) = DSend True [''bob@x.co''] True"
  by code_simp

theorem agent_send_safe_witness:
  "decideAgentSend (demo_agent_send OpenSend RNew) = DSend True [''bob@x.co''] True
     \<and> 9 + 1 \<le> rampLimit None 0 \<and> 199 + 1 \<le> (200 :: int)
     \<and> decideAgentSend (demo_agent_send ReplyOnly RNew) = DDraft [''send_policy'']"
proof -
  have "decideAgentSend (demo_agent_send ReplyOnly RNew) = DDraft [''send_policy'']" by code_simp
  moreover have "9 + 1 \<le> rampLimit None 0 \<and> 199 + 1 \<le> (200 :: int)"
    using agent_send_safe [OF demo_agent_sends] by (simp add: demo_agent_send_def defaultSafety_def)
  ultimately show ?thesis using demo_agent_sends by simp
qed

end
