(* ===== verification/InboxSend.thy ===== *)
theory InboxSend
  imports InboxPolicy Webhooks QuotaProps
begin

text \<open>
  The part of \<open>packages/core/src/inboxes/send.ts\<close> that a send from an inbox address goes through:
  the decision over what the tables know (\<open>decideInboxSend\<close>), the gate of the generic surfaces
  (\<open>gateGenericSend\<close>), and the three steps inside the accept transaction (\<open>beginInboxAccept\<close>,
  \<open>refundInboxAccept\<close>, \<open>finishInboxAccept\<close>), with \<open>resolveThread\<close> of \<open>inbox-routing.ts\<close>. \<open>inbox_env\<close> holds
  what is computed elsewhere: the text library, the public suffix list, the settings, the monitor's tier, the
  brand guard, the lookup of received secrets, the thread tokens (an HMAC) and the wire form of events.
\<close>

section \<open>Tables\<close>

record inbox_row =
  ib_id :: ident
  ib_teamId :: ident
  ib_kind :: inbox_kind
  ib_emailAddress :: string
  ib_domainId :: "ident option"
  ib_fromName :: "string option"
  ib_safety :: inbox_safety
  ib_expiresAt :: "instant option"
  ib_firstSentAt :: "instant option"
  ib_lastUsedAt :: instant

record thread_row =
  th_id :: ident
  th_teamId :: ident
  th_inboxId :: ident
  th_subject :: string
  th_folder :: string
  th_lastMessageAt :: instant
  th_participants :: "string list"

record correspondent =
  co_inboxId :: ident
  co_address :: string
  co_firstOutAt :: "instant option"
  co_lastOutAt :: "instant option"
  co_burstStart :: "instant option"
  co_burstCount :: int
  co_lastSeenAt :: "instant option"

text \<open>A received message with its membership of one inbox.\<close>

record received_row =
  rv_inboxId :: ident
  rv_teamId :: ident
  rv_threadId :: ident
  rv_trust :: sender_trust
  rv_deliveredAt :: "instant option"
  rv_from :: string
  rv_replyTo :: "string list"
  rv_messageId :: "string option"
  rv_automated :: "string option"
  rv_memberAt :: instant
  rv_receivedAt :: instant

record inbox_activity =
  ia_teamId :: ident
  ia_inboxId :: ident
  ia_actor :: string
  ia_action :: string
  ia_threadId :: "ident option"
  ia_emailId :: "ident option"
  ia_decision :: "(string \<times> string list) option"

text \<open>\<open>ix_usage\<close> is inbox_usage_daily (recipients, new recipients), \<open>ix_shared\<close> a column of usage_counters.\<close>

record inbox_db =
  ix_inboxes :: "inbox_row list"
  ix_threads :: "thread_row list"
  ix_usage :: "ident \<times> int \<rightharpoonup> int \<times> int"
  ix_shared :: "ident \<times> int \<rightharpoonup> int"
  ix_correspondents :: "correspondent list"
  ix_received :: "received_row list"
  ix_activity :: "inbox_activity list"
  ix_logins :: "ident \<Rightarrow> string list"
  ix_mails :: "mail_row list"

record inbox_env =
  ie_text :: text_lib
  ie_org :: "string \<Rightarrow> string"
  ie_isCloud :: bool
  ie_judgeConfigured :: bool
  ie_settings :: inbox_settings
  ie_tierNew :: "ident \<Rightarrow> bool"
  ie_namesOk :: "inbox_row \<Rightarrow> bool"
  ie_secretHit :: "ident \<Rightarrow> string \<times> string option \<times> string option \<Rightarrow> bool"
  ie_hasKeys :: bool
  ie_mint :: "ident \<times> ident \<times> ident \<times> string \<Rightarrow> string"
  ie_verify :: "ident \<times> ident \<Rightarrow> string \<Rightarrow> ident option"
  ie_wire :: "ident \<Rightarrow> thread_row \<Rightarrow> mail_row \<Rightarrow> (string \<times> json) list"

section \<open>Who a recipient is\<close>

definition BURST_WINDOW_MS :: int where "BURST_WINDOW_MS = 60 * 60000"
definition BURST_MAX :: int where "BURST_MAX = 10"
definition INBOX_USE_STAMP_INTERVAL :: int where "INBOX_USE_STAMP_INTERVAL = 3600000"

definition sharedRecipientsExceeded :: "text_lib \<Rightarrow> inbox_row \<Rightarrow> string list \<Rightarrow> bool" where
  "sharedRecipientsExceeded lib inbox recipients \<longleftrightarrow>
     ib_domainId inbox = None \<and> SHARED_RECIPIENTS_MAX < length (js_set (map (addressKey lib) recipients))"

definition TRUSTED_TIERS :: "sender_trust list" where
  "TRUSTED_TIERS = [TOwner, TAllowlisted, TKnownThread]"

definition after_at :: "string \<Rightarrow> string" where
  "after_at a = rev (takeWhile (\<lambda>c. c \<noteq> CHR ''@'') (rev a))"

definition replyToTrusted :: "(string \<Rightarrow> string) \<Rightarrow> string \<Rightarrow> string \<Rightarrow> sender_trust option \<Rightarrow> bool" where
  "replyToTrusted org replyTo from' senderTrust' \<longleftrightarrow>
     (case senderTrust' of Some t \<Rightarrow> t \<in> set TRUSTED_TIERS | None \<Rightarrow> False)
     \<or> org (after_at replyTo) = org (after_at from')"

definition in_thread :: "ident \<Rightarrow> ident \<Rightarrow> bool \<Rightarrow> received_row \<Rightarrow> bool" where
  "in_thread inboxId threadId shared r \<longleftrightarrow> rv_inboxId r = inboxId \<and> rv_threadId r = threadId \<and> rv_deliveredAt r \<noteq> None
     \<and> (shared \<longrightarrow> rv_trust r \<noteq> TUnauthenticated \<and> rv_trust r \<noteq> TFailed)"

definition threadSenders :: "inbox_env \<Rightarrow> inbox_db \<Rightarrow> ident \<Rightarrow> ident \<Rightarrow> bool \<Rightarrow> string list" where
  "threadSenders env db inboxId threadId shared =
     js_set (concat (map (\<lambda>r.
        (if rv_from r \<noteq> [] then [addressKey (ie_text env) (rv_from r)] else [])
        @ map (addressKey (ie_text env))
            (filter (\<lambda>rt. replyToTrusted (ie_org env) rt (rv_from r) (if shared then None else Some (rv_trust r))) (rv_replyTo r)))
        (filter (in_thread inboxId threadId shared) (ix_received db))))"

definition teamMemberEmails :: "inbox_env \<Rightarrow> inbox_db \<Rightarrow> ident \<Rightarrow> string list" where
  "teamMemberEmails env db teamId = map (tl_lower (ie_text env)) (ix_logins db teamId)"

definition inbox_owners :: "inbox_env \<Rightarrow> inbox_db \<Rightarrow> ident \<Rightarrow> inbox_row \<Rightarrow> string list" where
  "inbox_owners env db teamId inbox = teamMemberEmails env db teamId
     @ (if ib_domainId inbox = None then [] else map (addressKey (ie_text env)) (sf_owner_addresses (ib_safety inbox)))"

definition known_rows :: "inbox_db \<Rightarrow> inbox_row \<Rightarrow> string list \<Rightarrow> correspondent list" where
  "known_rows db inbox recipients =
     filter (\<lambda>c. co_inboxId c = ib_id inbox \<and> co_address c \<in> set recipients) (ix_correspondents db)"

definition classifyRecipients ::
    "inbox_env \<Rightarrow> inbox_db \<Rightarrow> ident \<Rightarrow> inbox_row \<Rightarrow> ident option \<Rightarrow> string list \<Rightarrow> string list \<Rightarrow> instant
     \<Rightarrow> send_recipient list \<times> bool" where
  "classifyRecipients env db teamId inbox threadId recipients untrustedReplyTo now =
     (let shared = (ib_domainId inbox = None);
          owners = inbox_owners env db teamId inbox;
          senders = (case threadId of Some t \<Rightarrow> threadSenders env db (ib_id inbox) t shared | None \<Rightarrow> []);
          known = known_rows db inbox recipients
      in (map (\<lambda>a.
            let cls = (if a \<in> set owners then ROwner
                 else if \<not> shared \<and> allowlisted (ie_text env) a (sf_allowlist (ib_safety inbox)) then RAllowlisted
                 else if a \<in> set senders then RThread
                 else if a \<in> set (map co_address known) then RKnown else RNew)
            in \<lparr>rc_address = a, rc_cls = cls,
                rc_viaUntrustedReplyTo = (cls \<noteq> ROwner \<and> cls \<noteq> RAllowlisted \<and> cls \<noteq> RThread \<and> a \<in> set untrustedReplyTo)\<rparr>)
            recipients,
          list_ex (\<lambda>c. (case co_burstStart c of Some b \<Rightarrow> now - b < BURST_WINDOW_MS | None \<Rightarrow> False)
             \<and> BURST_MAX \<le> co_burstCount c) known))"

section \<open>The decision over the tables\<close>

record send_question =
  sq_billing :: team_row
  sq_actor :: inbox_actor
  sq_approved :: bool
  sq_requiresApproval :: bool
  sq_threadId :: "ident option"
  sq_recipients :: "string list"
  sq_untrustedReplyTo :: "string list"
  sq_replyTarget :: "string option option"
  sq_content :: "string \<times> string option \<times> string option"
  sq_forwardedSecret :: bool

definition decide_input :: "inbox_env \<Rightarrow> inbox_db \<Rightarrow> ident \<Rightarrow> inbox_row \<Rightarrow> send_question \<Rightarrow> instant \<Rightarrow> agent_send_input" where
  "decide_input env db teamId inbox p now =
     (let lib = ie_text env;
          recipients = js_set (map (addressKey lib) (sq_recipients p));
          safety = ib_safety inbox; shared = (ib_domainId inbox = None);
          unattended = (\<not> sq_approved p \<and> ib_kind inbox = Agent);
          day = utcDay now;
          (classified, burst) = classifyRecipients env db teamId inbox (sq_threadId p) recipients
             (map (addressKey lib) (sq_untrustedReplyTo p)) now;
          usage = (case ix_usage db (ib_id inbox, day) of Some u \<Rightarrow> u | None \<Rightarrow> (0, 0))
      in \<lparr>ai_inboxId = ib_id inbox, ai_kind = ib_kind inbox, ai_shared = shared, ai_safety = safety,
          ai_firstSentAt = ib_firstSentAt inbox,
          ai_teamTierNew = (unattended \<and> sf_send_policy safety = OpenSend \<and> ie_tierNew env teamId),
          ai_sharedMode = (if shared
             then sharedSendMode (ie_settings env) (effectivePlan (tr_plan (sq_billing p)) (tr_currentPeriodEnd (sq_billing p)) now)
                    (ie_isCloud env) (ie_judgeConfigured env)
             else \<lparr>ss_mode = OpenMode, ss_cause = None\<rparr>),
          ai_sharedNamesOk = (shared \<longrightarrow> ie_namesOk env inbox),
          ai_sharedTeamCap = (if shared then Fin (is_sharedInboxTeamDailyCap (ie_settings env)) else PInf),
          ai_actor = sq_actor p, ai_approved = sq_approved p, ai_requiresApproval = sq_requiresApproval p,
          ai_isReply = (sq_threadId p \<noteq> None), ai_recipients = classified, ai_replyTarget = sq_replyTarget p,
          ai_burstExceeded = burst,
          ai_privateHit = (unattended \<and> sf_private_codes safety
             \<and> (sq_forwardedSecret p \<or> ie_secretHit env teamId (sq_content p))),
          ai_recipientsToday = fst usage, ai_newRecipientsToday = snd usage,
          ai_sharedRecipientsToday = (if shared then cnt (ix_shared db) (teamId, day) else 0), ai_now = now\<rparr>)"

definition decideInboxSend :: "inbox_env \<Rightarrow> inbox_db \<Rightarrow> ident \<Rightarrow> inbox_row \<Rightarrow> send_question \<Rightarrow> instant \<Rightarrow> send_decision" where
  "decideInboxSend env db teamId inbox p now = decideAgentSend (decide_input env db teamId inbox p now)"

section \<open>The gate of the generic surfaces\<close>

definition findLiveInbox :: "inbox_env \<Rightarrow> inbox_db \<Rightarrow> ident \<Rightarrow> string \<Rightarrow> instant \<Rightarrow> inbox_row option" where
  "findLiveInbox env db teamId address now =
     List.find (\<lambda>i. ib_teamId i = teamId \<and> ib_emailAddress i = tl_lower (ie_text env) address
       \<and> (case ib_expiresAt i of None \<Rightarrow> True | Some e \<Rightarrow> now < e)) (ix_inboxes db)"

definition thread_of :: "inbox_db \<Rightarrow> ident \<Rightarrow> ident \<Rightarrow> ident \<Rightarrow> thread_row option" where
  "thread_of db teamId inboxId threadId =
     List.find (\<lambda>t. th_id t = threadId \<and> th_inboxId t = inboxId \<and> th_teamId t = teamId) (ix_threads db)"

fun first_some :: "('a \<Rightarrow> 'b option) \<Rightarrow> 'a list \<Rightarrow> 'b option" where
  "first_some f [] = None"
| "first_some f (x # xs) = (case f x of Some y \<Rightarrow> Some y | None \<Rightarrow> first_some f xs)"

text \<open>The local part of \<open><local@anything.amazonses.com>\<close>.\<close>

definition ses_local :: "string \<Rightarrow> string option" where
  "ses_local r =
     (case r of
        [] \<Rightarrow> None
      | c # cs \<Rightarrow>
          let local = takeWhile (\<lambda>d. d \<notin> set ''@<>'') cs; rest = dropWhile (\<lambda>d. d \<notin> set ''@<>'') cs in
          if c = CHR ''<'' \<and> local \<noteq> [] \<and> length local \<le> 200 \<and> rest \<noteq> [] \<and> hd rest = CHR ''@''
             \<and> list_all (\<lambda>d. d \<noteq> CHR ''<'' \<and> d \<noteq> CHR ''>'') (butlast (tl rest))
             \<and> ends_with ''.amazonses.com>'' (map lower_ascii (tl rest))
          then Some local else None)"

definition resolveThread :: "inbox_env \<Rightarrow> inbox_db \<Rightarrow> ident \<Rightarrow> ident \<Rightarrow> string list \<Rightarrow> thread_row option" where
  "resolveThread env db teamId inboxId refs =
     (if refs = [] then None
      else
        let threadOf = thread_of db teamId inboxId;
            token = (if ie_hasKeys env
              then first_some (\<lambda>ref. case ie_verify env (teamId, inboxId) ref of Some t \<Rightarrow> if t \<noteq> [] then threadOf t else None | None \<Rightarrow> None) refs
              else None)
        in case token of
          Some t \<Rightarrow> Some t
        | None \<Rightarrow>
            let sesIds = concat (map (\<lambda>r. case ses_local r of Some i \<Rightarrow> [i] | None \<Rightarrow> []) refs) in
            (case first_some (\<lambda>e. if er_sesMessageId e \<in> Some ` set sesIds \<and> er_teamId e = teamId \<and> ma_inboxId e = Some inboxId
                     then (case ma_threadId e of Some t \<Rightarrow> threadOf t | None \<Rightarrow> None) else None) (ix_mails db) of
               Some t \<Rightarrow> Some t
             | None \<Rightarrow>
                 (case first_by rv_receivedAt (filter (\<lambda>r. rv_inboxId r = inboxId \<and> rv_teamId r = teamId
                         \<and> rv_messageId r \<in> Some ` set refs) (ix_received db)) of
                    None \<Rightarrow> None | Some r \<Rightarrow> threadOf (rv_threadId r))))"

definition receivedAutomated :: "inbox_db \<Rightarrow> ident \<Rightarrow> ident \<Rightarrow> string \<Rightarrow> string option option" where
  "receivedAutomated db teamId inboxId messageId =
     map_option rv_automated (List.find (\<lambda>r. rv_inboxId r = inboxId \<and> rv_teamId r = teamId
        \<and> rv_messageId r = Some messageId) (ix_received db))"

definition latestInboundAutomated :: "inbox_db \<Rightarrow> ident \<Rightarrow> ident \<Rightarrow> string option" where
  "latestInboundAutomated db inboxId threadId =
     (case first_by (\<lambda>r. - rv_memberAt r) (filter (\<lambda>r. rv_inboxId r = inboxId \<and> rv_threadId r = threadId
         \<and> rv_deliveredAt r \<noteq> None) (ix_received db)) of
        None \<Rightarrow> None | Some r \<Rightarrow> rv_automated r)"

record inbox_accept =
  ik_inboxId :: ident
  ik_threadId :: "ident option"
  ik_firstContact :: bool
  ik_newRecipients :: "string list"
  ik_countTowardCap :: bool

text \<open>An accept payload: the bodies and the files are what the caller sent.\<close>

record accept_payload =
  ap_from :: string
  ap_to :: "string list"
  ap_cc :: "string list option"
  ap_bcc :: "string list option"
  ap_replyTo :: "string list option"
  ap_subject :: string
  ap_html :: "string option"
  ap_text :: "string option"
  ap_tags :: "(string \<times> string) list option"
  ap_headers :: "(string \<times> string) list option"
  ap_attachments :: "(string option) list option"
  ap_scheduledAt :: "instant option"
  ap_domainId :: "ident option"
  ap_topicId :: "ident option"
  ap_inbox :: "inbox_accept option"

definition all_recipients :: "accept_payload \<Rightarrow> string list" where
  "all_recipients p = ap_to p @ entries (ap_cc p) @ entries (ap_bcc p)"

definition sharedFromProblem :: "inbox_env \<Rightarrow> accept_payload \<Rightarrow> inbox_row \<Rightarrow> string option" where
  "sharedFromProblem env payload inbox =
     (let from' = parseMailbox (ap_from payload) in
      if map_option (\<lambda>m. tl_lower (ie_text env) (mb_address m)) from' \<noteq> Some (ib_emailAddress inbox)
      then Some (''from must be '' @ ib_emailAddress inbox @ '' exactly, with no +tag, on the shared domain'')
      else if (case from' of Some m \<Rightarrow> mb_name m \<noteq> None \<and> mb_name m \<noteq> ib_fromName inbox | None \<Rightarrow> False)
      then Some ''from's display name must be left out or match the inbox's from_name on the shared domain''
      else map_option (\<lambda>field. field @ '' is not available on the shared domain'')
        (if ap_scheduledAt payload \<noteq> None then Some ''scheduled_at''
         else if entries (ap_replyTo payload) \<noteq> [] then Some ''reply_to''
         else if entries (ap_attachments payload) \<noteq> [] then Some ''attachments''
         else if entries (ap_headers payload) \<noteq> [] then Some ''headers'' else None))"

datatype gate_refusal =
  GInboxScope | GSharedFrom string | GSharedRecipients | GInboxSendPolicy "string list"
| GSharedTeamCap int | GInboxSendCap int | GShared shared_refusal

text \<open>\<open>GThrow\<close>: the keys are not configured.\<close>

datatype gate_result = GOk "inbox_accept option" | GRefused gate_refusal | GThrow

definition record_activity :: "inbox_activity \<Rightarrow> inbox_actor \<Rightarrow> instant \<Rightarrow> inbox_db \<Rightarrow> inbox_db" where
  "record_activity row actor clock db =
     db\<lparr>ix_activity := ix_activity db @ [row],
        ix_inboxes := (if actor = SystemActor then ix_inboxes db
          else update_rows (\<lambda>i. ib_id i = ia_inboxId row \<and> ib_lastUsedAt i < clock - INBOX_USE_STAMP_INTERVAL)
                 (\<lambda>i. i\<lparr>ib_lastUsedAt := clock\<rparr>) (ix_inboxes db))\<rparr>"

definition gate_inbox :: "inbox_env \<Rightarrow> inbox_db \<Rightarrow> ident \<Rightarrow> string option \<Rightarrow> instant \<Rightarrow> inbox_row option" where
  "gate_inbox env db teamId address now =
     (case address of
        None \<Rightarrow> None
      | Some a \<Rightarrow> first_some (\<lambda>key. findLiveInbox env db teamId key now)
          (js_set [inboxKey (ie_text env) a False, inboxKey (ie_text env) a True]))"

definition gate_refs :: "inbox_env \<Rightarrow> accept_payload \<Rightarrow> string option \<times> string list" where
  "gate_refs env payload =
     (let headers = entries (ap_headers payload);
          ids = (\<lambda>name. case headerValue (ie_text env) headers name of Some v \<Rightarrow> msgIds v | None \<Rightarrow> []);
          inReplyTo = (case ids ''In-Reply-To'' of [] \<Rightarrow> None | m # _ \<Rightarrow> Some m)
      in (inReplyTo, take 50 (msgIds (join_spaced ((case inReplyTo of Some m \<Rightarrow> [m] | None \<Rightarrow> []) @ ids ''References'')))))"

definition gateGenericSend ::
    "inbox_env \<Rightarrow> string option \<Rightarrow> instant \<Rightarrow> ident \<Rightarrow> ident option \<Rightarrow> team_row \<Rightarrow> accept_payload \<Rightarrow> inbox_actor \<Rightarrow> instant
     \<Rightarrow> inbox_db \<Rightarrow> inbox_db \<times> gate_result" where
  "gateGenericSend env sharedInboxDomain clock teamId authInboxId billing payload actor now db =
     (let address = map_option fst (parseSingleSender (ap_from payload)) in
      case gate_inbox env db teamId address now of
        None \<Rightarrow>
          (db, if truthy authInboxId then GRefused GInboxScope
               else if isSharedInboxSender (ap_from payload) sharedInboxDomain
               then GRefused (GSharedFrom ''from must be the address of one of your inboxes on the shared domain'')
               else GOk None)
      | Some inbox \<Rightarrow>
          let recipients = all_recipients payload; shared = (ib_domainId inbox = None) in
          if truthy authInboxId \<and> (authInboxId \<noteq> Some (ib_id inbox)
               \<or> map_option (tl_lower (ie_text env)) address \<noteq> Some (ib_emailAddress inbox))
          then (db, GRefused GInboxScope)
          else case (if shared then sharedFromProblem env payload inbox else None) of
            Some m \<Rightarrow> (db, GRefused (GSharedFrom m))
          | None \<Rightarrow>
              if shared \<and> sharedRecipientsExceeded (ie_text env) inbox recipients then (db, GRefused GSharedRecipients)
              else if \<not> ie_hasKeys env then (db, GThrow)
              else
                let (inReplyTo, refs) = gate_refs env payload;
                    threadId = map_option th_id (resolveThread env db teamId (ib_id inbox) refs);
                    parent = (case inReplyTo of Some m \<Rightarrow> receivedAutomated db teamId (ib_id inbox) m | None \<Rightarrow> None);
                    automated = (case threadId of
                        None \<Rightarrow> None
                      | Some t \<Rightarrow> (case parent of Some a \<Rightarrow> Some a | None \<Rightarrow> Some (latestInboundAutomated db (ib_id inbox) t)));
                    decision = decideInboxSend env db teamId inbox
                      \<lparr>sq_billing = billing, sq_actor = actor, sq_approved = False, sq_requiresApproval = False,
                       sq_threadId = threadId, sq_recipients = recipients, sq_untrustedReplyTo = [],
                       sq_replyTarget = automated, sq_content = (ap_subject payload, ap_html payload, ap_text payload),
                       sq_forwardedSecret = False\<rparr> now;
                    refuse = (\<lambda>result reasons. record_activity
                      \<lparr>ia_teamId = teamId, ia_inboxId = ib_id inbox, ia_actor = encodeInboxActor actor,
                       ia_action = ''email.refused'', ia_threadId = threadId, ia_emailId = None,
                       ia_decision = Some (result, reasons)\<rparr> actor clock db)
                in (case decision of
                      DSend firstContact newRecipients countTowardCap \<Rightarrow>
                        (db, GOk (Some \<lparr>ik_inboxId = ib_id inbox, ik_threadId = threadId, ik_firstContact = firstContact,
                           ik_newRecipients = newRecipients, ik_countTowardCap = countTowardCap\<rparr>))
                    | DDraft reasons \<Rightarrow> (refuse ''draft'' reasons, GRefused (GInboxSendPolicy reasons))
                    | DRefuse status name message retry reason \<Rightarrow>
                        (refuse ''refuse'' [name],
                         GRefused (if name = ''restricted_api_key'' then GInboxScope
                           else let retryAfterSec = (case retry of Some s \<Rightarrow> s | None \<Rightarrow> 1) in
                             if reason = Some SharedTeamCap then GSharedTeamCap retryAfterSec
                             else if name = ''inbox_send_cap_reached'' then GInboxSendCap retryAfterSec
                             else GShared (case reason of Some r \<Rightarrow> r | None \<Rightarrow> SharedDomain)))))"

section \<open>The accept transaction\<close>

definition take_capped :: "int option \<Rightarrow> int \<Rightarrow> 'k \<Rightarrow> ('k \<rightharpoonup> int) \<Rightarrow> ('k \<rightharpoonup> int) option" where
  "take_capped cap n k m =
     map_option fst (upsert k n (\<lambda>a. if (case cap of Some c \<Rightarrow> c < a + n | None \<Rightarrow> False) then None else Some (a + n)) m)"

definition chargeSharedRecipients :: "inbox_settings \<Rightarrow> ident \<times> int \<Rightarrow> int \<Rightarrow> inbox_db \<Rightarrow> inbox_db option" where
  "chargeSharedRecipients settings k recipients db =
     (let cap = is_sharedInboxTeamDailyCap settings in
      if cap < recipients then None
      else map_option (\<lambda>m. db\<lparr>ix_shared := m\<rparr>) (take_capped (Some cap) recipients k (ix_shared db)))"

definition refundSharedRecipients :: "ident \<times> int \<Rightarrow> int \<Rightarrow> inbox_db \<Rightarrow> inbox_db" where
  "refundSharedRecipients k recipients db = db\<lparr>ix_shared := map_upd (\<lambda>a. max 0 (a - recipients)) k (ix_shared db)\<rparr>"

definition charge_inbox :: "int option \<Rightarrow> int \<Rightarrow> int \<Rightarrow> ident \<times> int \<Rightarrow> inbox_db \<Rightarrow> inbox_db option" where
  "charge_inbox cap recipients fresh k db =
     map_option (\<lambda>r. db\<lparr>ix_usage := fst r\<rparr>)
       (upsert k (recipients, fresh)
          (\<lambda>(r, f). if (case cap of Some c \<Rightarrow> c < r + recipients | None \<Rightarrow> False) then None
             else Some (r + recipients, f + fresh)) (ix_usage db))"

record accept_state =
  as_teamId :: ident
  as_inbox :: inbox_row
  as_accept :: inbox_accept
  as_threadId :: ident
  as_created :: bool
  as_headers :: "(string \<times> string) list"
  as_day :: int
  as_recipients :: int

datatype begin_result = BeginCap | BeginTeamCap | Begun accept_state

definition accept_headers :: "inbox_env \<Rightarrow> ident \<Rightarrow> inbox_row \<Rightarrow> inbox_accept \<Rightarrow> ident \<Rightarrow> (string \<times> string) list \<Rightarrow> (string \<times> string) list" where
  "accept_headers env teamId inbox accept threadId headers =
     (let lib = ie_text env;
          h1 = (if ie_hasKeys env
            then withThreadToken lib headers (ie_mint env (teamId, ib_id inbox, threadId, after_at (ib_emailAddress inbox)))
            else headers)
      in if ib_kind inbox = Agent \<and> ik_countTowardCap accept \<and> \<not> truthy (headerValue lib h1 ''Auto-Submitted'')
         then setHeader lib h1 ''Auto-Submitted''
                (if truthy (headerValue lib h1 ''In-Reply-To'') then ''auto-replied'' else ''auto-generated'')
         else h1)"

text \<open>\<open>None\<close> is the throw for an inbox that is gone; \<open>fresh\<close> is the id of a thread it opens.\<close>

definition beginInboxAccept ::
    "inbox_env \<Rightarrow> ident \<Rightarrow> ident \<Rightarrow> inbox_accept \<Rightarrow> int \<Rightarrow> string \<Rightarrow> (string \<times> string) list option \<Rightarrow> instant
     \<Rightarrow> inbox_db \<Rightarrow> (inbox_db \<times> begin_result) option" where
  "beginInboxAccept env fresh teamId accept recipients subject headers now db =
     (case List.find (\<lambda>i. ib_id i = ik_inboxId accept \<and> ib_teamId i = teamId) (ix_inboxes db) of
        None \<Rightarrow> None
      | Some inbox \<Rightarrow>
          let cap = (if ik_countTowardCap accept then sf_send_cap (ib_safety inbox) else None);
              day = utcDay now; shared = (ib_domainId inbox = None) in
          Some (if (case cap of Some c \<Rightarrow> c < recipients | None \<Rightarrow> False) then (db, BeginCap)
            else case (if shared then chargeSharedRecipients (ie_settings env) (teamId, day) recipients db else Some db) of
              None \<Rightarrow> (db, BeginTeamCap)
            | Some db1 \<Rightarrow>
                (case charge_inbox cap recipients (int (length (ik_newRecipients accept))) (ib_id inbox, day) db1 of
                   None \<Rightarrow> (if shared then refundSharedRecipients (teamId, day) recipients db1 else db1, BeginCap)
                 | Some db2 \<Rightarrow>
                     let threadId = (case ik_threadId accept of Some t \<Rightarrow> t | None \<Rightarrow> fresh);
                         db3 = (if ik_threadId accept = None
                           then db2\<lparr>ix_threads := ix_threads db2 @ [\<lparr>th_id = fresh, th_teamId = teamId, th_inboxId = ib_id inbox,
                                  th_subject = subject, th_folder = ''sent'', th_lastMessageAt = now, th_participants = []\<rparr>]\<rparr>
                           else db2)
                     in (db3, Begun \<lparr>as_teamId = teamId, as_inbox = inbox, as_accept = accept, as_threadId = threadId,
                           as_created = (ik_threadId accept = None),
                           as_headers = accept_headers env teamId inbox accept threadId (entries headers),
                           as_day = day, as_recipients = recipients\<rparr>))))"

definition refundInboxAccept :: "accept_state \<Rightarrow> inbox_db \<Rightarrow> inbox_db" where
  "refundInboxAccept st db =
     (let db1 = (if ib_domainId (as_inbox st) = None
            then refundSharedRecipients (as_teamId st, as_day st) (as_recipients st) db else db);
          db2 = db1\<lparr>ix_usage := map_upd (\<lambda>(r, f). (max 0 (r - as_recipients st),
                    max 0 (f - int (length (ik_newRecipients (as_accept st)))))) (ib_id (as_inbox st), as_day st) (ix_usage db1)\<rparr>
      in if as_created st then db2\<lparr>ix_threads := filter (\<lambda>t. th_id t \<noteq> as_threadId st) (ix_threads db2)\<rparr> else db2)"

definition burst_restarts :: "instant \<Rightarrow> correspondent \<Rightarrow> bool" where
  "burst_restarts now c \<longleftrightarrow> (case co_burstStart c of None \<Rightarrow> True | Some b \<Rightarrow> b \<le> now - BURST_WINDOW_MS)"

definition meet :: "bool \<Rightarrow> instant \<Rightarrow> ident \<Rightarrow> string \<Rightarrow> correspondent list \<Rightarrow> correspondent list" where
  "meet automated now inboxId address rows =
     (let P = (\<lambda>c. co_inboxId c = inboxId \<and> co_address c = address) in
      if list_ex P rows
      then update_rows P (\<lambda>c. c\<lparr>co_firstOutAt := (case co_firstOutAt c of Some f \<Rightarrow> Some f | None \<Rightarrow> Some now),
             co_lastOutAt := Some now, co_lastSeenAt := Some now,
             co_burstStart := (if automated then (if burst_restarts now c then Some now else co_burstStart c) else co_burstStart c),
             co_burstCount := (if automated then (if burst_restarts now c then 1 else co_burstCount c + 1) else co_burstCount c)\<rparr>) rows
      else rows @ [\<lparr>co_inboxId = inboxId, co_address = address, co_firstOutAt = Some now, co_lastOutAt = Some now,
             co_burstStart = (if automated then Some now else None), co_burstCount = (if automated then 1 else 0),
             co_lastSeenAt = Some now\<rparr>])"

text \<open>The webhook rows are the table and the batches handed to the queue; \<open>draw\<close> draws their ids.\<close>

definition finishInboxAccept ::
    "inbox_env \<Rightarrow> (nat \<Rightarrow> ident \<times> ident) \<Rightarrow> instant \<Rightarrow> endpoint list \<Rightarrow> accept_state \<Rightarrow> mail_row \<Rightarrow> inbox_actor \<Rightarrow> instant
     \<Rightarrow> inbox_db \<Rightarrow> delivery list \<Rightarrow> inbox_db \<times> delivery list \<times> (ident \<times> ident) list list" where
  "finishInboxAccept env draw clock eps st email actor now db dls =
     (let inbox = as_inbox st; threadId = as_threadId st;
          keys = js_set (map (addressKey (ie_text env)) (er_to email @ entries (ma_cc email) @ entries (ma_bcc email)));
          automated = ik_countTowardCap (as_accept st);
          db1 = db\<lparr>ix_threads := update_rows (\<lambda>t. th_id t = threadId)
                    (\<lambda>t. t\<lparr>th_lastMessageAt := now, th_participants := js_set (th_participants t @ keys)\<rparr>) (ix_threads db),
                  ix_inboxes := update_rows (\<lambda>i. ib_id i = ib_id inbox \<and> ib_firstSentAt i = None)
                    (\<lambda>i. i\<lparr>ib_firstSentAt := Some now\<rparr>) (ix_inboxes db),
                  ix_correspondents := fold (meet automated now (ib_id inbox)) keys (ix_correspondents db)\<rparr>;
          db2 = record_activity \<lparr>ia_teamId = as_teamId st, ia_inboxId = ib_id inbox, ia_actor = encodeInboxActor actor,
                  ia_action = ''email.sent'', ia_threadId = Some threadId, ia_emailId = Some (er_id email),
                  ia_decision = Some (''send'', if automated then [] else [''approved''])\<rparr> actor clock db1
      in case (if as_created st then List.find (\<lambda>t. th_id t = threadId) (ix_threads db2)
               else if list_ex (\<lambda>i. ib_id i = ib_id inbox \<and> ib_teamId i = as_teamId st
                   \<and> (case ib_expiresAt i of None \<Rightarrow> True | Some e \<Rightarrow> clock < e)) (ix_inboxes db2)
               then thread_of db2 (as_teamId st) (ib_id inbox) threadId else None) of
           None \<Rightarrow> (db2, dls, [])
         | Some thread \<Rightarrow>
             let event = (\<lambda>type. \<lparr>te_type = type, te_occurredAt = now, te_data = ie_wire env (ib_id inbox) thread email,
                    te_inboxIds = Some [ib_id inbox]\<rparr>);
                 (dls', handed) = enqueueTeamWebhookEvents draw now eps (as_teamId st)
                   ((if as_created st then [event ''inbox.thread.created''] else []) @ [event ''inbox.email.sent'']) dls
             in (db2, dls', handed))"

section \<open>Lemmas\<close>

lemma upsert_usage_SomeD:
  assumes "charge_inbox cap n f k db = Some db'"
  shows "\<exists>u. db' = db\<lparr>ix_usage := (ix_usage db)(k \<mapsto> u)\<rparr>
     \<and> (case ix_usage db k of None \<Rightarrow> u = (n, f) | Some (a, b) \<Rightarrow> u = (a + n, b + f) \<and> (\<forall>c. cap = Some c \<longrightarrow> a + n \<le> c))"
  using assms by (auto simp: charge_inbox_def upsert_def split: option.splits prod.splits if_splits)

lemma charge_shared_SomeD:
  assumes "chargeSharedRecipients settings k n db = Some db'"
  shows "n \<le> is_sharedInboxTeamDailyCap settings
    \<and> db' = db\<lparr>ix_shared := (ix_shared db)(k \<mapsto> cnt (ix_shared db) k + n)\<rparr>
    \<and> (ix_shared db k \<noteq> None \<longrightarrow> cnt (ix_shared db) k + n \<le> is_sharedInboxTeamDailyCap settings)"
  using assms by (auto simp: chargeSharedRecipients_def take_capped_def upsert_def Let_def cnt_def split: option.splits if_splits)

text \<open>A begin that succeeds, in one equation.\<close>

definition begun_db :: "inbox_db \<Rightarrow> accept_state \<Rightarrow> inbox_db \<Rightarrow> bool" where
  "begun_db db st db' \<longleftrightarrow>
     (let k = (ib_id (as_inbox st), as_day st); n = as_recipients st; f = int (length (ik_newRecipients (as_accept st))) in
      (\<exists>u. db' = db\<lparr>ix_usage := (ix_usage db)(k \<mapsto> u),
          ix_shared := (if ib_domainId (as_inbox st) = None
             then (ix_shared db)((as_teamId st, as_day st) \<mapsto> cnt (ix_shared db) (as_teamId st, as_day st) + n) else ix_shared db),
          ix_threads := ix_threads db @ (if as_created st then [\<lparr>th_id = as_threadId st, th_teamId = as_teamId st,
             th_inboxId = ib_id (as_inbox st), th_subject = th_subject (last (ix_threads db')), th_folder = ''sent'',
             th_lastMessageAt = th_lastMessageAt (last (ix_threads db')), th_participants = []\<rparr>] else [])\<rparr>
        \<and> (case ix_usage db k of None \<Rightarrow> u = (n, f) | Some (a, b) \<Rightarrow> u = (a + n, b + f))
        \<and> (\<forall>c. ik_countTowardCap (as_accept st) \<longrightarrow> sf_send_cap (ib_safety (as_inbox st)) = Some c \<longrightarrow> fst u \<le> c)))"

definition usage_of :: "inbox_db \<Rightarrow> ident \<times> int \<Rightarrow> int \<times> int" where
  "usage_of db k = (case ix_usage db k of Some u \<Rightarrow> u | None \<Rightarrow> (0, 0))"

lemma begun_usage:
  assumes "begun_db db st db'" "ik_countTowardCap (as_accept st)" "sf_send_cap (ib_safety (as_inbox st)) = Some c"
  shows "fst (usage_of db' (ib_id (as_inbox st), as_day st)) \<le> c"
proof -
  let ?k = "(ib_id (as_inbox st), as_day st)"
  obtain u us s th where "db' = db\<lparr>ix_usage := us(?k \<mapsto> u), ix_shared := s, ix_threads := th\<rparr>" "fst u \<le> c"
    using assms unfolding begun_db_def Let_def by blast
  then show ?thesis by (simp add: usage_of_def)
qed

lemma begin_begunD:
  assumes "beginInboxAccept env fresh teamId accept recipients subject headers now db = Some (db', Begun st)"
  shows "begun_db db st db'" "as_accept st = accept" "as_recipients st = recipients" "as_teamId st = teamId"
    "as_day st = utcDay now" "as_created st \<Longrightarrow> as_threadId st = fresh" "as_inbox st \<in> set (ix_inboxes db)"
    "ib_id (as_inbox st) = ik_inboxId accept"
    "ib_domainId (as_inbox st) = None \<Longrightarrow> chargeSharedRecipients (ie_settings env) (teamId, utcDay now) recipients db \<noteq> None"
proof -
  obtain inbox where i: "List.find (\<lambda>i. ib_id i = ik_inboxId accept \<and> ib_teamId i = teamId) (ix_inboxes db) = Some inbox"
    using assms by (auto simp: beginInboxAccept_def split: option.splits)
  let ?cap = "if ik_countTowardCap accept then sf_send_cap (ib_safety inbox) else None"
  let ?shared = "ib_domainId inbox = None"
  have c: "\<not> (case ?cap of Some c \<Rightarrow> c < recipients | None \<Rightarrow> False)"
    using assms i by (auto simp: beginInboxAccept_def Let_def split: if_splits)
  obtain db1 where d1: "(if ?shared then chargeSharedRecipients (ie_settings env) (teamId, utcDay now) recipients db else Some db) = Some db1"
    using assms i c by (auto simp: beginInboxAccept_def Let_def split: option.splits)
  obtain db2 where d2: "charge_inbox ?cap recipients (int (length (ik_newRecipients accept))) (ib_id inbox, utcDay now) db1 = Some db2"
    using assms i c d1 by (auto simp: beginInboxAccept_def Let_def split: option.splits)
  have r: "(db', Begun st) = (if ik_threadId accept = None
      then db2\<lparr>ix_threads := ix_threads db2 @ [\<lparr>th_id = fresh, th_teamId = teamId, th_inboxId = ib_id inbox,
         th_subject = subject, th_folder = ''sent'', th_lastMessageAt = now, th_participants = []\<rparr>]\<rparr> else db2,
      Begun \<lparr>as_teamId = teamId, as_inbox = inbox, as_accept = accept,
         as_threadId = (case ik_threadId accept of Some t \<Rightarrow> t | None \<Rightarrow> fresh),
         as_created = (ik_threadId accept = None),
         as_headers = accept_headers env teamId inbox accept (case ik_threadId accept of Some t \<Rightarrow> t | None \<Rightarrow> fresh) (entries headers),
         as_day = utcDay now, as_recipients = recipients\<rparr>)"
    using assms i c d1 d2 by (simp add: beginInboxAccept_def Let_def)
  have s: "db1 = db\<lparr>ix_shared := (if ?shared then (ix_shared db)((teamId, utcDay now) \<mapsto> cnt (ix_shared db) (teamId, utcDay now) + recipients) else ix_shared db)\<rparr>"
    using d1 charge_shared_SomeD [of "ie_settings env" "(teamId, utcDay now)" recipients db db1]
    by (cases "ib_domainId inbox") auto
  obtain u where u: "db2 = db1\<lparr>ix_usage := (ix_usage db1)((ib_id inbox, utcDay now) \<mapsto> u)\<rparr>"
    and uc: "case ix_usage db1 (ib_id inbox, utcDay now) of None \<Rightarrow> u = (recipients, int (length (ik_newRecipients accept)))
      | Some (a, b) \<Rightarrow> u = (a + recipients, b + int (length (ik_newRecipients accept))) \<and> (\<forall>c. ?cap = Some c \<longrightarrow> a + recipients \<le> c)"
    using upsert_usage_SomeD [OF d2] by blast
  have le: "fst u \<le> x" if "ik_countTowardCap accept" "sf_send_cap (ib_safety inbox) = Some x" for x
    using c uc that by (auto split: option.splits)
  show "begun_db db st db'" unfolding begun_db_def Let_def
    by (rule exI [of _ u]) (use r s u uc le in \<open>auto split: option.splits\<close>)
  show "as_accept st = accept" "as_recipients st = recipients" "as_teamId st = teamId"
    "as_day st = utcDay now" "as_created st \<Longrightarrow> as_threadId st = fresh" using r by auto
  show "as_inbox st \<in> set (ix_inboxes db)" "ib_id (as_inbox st) = ik_inboxId accept"
    using r i find_Some_set [OF i] by auto
  show "ib_domainId (as_inbox st) = None \<Longrightarrow> chargeSharedRecipients (ie_settings env) (teamId, utcDay now) recipients db \<noteq> None"
    using r d1 by auto
qed

text \<open>The counts, the threads and everything the charge never touches.\<close>

definition same_charges :: "inbox_db \<Rightarrow> inbox_db \<Rightarrow> bool" where
  "same_charges a b \<longleftrightarrow> usage_of a = usage_of b \<and> cnt (ix_shared a) = cnt (ix_shared b) \<and> ix_threads a = ix_threads b
     \<and> ix_inboxes a = ix_inboxes b \<and> ix_correspondents a = ix_correspondents b \<and> ix_activity a = ix_activity b"

definition nonneg_charges :: "inbox_db \<Rightarrow> bool" where
  "nonneg_charges db \<longleftrightarrow> nonneg_table (ix_shared db) \<and> (\<forall>k. 0 \<le> fst (usage_of db k) \<and> 0 \<le> snd (usage_of db k))"

lemma cnt_shared_refund:
  assumes "0 \<le> cnt m k"
  shows "cnt (map_upd (\<lambda>a. max 0 (a - n)) k (m(k \<mapsto> cnt m k + n))) = cnt m"
  using assms by (auto simp: fun_eq_iff map_upd_def cnt_def)

lemma begun_refund:
  assumes "begun_db db st db'" "nonneg_charges db" "as_created st \<Longrightarrow> as_threadId st \<notin> th_id ` set (ix_threads db)"
  shows "same_charges (refundInboxAccept st db') db"
proof -
  let ?k = "(ib_id (as_inbox st), as_day st)" and ?n = "as_recipients st"
  let ?f = "int (length (ik_newRecipients (as_accept st)))" and ?t = "(as_teamId st, as_day st)"
  obtain u x where db': "db' = db\<lparr>ix_usage := (ix_usage db)(?k \<mapsto> u),
          ix_shared := (if ib_domainId (as_inbox st) = None then (ix_shared db)(?t \<mapsto> cnt (ix_shared db) ?t + ?n) else ix_shared db),
          ix_threads := ix_threads db @ (if as_created st then [x] else [])\<rparr>"
    and x: "th_id x = as_threadId st"
    and u: "case ix_usage db ?k of None \<Rightarrow> u = (?n, ?f) | Some (a, b) \<Rightarrow> u = (a + ?n, b + ?f)"
    using assms(1) unfolding begun_db_def Let_def by (auto simp del: fun_upd_apply)
  have n: "0 \<le> cnt (ix_shared db) ?t" "0 \<le> fst (usage_of db ?k)" "0 \<le> snd (usage_of db ?k)"
    using assms(2) by (simp_all add: nonneg_charges_def nonneg_tableD)
  have uu: "u = (fst (usage_of db ?k) + ?n, snd (usage_of db ?k) + ?f)"
    using u by (auto simp: usage_of_def split: option.splits)
  have th: "filter (\<lambda>t. th_id t \<noteq> as_threadId st) (ix_threads db @ [x]) = ix_threads db" if "as_created st"
  proof -
    have "\<forall>t \<in> set (ix_threads db). th_id t \<noteq> as_threadId st" using assms(3) [OF that] by force
    then show ?thesis using x by (simp add: filter_id_conv)
  qed
  show ?thesis
    unfolding same_charges_def refundInboxAccept_def refundSharedRecipients_def Let_def db'
    using cnt_shared_refund [OF n(1), of ?n] n th
    by (auto simp: fun_eq_iff usage_of_def map_upd_def uu split: option.splits)
qed

lemma begin_refused_same:
  assumes "beginInboxAccept env fresh teamId accept recipients subject headers now db = Some (db', r)"
    and "\<And>st. r \<noteq> Begun st" "nonneg_charges db"
  shows "same_charges db' db"
proof -
  have "same_charges (refundSharedRecipients k n db1) db" if "chargeSharedRecipients s k n db = Some db1" for s k n db1
    using charge_shared_SomeD [OF that] assms(3) cnt_shared_refund [of "ix_shared db" k n]
    by (auto simp: same_charges_def refundSharedRecipients_def usage_of_def fun_eq_iff nonneg_charges_def nonneg_tableD)
  then show ?thesis
    using assms by (auto simp: beginInboxAccept_def same_charges_def Let_def split: option.splits if_splits)
qed

text \<open>What runs of accepts reach: begins, refunds of what began, and finishes, by any inboxes and teams.\<close>

inductive inbox_reach :: "inbox_env \<Rightarrow> inbox_db \<Rightarrow> bool" for env where
  init: "ix_usage db = Map.empty \<Longrightarrow> ix_shared db = Map.empty \<Longrightarrow> inbox_reach env db"
| begins: "inbox_reach env db \<Longrightarrow> 0 \<le> recipients
    \<Longrightarrow> beginInboxAccept env fresh teamId accept recipients subject headers now db = Some (db', r) \<Longrightarrow> inbox_reach env db'"
| refunds: "inbox_reach env db \<Longrightarrow> 0 \<le> as_recipients st \<Longrightarrow> inbox_reach env (refundInboxAccept st db)"
| finishes: "inbox_reach env db \<Longrightarrow> inbox_reach env (fst (finishInboxAccept env draw clock eps st email actor now db dls))"

definition shared_ok :: "inbox_env \<Rightarrow> inbox_db \<Rightarrow> bool" where
  "shared_ok env db \<longleftrightarrow> (\<forall>k. 0 \<le> cnt (ix_shared db) k \<and> cnt (ix_shared db) k \<le> max 0 (is_sharedInboxTeamDailyCap (ie_settings env)))"

lemma finish_charges [simp]:
  "ix_shared (fst (finishInboxAccept env draw clock eps st email actor now db dls)) = ix_shared db"
  "ix_usage (fst (finishInboxAccept env draw clock eps st email actor now db dls)) = ix_usage db"
  by (simp_all add: finishInboxAccept_def record_activity_def Let_def split_beta split: option.split)

lemma shared_ok_refund:
  assumes "shared_ok env db" "0 \<le> n"
  shows "shared_ok env (refundSharedRecipients k n db)"
proof -
  have "0 \<le> cnt (map_upd (\<lambda>a. max 0 (a - n)) k (ix_shared db)) j \<and> cnt (map_upd (\<lambda>a. max 0 (a - n)) k (ix_shared db)) j \<le> cnt (ix_shared db) j"
    if "0 \<le> cnt (ix_shared db) j" for j
    using assms(2) that by (auto simp: map_upd_def cnt_def split: option.splits)
  then show ?thesis using assms(1) unfolding shared_ok_def refundSharedRecipients_def
    by (simp del: split_paired_All) (meson order_trans)
qed

lemma shared_ok_charge:
  assumes "shared_ok env db" "0 \<le> n" "chargeSharedRecipients (ie_settings env) k n db = Some db'"
  shows "shared_ok env db'"
proof -
  note c = charge_shared_SomeD [OF assms(3)]
  have k: "0 \<le> cnt (ix_shared db) k" using assms(1) unfolding shared_ok_def by blast
  have "cnt (ix_shared db) k + n \<le> is_sharedInboxTeamDailyCap (ie_settings env)"
    using c by (cases "ix_shared db k") auto
  then show ?thesis using c k assms(1,2) by (simp add: shared_ok_def le_max_iff_disj del: split_paired_All)
qed

lemma shared_ok_frame: "ix_shared db' = ix_shared db \<Longrightarrow> shared_ok env db \<Longrightarrow> shared_ok env db'"
  by (simp add: shared_ok_def)

lemma inbox_reach_ok: "inbox_reach env db \<Longrightarrow> shared_ok env db"
proof (induction rule: inbox_reach.induct)
  case (init db)
  then show ?case by (simp add: shared_ok_def)
next
  case (begins db recipients fresh teamId accept subject headers now db' r)
  have f: "ix_shared db2 = ix_shared db1" if "charge_inbox cap n f k db1 = Some db2" for cap n f k and db1 db2 :: inbox_db
    using upsert_usage_SomeD [OF that] by auto
  obtain inbox where i: "List.find (\<lambda>i. ib_id i = ik_inboxId accept \<and> ib_teamId i = teamId) (ix_inboxes db) = Some inbox"
    using begins.hyps(3) by (auto simp: beginInboxAccept_def split: option.splits)
  let ?cap = "if ik_countTowardCap accept then sf_send_cap (ib_safety inbox) else None"
  let ?c = "if ib_domainId inbox = None then chargeSharedRecipients (ie_settings env) (teamId, utcDay now) recipients db else Some db"
  show ?case
  proof (cases "(case ?cap of Some c \<Rightarrow> c < recipients | None \<Rightarrow> False) \<or> ?c = None")
    case True
    then have "db' = db" using begins.hyps(3) i by (auto simp: beginInboxAccept_def Let_def split: if_splits)
    then show ?thesis using begins.IH by simp
  next
    case False
    then obtain db1 where c: "\<not> (case ?cap of Some c \<Rightarrow> c < recipients | None \<Rightarrow> False)" "?c = Some db1" by auto
    have ok1: "shared_ok env db1" using c(2) begins.IH begins.hyps(2) shared_ok_charge by (cases "ib_domainId inbox") auto
    let ?d = "charge_inbox ?cap recipients (int (length (ik_newRecipients accept))) (ib_id inbox, utcDay now) db1"
    show ?thesis
    proof (cases ?d)
      case None
      then have "db' = (if ib_domainId inbox = None then refundSharedRecipients (teamId, utcDay now) recipients db1 else db1)"
        using begins.hyps(3) i c by (simp add: beginInboxAccept_def Let_def)
      then show ?thesis using ok1 shared_ok_refund begins.hyps(2) by simp
    next
      case (Some db2)
      then have "ix_shared db' = ix_shared db2" using begins.hyps(3) i c by (auto simp: beginInboxAccept_def Let_def split: if_splits)
      then show ?thesis using shared_ok_frame f [OF Some] ok1 by metis
    qed
  qed
next
  case (refunds db st)
  have "ix_shared (refundInboxAccept st db) = (if ib_domainId (as_inbox st) = None
      then ix_shared (refundSharedRecipients (as_teamId st, as_day st) (as_recipients st) db) else ix_shared db)"
    by (simp add: refundInboxAccept_def Let_def)
  then show ?case using refunds shared_ok_refund shared_ok_frame by (cases "ib_domainId (as_inbox st)") (metis+)
next
  case (finishes db draw clock eps st email actor now dls)
  then show ?case using shared_ok_frame finish_charges(1) by metis
qed

lemma threadSenders_shared:
  assumes "a \<in> set (threadSenders env db inboxId threadId True)"
  shows "\<exists>m \<in> set (ix_received db). rv_inboxId m = inboxId \<and> rv_threadId m = threadId \<and> rv_deliveredAt m \<noteq> None
     \<and> rv_trust m \<noteq> TUnauthenticated \<and> rv_trust m \<noteq> TFailed
     \<and> (a = addressKey (ie_text env) (rv_from m)
        \<or> (\<exists>rt \<in> set (rv_replyTo m). a = addressKey (ie_text env) rt \<and> ie_org env (after_at rt) = ie_org env (after_at (rv_from m))))"
  using assms by (auto simp: threadSenders_def in_thread_def replyToTrusted_def split: if_splits)

lemma classify_shared_trusted:
  assumes "list_all trusted (fst (classifyRecipients env db teamId inbox (Some t) rs untrusted now))"
    and "a \<in> set rs" "ib_domainId inbox = None"
  shows "a \<in> set (teamMemberEmails env db teamId) \<or> a \<in> set (threadSenders env db (ib_id inbox) t True)"
  using assms by (force simp: classifyRecipients_def Let_def list_all_iff trusted_def inbox_owners_def split: if_splits)

section \<open>A shared inbox with one message in its thread\<close>

definition demo_inbox :: inbox_row where
  "demo_inbox = \<lparr>ib_id = ''i1'', ib_teamId = ''t1'', ib_kind = Agent, ib_emailAddress = ''bot@in.co'', ib_domainId = None,
     ib_fromName = None, ib_safety = defaultSafety Agent True, ib_expiresAt = None, ib_firstSentAt = None, ib_lastUsedAt = 0\<rparr>"

definition demo_received :: received_row where
  "demo_received = \<lparr>rv_inboxId = ''i1'', rv_teamId = ''t1'', rv_threadId = ''h1'', rv_trust = TExternal, rv_deliveredAt = Some 5,
     rv_from = ''bob@x.co'', rv_replyTo = [''evil@y.co''], rv_messageId = None, rv_automated = None, rv_memberAt = 5, rv_receivedAt = 4\<rparr>"

definition demo_inboxes :: inbox_db where
  "demo_inboxes = \<lparr>ix_inboxes = [demo_inbox], ix_threads = [], ix_usage = Map.empty, ix_shared = Map.empty,
     ix_correspondents = [], ix_received = [demo_received], ix_activity = [], ix_logins = (\<lambda>_. [''Ann@z.co'']), ix_mails = []\<rparr>"

definition demo_inbox_env :: inbox_env where
  "demo_inbox_env = \<lparr>ie_text = demo_text, ie_org = id, ie_isCloud = True, ie_judgeConfigured = True,
     ie_settings = \<lparr>is_sharedInboxSend = True, is_sharedInboxOpen = False, is_autoHold = True, is_sharedInboxTeamDailyCap = 100\<rparr>,
     ie_tierNew = (\<lambda>_. False), ie_namesOk = (\<lambda>_. True), ie_secretHit = (\<lambda>_ _. False), ie_hasKeys = True,
     ie_mint = (\<lambda>_. ''<tok@in.co>''), ie_verify = (\<lambda>_ _. None), ie_wire = (\<lambda>_ _ _. [])\<rparr>"

definition demo_accept :: inbox_accept where
  "demo_accept = \<lparr>ik_inboxId = ''i1'', ik_threadId = None, ik_firstContact = True, ik_newRecipients = [''bob@x.co''],
     ik_countTowardCap = True\<rparr>"

definition demo_begin :: "(inbox_db \<times> begin_result) option" where
  "demo_begin = beginInboxAccept demo_inbox_env ''h9'' ''t1'' demo_accept 1 ''Hi'' None 0 demo_inboxes"

lemma demo_begins:
  obtains db' st where "beginInboxAccept demo_inbox_env ''h9'' ''t1'' demo_accept 1 ''Hi'' None 0 demo_inboxes = Some (db', Begun st)"
    "cnt (ix_shared db') (''t1'', 0) = 1" "map th_id (ix_threads db') = [''h9'']" "as_inbox st = demo_inbox"
proof -
  have c: "case demo_begin of Some (d, Begun st) \<Rightarrow> cnt (ix_shared d) (''t1'', 0) = 1 \<and> map th_id (ix_threads d) = [''h9'']
      | _ \<Rightarrow> False" by code_simp
  obtain d r where dr: "demo_begin = Some (d, r)" using c by (cases demo_begin) auto
  note c' = c [unfolded dr option.case prod.case]
  obtain st where st: "r = Begun st" by (cases r) (use c' in simp_all)
  note b = dr [unfolded demo_begin_def st]
  have "as_inbox st = demo_inbox" using begin_begunD(7) [OF b] by (simp add: demo_inboxes_def)
  then show thesis using that [OF b] c' st by simp
qed

definition demo_question :: send_question where
  "demo_question = \<lparr>sq_billing = example_pro_row, sq_actor = ApiKeyActor ''k1'' None,
     sq_approved = False, sq_requiresApproval = False, sq_threadId = Some ''h1'', sq_recipients = [''Bob@x.co'', ''ann@z.co''],
     sq_untrustedReplyTo = [], sq_replyTarget = None, sq_content = (''Hi'', None, None), sq_forwardedSecret = False\<rparr>"

lemma demo_question_sends:
  "decideInboxSend demo_inbox_env demo_inboxes ''t1'' demo_inbox demo_question 0 = DSend False [] True"
  by code_simp

section \<open>Properties\<close>

text \<open>
  C31: a refused send hands the inbox's charges back. When the caps refuse it nothing of it is left, and when a
  later step of the accept does, the refund restores both daily counts and takes away the thread it opened.
\<close>

theorem inbox_refund_restores:
  assumes "beginInboxAccept env fresh teamId accept recipients subject headers now db = Some (db', r)"
    and "nonneg_charges db" "fresh \<notin> th_id ` set (ix_threads db)"
  shows "case r of Begun st \<Rightarrow> same_charges (refundInboxAccept st db') db | _ \<Rightarrow> same_charges db' db"
proof (cases r)
  case (Begun st)
  note b = begin_begunD [of env fresh teamId accept recipients subject headers now db db' st]
  have "as_created st \<Longrightarrow> as_threadId st \<notin> th_id ` set (ix_threads db)"
    using b(6) assms(1,3) Begun by simp
  then show ?thesis using begun_refund [OF _ assms(2)] b(1) assms(1) Begun by simp
qed (use begin_refused_same [OF assms(1) _ assms(2)] in simp_all)

theorem inbox_refund_restores_witness:
  "\<exists>db' st. demo_begin = Some (db', Begun st) \<and> map th_id (ix_threads db') = [''h9'']
     \<and> same_charges (refundInboxAccept st db') demo_inboxes"
proof -
  obtain db' st where b: "beginInboxAccept demo_inbox_env ''h9'' ''t1'' demo_accept 1 ''Hi'' None 0 demo_inboxes = Some (db', Begun st)"
    and t: "map th_id (ix_threads db') = [''h9'']" by (rule demo_begins)
  have "nonneg_charges demo_inboxes"
    by (simp add: nonneg_charges_def nonneg_table_def usage_of_def demo_inboxes_def)
  then have "same_charges (refundInboxAccept st db') demo_inboxes"
    using inbox_refund_restores [OF b] by (simp add: demo_inboxes_def)
  then show ?thesis using b t by (auto simp: demo_begin_def)
qed

text \<open>
  C29: the caps of inboxes hold. However accepts interleave, what a team has sent from the shared
  domain on a day stays within the operator's cap, and an unattended send leaves its inbox within the cap of
  its own rules.
\<close>

theorem inbox_caps_hold:
  assumes "inbox_reach env db"
    and "beginInboxAccept env fresh teamId accept recipients subject headers now db = Some (db', Begun st)"
  shows "cnt (ix_shared db) k \<le> max 0 (is_sharedInboxTeamDailyCap (ie_settings env))
    \<and> (ik_countTowardCap accept \<longrightarrow> (case sf_send_cap (ib_safety (as_inbox st)) of None \<Rightarrow> True
        | Some c \<Rightarrow> fst (usage_of db' (ib_id (as_inbox st), utcDay now)) \<le> c))"
proof
  show "cnt (ix_shared db) k \<le> max 0 (is_sharedInboxTeamDailyCap (ie_settings env))"
    using inbox_reach_ok [OF assms(1)] unfolding shared_ok_def by blast
  note b = begin_begunD [OF assms(2)]
  show "ik_countTowardCap accept \<longrightarrow> (case sf_send_cap (ib_safety (as_inbox st)) of None \<Rightarrow> True
        | Some c \<Rightarrow> fst (usage_of db' (ib_id (as_inbox st), utcDay now)) \<le> c)"
    using begun_usage [OF b(1)] b(2,5) by (simp split: option.split)
qed

theorem inbox_caps_hold_witness:
  "\<exists>db' st. demo_begin = Some (db', Begun st) \<and> cnt (ix_shared demo_inboxes) (''t1'', 0) \<le> 100
     \<and> fst (usage_of db' (''i1'', 0)) \<le> SHARED_SEND_CAP_MAX"
proof -
  obtain db' st where b: "beginInboxAccept demo_inbox_env ''h9'' ''t1'' demo_accept 1 ''Hi'' None 0 demo_inboxes = Some (db', Begun st)"
    and i: "as_inbox st = demo_inbox" by (rule demo_begins)
  have "inbox_reach demo_inbox_env demo_inboxes" by (rule inbox_reach.init) (simp_all add: demo_inboxes_def)
  from inbox_caps_hold [OF this b, of "(''t1'', 0)"] show ?thesis
    using b i by (auto simp: demo_begin_def demo_inbox_def demo_accept_def demo_inbox_env_def defaultSafety_def utcDay_def)
qed

text \<open>
  C30: who a shared address may write to. While its team may only reply, or its names were never reviewed, a
  send goes out only in a thread, and each recipient is a member's login, the author of an authenticated
  message delivered in that thread, or a Reply-To of one at the author's own organization; nothing a team typed
  into the inbox's own lists counts. And the team stays within its cap on the shared domain.
\<close>

theorem shared_send_reaches_answered:
  assumes "decideInboxSend env db teamId inbox p now = DSend firstContact newRecipients counted"
    and "ib_domainId inbox = None"
    and "sharedSendMode (ie_settings env) (effectivePlan (tr_plan (sq_billing p)) (tr_currentPeriodEnd (sq_billing p)) now)
        (ie_isCloud env) (ie_judgeConfigured env) = mode" "ss_mode mode \<noteq> OpenMode \<or> \<not> ie_namesOk env inbox"
    and "r \<in> set (sq_recipients p)"
  shows "(\<exists>t. sq_threadId p = Some t \<and>
      (addressKey (ie_text env) r \<in> set (teamMemberEmails env db teamId)
       \<or> (\<exists>m \<in> set (ix_received db). rv_inboxId m = ib_id inbox \<and> rv_threadId m = t \<and> rv_deliveredAt m \<noteq> None
            \<and> rv_trust m \<noteq> TUnauthenticated \<and> rv_trust m \<noteq> TFailed
            \<and> (addressKey (ie_text env) r = addressKey (ie_text env) (rv_from m)
               \<or> (\<exists>rt \<in> set (rv_replyTo m). addressKey (ie_text env) r = addressKey (ie_text env) rt
                    \<and> ie_org env (after_at rt) = ie_org env (after_at (rv_from m)))))))
    \<and> cnt (ix_shared db) (teamId, utcDay now) + int (length (js_set (map (addressKey (ie_text env)) (sq_recipients p))))
      \<le> is_sharedInboxTeamDailyCap (ie_settings env)"
proof -
  let ?lib = "ie_text env" and ?inp = "decide_input env db teamId inbox p now"
  let ?rs = "js_set (map (addressKey ?lib) (sq_recipients p))"
  have d: "decideAgentSend ?inp = DSend firstContact newRecipients counted" using assms(1) by (simp add: decideInboxSend_def)
  have inp: "ai_shared ?inp" "ai_sharedMode ?inp = mode" "ai_sharedNamesOk ?inp = ie_namesOk env inbox"
    "ai_sharedTeamCap ?inp = Fin (is_sharedInboxTeamDailyCap (ie_settings env))"
    "ai_sharedRecipientsToday ?inp = cnt (ix_shared db) (teamId, utcDay now)" "ai_isReply ?inp = (sq_threadId p \<noteq> None)"
    "ai_recipients ?inp = fst (classifyRecipients env db teamId inbox (sq_threadId p) ?rs
       (map (addressKey ?lib) (sq_untrustedReplyTo p)) now)"
    using assms(2,3) by (simp_all add: decide_input_def Let_def split_beta)
  note s = shared_rule_NoneD [OF decide_sendD(1) [OF d] inp(1)]
  have reply: "sq_threadId p \<noteq> None" "list_all trusted (ai_recipients ?inp)" using s(3) inp assms(4) by auto
  then obtain t where t: "sq_threadId p = Some t" by blast
  have len: "length (ai_recipients ?inp) = length ?rs" unfolding inp(7) by (simp add: classifyRecipients_def Let_def)
  have "addressKey ?lib r \<in> set (teamMemberEmails env db teamId) \<or> addressKey ?lib r \<in> set (threadSenders env db (ib_id inbox) t True)"
  proof (rule classify_shared_trusted)
    show "list_all trusted (fst (classifyRecipients env db teamId inbox (Some t) ?rs (map (addressKey ?lib) (sq_untrustedReplyTo p)) now))"
      using reply(2) inp(7) t by simp
    show "addressKey ?lib r \<in> set ?rs" using assms(5) by simp
    show "ib_domainId inbox = None" by (rule assms(2))
  qed
  then have "addressKey ?lib r \<in> set (teamMemberEmails env db teamId)
       \<or> (\<exists>m \<in> set (ix_received db). rv_inboxId m = ib_id inbox \<and> rv_threadId m = t \<and> rv_deliveredAt m \<noteq> None
            \<and> rv_trust m \<noteq> TUnauthenticated \<and> rv_trust m \<noteq> TFailed
            \<and> (addressKey ?lib r = addressKey ?lib (rv_from m)
               \<or> (\<exists>rt \<in> set (rv_replyTo m). addressKey ?lib r = addressKey ?lib rt
                    \<and> ie_org env (after_at rt) = ie_org env (after_at (rv_from m)))))"
    using threadSenders_shared by blast
  moreover have "cnt (ix_shared db) (teamId, utcDay now) + int (length ?rs) \<le> is_sharedInboxTeamDailyCap (ie_settings env)"
    using s(2) unfolding inp(4,5) len by simp
  ultimately show ?thesis using t by blast
qed

theorem shared_send_reaches_answered_witness:
  "decideInboxSend demo_inbox_env demo_inboxes ''t1'' demo_inbox demo_question 0 = DSend False [] True
   \<and> addressKey demo_text ''Bob@x.co'' \<noteq> ''ann@z.co''
   \<and> (\<exists>m \<in> {demo_received}. rv_threadId m = ''h1'' \<and> rv_trust m \<noteq> TFailed)
   \<and> int (length (js_set (map (addressKey demo_text) (sq_recipients demo_question)))) \<le> 100"
proof -
  let ?mode = "sharedSendMode (ie_settings demo_inbox_env) (effectivePlan (tr_plan example_pro_row) (tr_currentPeriodEnd example_pro_row) 0) True True"
  have m: "ss_mode ?mode \<noteq> OpenMode \<or> \<not> ie_namesOk demo_inbox_env demo_inbox" by code_simp
  have k: "addressKey demo_text ''Bob@x.co'' \<noteq> ''ann@z.co''" by code_simp
  have l: "addressKey demo_text ''Bob@x.co'' \<notin> set (teamMemberEmails demo_inbox_env demo_inboxes ''t1'')" by code_simp
  show ?thesis
    using shared_send_reaches_answered [OF demo_question_sends, of ?mode "''Bob@x.co''"] m l k demo_question_sends
    by (auto simp: demo_inbox_def demo_question_def demo_inboxes_def demo_inbox_env_def)
qed

end
