(* ===== verification/RecipientDomains.thy ===== *)
theory RecipientDomains
  imports SesEvents
begin

text \<open>
  \<open>recipient-domains.ts\<close> and the host names of \<open>org-domain.ts\<close>: which recipients can never receive mail. The
  public suffix list (\<open>parse(name).isIcann\<close>) and the answers of the root servers are arguments; an answer of
  \<open>None\<close> is a lookup that failed, was over its budget or outlasted the deadline.
\<close>

section \<open>Host names\<close>

definition normalizeHostname :: "text_lib \<Rightarrow> string \<Rightarrow> string" where
  "normalizeHostname lib hostname = drop_root_dot (tl_lower lib hostname)"

definition isDomainOrSubdomain :: "string \<Rightarrow> string \<Rightarrow> bool" where
  "isDomainOrSubdomain name domain \<longleftrightarrow> name = domain \<or> starts_with (rev (CHR ''.'' # domain)) (rev name)"

definition topLevelLabel :: "string \<Rightarrow> string" where
  "topLevelLabel hostname = rev (takeWhile (\<lambda>c. c \<noteq> CHR ''.'') (rev hostname))"

definition is_digit :: "char \<Rightarrow> bool" where
  "is_digit c \<longleftrightarrow> CHR ''0'' \<le> c \<and> c \<le> CHR ''9''"

definition digits_value :: "string \<Rightarrow> int" where
  "digits_value s = foldl (\<lambda>n c. 10 * n + (of_char c - 48)) 0 s"

text \<open>The first of four groups of one to three digits.\<close>

definition dotted_ipv4 :: "string \<Rightarrow> string option" where
  "dotted_ipv4 name =
     (let gs = split_dots name in
      if length gs = 4 \<and> list_all (\<lambda>g. g \<noteq> [] \<and> length g \<le> 3 \<and> list_all is_digit g) gs then Some (hd gs) else None)"

definition isLoopbackHost :: "text_lib \<Rightarrow> string \<Rightarrow> bool" where
  "isLoopbackHost lib hostname \<longleftrightarrow>
     (let name = normalizeHostname lib hostname in
      case dotted_ipv4 name of
        Some g \<Rightarrow> name = ''0.0.0.0'' \<or> digits_value g = 127
      | None \<Rightarrow> name = ''[::1]'' \<or> topLevelLabel name = ''localhost'')"

section \<open>Recipients\<close>

definition RESERVED_TLDS :: "string list" where
  "RESERVED_TLDS = [''invalid'', ''test'', ''example'', ''localhost'', ''local'', ''onion'', ''alt'', ''internal'']"
definition HOME_ARPA :: string where "HOME_ARPA = ''home.arpa''"
definition DOCUMENTATION_DOMAINS :: "string list" where
  "DOCUMENTATION_DOMAINS = [''example.com'', ''example.net'', ''example.org'']"
definition MAX_TLD_LOOKUPS :: nat where "MAX_TLD_LOOKUPS = 10"

datatype undeliverable_reason = ReservedName | DocumentationDomain | NonexistentTld
datatype domain_verdict = Never undeliverable_reason | UnknownTld | Plausible

definition classifyRecipientDomain :: "text_lib \<Rightarrow> (string \<Rightarrow> bool option) \<Rightarrow> string \<Rightarrow> domain_verdict" where
  "classifyRecipientDomain lib isIcann domain =
     (let name = normalizeHostname lib domain; tld = topLevelLabel name in
      if tld \<in> set RESERVED_TLDS \<or> isDomainOrSubdomain name HOME_ARPA then Never ReservedName
      else if list_ex (isDomainOrSubdomain name) DOCUMENTATION_DOMAINS then Never DocumentationDomain
      else if tld \<noteq> [] \<and> list_all is_digit tld then Never NonexistentTld
      else if isIcann name = Some False then UnknownTld else Plausible)"

text \<open>The position, the address and the reason.\<close>

type_synonym undeliverable = "nat \<times> string \<times> undeliverable_reason"

definition parsed_recipient :: "text_lib \<Rightarrow> (string \<Rightarrow> bool option) \<Rightarrow> string \<Rightarrow> (string \<times> string \<times> domain_verdict) option" where
  "parsed_recipient lib isIcann input =
     map_option (\<lambda>(address, domain). (address, domain, classifyRecipientDomain lib isIcann domain)) (parseSingleSender input)"

definition unknown_tlds :: "(string \<times> string \<times> domain_verdict) option list \<Rightarrow> string list" where
  "unknown_tlds parsed = take MAX_TLD_LOOKUPS (js_set (concat (map (\<lambda>p. case p of
       Some (_, domain, UnknownTld) \<Rightarrow> [topLevelLabel domain] | _ \<Rightarrow> []) parsed)))"

definition undeliverable_hit :: "text_lib \<Rightarrow> string list \<Rightarrow> nat \<times> (string \<times> string \<times> domain_verdict) option \<Rightarrow> undeliverable list" where
  "undeliverable_hit lib missing ip =
     (case ip of
        (i, Some (address, domain, verdict)) \<Rightarrow>
          (case verdict of
             Plausible \<Rightarrow> []
           | Never reason \<Rightarrow> [(i, tl_lower lib address, reason)]
           | UnknownTld \<Rightarrow>
               if topLevelLabel domain \<in> set missing then [(i, tl_lower lib address, NonexistentTld)] else [])
      | (i, None) \<Rightarrow> [])"

definition undeliverableRecipients ::
    "text_lib \<Rightarrow> (string \<Rightarrow> bool option) \<Rightarrow> (string \<Rightarrow> bool option) \<Rightarrow> bool \<Rightarrow> string list \<Rightarrow> undeliverable list" where
  "undeliverableRecipients lib isIcann tldExists enabled addresses =
     (if \<not> enabled then []
      else
        let parsed = map (parsed_recipient lib isIcann) addresses;
            missing = filter (\<lambda>tld. tldExists tld = Some False) (unknown_tlds parsed)
        in concat (map (undeliverable_hit lib missing) (zip [0..<length parsed] parsed)))"

definition whyUndeliverable :: "string \<Rightarrow> undeliverable_reason \<Rightarrow> string" where
  "whyUndeliverable domain reason =
     (case reason of
        ReservedName \<Rightarrow>
          (if isDomainOrSubdomain domain HOME_ARPA then HOME_ARPA else CHR ''.'' # topLevelLabel domain)
          @ '' is a reserved name that internet mail never reaches.''
      | DocumentationDomain \<Rightarrow>
          (case List.find (isDomainOrSubdomain domain) DOCUMENTATION_DOMAINS of Some d \<Rightarrow> d | None \<Rightarrow> domain)
          @ '' is reserved for documentation and accepts no mail.''
      | NonexistentTld \<Rightarrow> CHR ''.'' # topLevelLabel domain @ '' is not a top-level domain.'')"

definition undeliverableRecipientMessage :: "string \<Rightarrow> undeliverable_reason \<Rightarrow> bool \<Rightarrow> string" where
  "undeliverableRecipientMessage address reason forSend =
     address @ '' can never receive mail: ''
     @ whyUndeliverable (rev (takeWhile (\<lambda>c. c \<noteq> CHR ''@'') (rev address))) reason
     @ (if forSend then '' To test sending without emailing anyone, use success@'' @ SES_MAILBOX_SIMULATOR_DOMAIN @ ''.'' else [])"

section \<open>Lemmas\<close>

lemma dot_free [simp]: "CHR ''.'' \<notin> set (topLevelLabel s)"
  by (auto simp: topLevelLabel_def dest: set_takeWhileD)

lemma undeliverable_hit_iff:
  "(i, a, r) \<in> set (undeliverable_hit lib m (j, p)) \<longleftrightarrow>
     i = j \<and> (\<exists>address domain v. p = Some (address, domain, v) \<and> a = tl_lower lib address
       \<and> (v = Never r \<or> (v = UnknownTld \<and> r = NonexistentTld \<and> topLevelLabel domain \<in> set m)))"
proof (cases p)
  case (Some q)
  then show ?thesis by (cases q; cases "snd (snd q)") (auto simp: undeliverable_hit_def)
qed (simp add: undeliverable_hit_def)

text \<open>A hit is a recipient that parses, with the verdict that refuses it.\<close>

lemma undeliverable_hitD:
  assumes "(i, a, r) \<in> set (undeliverableRecipients lib isIcann tldExists enabled addresses)"
  obtains address domain where "i < length addresses" "parseSingleSender (addresses ! i) = Some (address, domain)"
    "a = tl_lower lib address"
    "classifyRecipientDomain lib isIcann domain = Never r
      \<or> (classifyRecipientDomain lib isIcann domain = UnknownTld \<and> r = NonexistentTld
         \<and> tldExists (topLevelLabel domain) = Some False)"
proof -
  have "enabled" using assms by (auto simp: undeliverableRecipients_def split: if_splits)
  then obtain ip where ip: "ip \<in> set (zip [0..<length addresses] (map (parsed_recipient lib isIcann) addresses))"
    "(i, a, r) \<in> set (undeliverable_hit lib (filter (\<lambda>tld. tldExists tld = Some False)
        (unknown_tlds (map (parsed_recipient lib isIcann) addresses))) ip)"
    using assms by (auto simp: undeliverableRecipients_def Let_def)
  obtain j p where jp: "ip = (j, p)" by (cases ip)
  have p: "ip = (i, p)" using ip(2) unfolding jp undeliverable_hit_iff by simp
  note p = ip [unfolded p]
  have i: "i < length addresses" "p = parsed_recipient lib isIcann (addresses ! i)"
    using p(1) by (auto simp: in_set_zip)
  show thesis
    using p(2) i that unfolding undeliverable_hit_iff by (auto simp: parsed_recipient_def)
qed

end
