(* ===== verification/AcceptEmail.thy ===== *)
theory AcceptEmail
  imports InboxSend RecipientDomains TeamStanding NewDomainLimit
begin

text \<open>
  \<open>accept-email.ts\<close>, the one pipeline behind every send surface: the team's admission, the sizes, the recipients
  that can never receive mail, the inbox rails, suppression and opt-outs, and one transaction that reserves
  the quota, asks the new-domain limit and writes the row. It composes the parts of the other theories.
  Encryption, DNS and the webhook drain's queue are arguments. \<open>None\<close> is a throw: the transaction rolls back and
  nothing was written before it.
\<close>

section \<open>Senders\<close>

definition senderDomain :: "string \<Rightarrow> string option" where
  "senderDomain from' = map_option snd (parseSingleSender from')"

record sender_row =
  sr_id :: ident
  sr_teamId :: ident
  sr_name :: string
  sr_status :: domain_status
  sr_region :: string

datatype sender_verdict =
  SenderOk ident string string string
| InvalidSender
| UnverifiedDomain string

definition verifySenderDomain :: "sender_row list \<Rightarrow> ident \<Rightarrow> string \<Rightarrow> sender_verdict" where
  "verifySenderDomain domains teamId from' =
     (case parseSingleSender from' of
        None \<Rightarrow> InvalidSender
      | Some (address, domain) \<Rightarrow>
          (case List.find (\<lambda>d. sr_teamId d = teamId \<and> sr_name d = domain) domains of
             None \<Rightarrow> UnverifiedDomain domain
           | Some d \<Rightarrow> if sr_status d = DomVerified then SenderOk (sr_id d) (sr_region d) domain address
               else UnverifiedDomain domain))"

section \<open>Sizes\<close>

definition RESERVED_TAG_PREFIX :: string where "RESERVED_TAG_PREFIX = ''millionsend_''"

definition isReservedTagName :: "text_lib \<Rightarrow> string \<Rightarrow> bool" where
  "isReservedTagName lib name \<longleftrightarrow> starts_with RESERVED_TAG_PREFIX (tl_lower lib name)"

definition MAX_ATTACHMENT_BYTES :: int where "MAX_ATTACHMENT_BYTES = 10 * 1024 * 1024"
definition SES_MAX_MESSAGE_BYTES :: int where "SES_MAX_MESSAGE_BYTES = 40 * 1024 * 1024"
definition MIME_PART_OVERHEAD_BYTES :: int where "MIME_PART_OVERHEAD_BYTES = 4096"
definition QUOTA_BACKLOG_DAYS :: int where "QUOTA_BACKLOG_DAYS = 3"

text \<open>An attachment is its base64 content.\<close>

definition file_bytes :: "string option \<Rightarrow> int" where
  "file_bytes content = int (length (case content of Some c \<Rightarrow> c | None \<Rightarrow> [])) * 3 div 4"

definition estimateAttachmentBytes :: "string option list \<Rightarrow> int" where
  "estimateAttachmentBytes attachments = sum_list (map file_bytes attachments)"

definition base64Lines :: "int \<Rightarrow> int" where
  "base64Lines bytes = ceil_div bytes 57 * 78"

definition qp_bytes :: "nat \<Rightarrow> int" where
  "qp_bytes c =
     (if c = 10 then 2
      else if c = 9 \<or> c = 13 \<or> (32 \<le> c \<and> c \<le> 126 \<and> c \<noteq> 61) then 1
      else if c < 128 then 3
      else if c < 2048 \<or> (55296 \<le> c \<and> c \<le> 57343) then 6
      else 9)"

definition quotedPrintableLines :: "string \<Rightarrow> int" where
  "quotedPrintableLines text = ceil_div (sum_list (map (\<lambda>c. qp_bytes (of_char c)) text)) 73 * 78"

text \<open>\<open>Buffer.byteLength\<close> in UTF-8 of a Latin-1 string.\<close>

definition byteLength :: "string \<Rightarrow> int" where
  "byteLength s = sum_list (map (\<lambda>c. if (of_char c :: nat) < 128 then 1 else 2) s)"

definition textPart :: "string option \<Rightarrow> int" where
  "textPart v =
     (case v of
        None \<Rightarrow> 0
      | Some s \<Rightarrow> if s = [] then 0 else max (quotedPrintableLines s) (base64Lines (byteLength s)))"

definition estimateMimeBytes :: "accept_payload \<Rightarrow> int" where
  "estimateMimeBytes email =
     (let attachments = entries (ap_attachments email);
          headerText = foldl (\<lambda>sum (name, v). sum + byteLength (name @ v)) (byteLength (ap_subject email))
             (entries (ap_headers email))
      in MIME_PART_OVERHEAD_BYTES * (int (length attachments) + 4) + 4 * headerText
         + textPart (ap_html email) + textPart (ap_text email)
         + sum_list (map (\<lambda>a. base64Lines (estimateAttachmentBytes [a])) attachments))"

definition exceededSendSize :: "accept_payload \<Rightarrow> int option" where
  "exceededSendSize email =
     (if MAX_ATTACHMENT_BYTES < estimateAttachmentBytes (entries (ap_attachments email)) then Some MAX_ATTACHMENT_BYTES
      else if SES_MAX_MESSAGE_BYTES < estimateMimeBytes email then Some SES_MAX_MESSAGE_BYTES else None)"

section \<open>Backlogs\<close>

text \<open>\<open>Math.ceil\<close> of a double; the quotients are the rounded ones.\<close>

definition warmupBacklogLimit :: "team_quota \<Rightarrow> int \<Rightarrow> jsnum" where
  "warmupBacklogLimit quota cap =
     (case (if quota = QNone then Fin 0 else monthlyCapacity quota) of
        PInf \<Rightarrow> PInf
      | Fin m \<Rightarrow> Fin \<lceil>js_mul (of_int QUOTA_BACKLOG_DAYS) (max (of_int cap) (js_div (of_int m) 30))\<rceil>)"

definition reviewBacklogLimit :: "team_quota \<Rightarrow> jsnum" where
  "reviewBacklogLimit quota =
     (case monthlyCapacity quota of
        PInf \<Rightarrow> PInf
      | Fin m \<Rightarrow> Fin \<lceil>js_div (of_int (QUOTA_BACKLOG_DAYS * m)) 30\<rceil>)"

definition countParked :: "mail_row list \<Rightarrow> ident \<Rightarrow> int" where
  "countParked mails teamId = int (length (filter (\<lambda>e. er_teamId e = teamId \<and> er_latestStatus e = QueuedQuota) mails))"

section \<open>State, callers and answers\<close>

text \<open>The table of emails is \<open>ix_mails\<close> of the inbox tables; \<open>ad_queue\<close> is the send queue.\<close>

record accept_db =
  ad_org :: org_db
  ad_usage :: usage_db
  ad_limit :: limit_db
  ad_inbox :: inbox_db
  ad_suppressions :: "suppression_row list"
  ad_topics :: topic_db
  ad_events :: "event_row list"
  ad_deliveries :: "delivery list"
  ad_queue :: "(ident \<times> instant option) list"

text \<open>
  What is computed elsewhere: the settings of the new-domain limit, its owner and new-team test, the recipients DNS
  refuses, the two seals, the ids drawn, and whether the writes the code only attempts go through.
\<close>

record accept_env =
  ae_inbox :: inbox_env
  ae_caps :: cap_settings
  ae_owner :: "string \<Rightarrow> string"
  ae_isNew :: "ident \<Rightarrow> bool"
  ae_undeliverable :: "string list \<Rightarrow> undeliverable list"
  ae_sealBody :: "ident \<times> ident \<Rightarrow> string option \<times> string option \<Rightarrow> string"
  ae_sealFiles :: "ident \<times> ident \<Rightarrow> (string option) list \<Rightarrow> string"
  ae_sharedInboxDomain :: "string option"
  ae_endpoints :: "endpoint list"
  ae_emailId :: ident
  ae_threadId :: ident
  ae_recordId :: ident
  ae_emailDraw :: "nat \<Rightarrow> ident \<times> ident"
  ae_teamDraw :: "nat \<Rightarrow> ident \<times> ident"
  ae_recordOk :: bool
  ae_enqueueOk :: bool

text \<open>The clock at each read of it, in the order of the code.\<close>

record accept_clock =
  ck_refusal :: instant
  ck_now :: instant
  ck_gate :: instant
  ck_quota :: instant
  ck_charge :: instant
  ck_park :: instant
  ck_finish :: instant

text \<open>\<open>None\<close> in \<open>au_billing\<close> is \<open>"uncapped"\<close>.\<close>

record accept_auth =
  au_teamId :: ident
  au_billing :: "team_row option"
  au_key :: api_key_auth

text \<open>\<open>op_completes\<close>: whether the caller's hook goes through for a row; what it writes is the caller's.\<close>

record accept_opts =
  op_completes :: "ident \<Rightarrow> bool"
  op_inTx :: bool
  op_deferred :: bool
  op_parkUnderReview :: bool
  op_recordSuppressed :: bool
  op_actor :: "inbox_actor option"
  op_recipientsChecked :: bool
  op_webhooks :: bool

datatype accept_result =
  Accepted ident bool int int instant team_quota bool "string option"
| AllSuppressed
| AttachmentsTooLarge int
| QuotaBacklogFull
| WarmupBacklogFull string int int
| MonthlyQuotaExceeded instant bool
| TeamRefused send_refusal
| GateRefused gate_refusal
| InboxCapReached int
| TeamCapReached int
| UndeliverableRecipient string undeliverable_reason

type_synonym hook_batches = "(ident \<times> ident) list list"

definition mails :: "accept_db \<Rightarrow> mail_row list" where
  "mails db = ix_mails (ad_inbox db)"

definition insert_mail :: "mail_row \<Rightarrow> accept_db \<Rightarrow> accept_db" where
  "insert_mail row db = db\<lparr>ad_inbox := (ad_inbox db)\<lparr>ix_mails := mails db @ [row]\<rparr>\<rparr>"

text \<open>\<open>x && x.length > 0 ? x : null\<close>.\<close>

definition some_list :: "'a list option \<Rightarrow> 'a list option" where
  "some_list xs = (if entries xs = [] then None else xs)"

section \<open>The new-domain limit\<close>

datatype warmup_answer = WarmSend | WarmPark | WarmFull int int

definition enforceDomainWarmup ::
    "accept_env \<Rightarrow> instant \<Rightarrow> ident \<Rightarrow> ident option \<Rightarrow> int \<Rightarrow> team_quota \<Rightarrow> int \<Rightarrow> instant \<Rightarrow> accept_db
     \<Rightarrow> (accept_db \<times> warmup_answer) option" where
  "enforceDomainWarmup env clock teamId domainId n quota day t db =
     (case admitWarmup (ae_owner env) (ae_caps env) (ae_isNew env) teamId domainId n t (ad_limit db) of
        (l, None) \<Rightarrow> Some (db\<lparr>ad_limit := l\<rparr>, WarmSend)
      | (l, Some cap) \<Rightarrow>
          (case releaseQuota teamId n quota (Some day) (Some t) clock (ad_usage db) of
             None \<Rightarrow> None
           | Some u \<Rightarrow>
               let db' = db\<lparr>ad_limit := l, ad_usage := u\<rparr>; waiting = countParked (mails db') teamId in
               Some (db', if warmupBacklogLimit quota (wc_cap cap) \<le> Fin waiting
                          then WarmFull (wc_cap cap) waiting else WarmPark)))"

section \<open>A suppressed attempt\<close>

definition plain_row :: "ident \<Rightarrow> accept_auth \<Rightarrow> accept_payload \<Rightarrow> (string \<times> string) list option \<Rightarrow> mail_row" where
  "plain_row rowId auth payload tags =
     \<lparr>er_id = rowId, er_teamId = au_teamId auth, er_latestStatus = Queued, er_sentAt = None, er_parkReason = None,
      er_sesMessageId = None, er_from = ap_from payload, er_to = ap_to payload, er_subject = ap_subject payload,
      ma_domainId = ap_domainId payload, ma_apiKeyId = aa_apiKeyId (au_key auth), ma_contactId = None,
      ma_topicId = ap_topicId payload, ma_cc = some_list (ap_cc payload), ma_bcc = some_list (ap_bcc payload),
      ma_replyTo = ap_replyTo payload, ma_tags = tags, ma_headers = None, ma_body = None, ma_attachments = None,
      ma_bodyPurgedAt = None, ma_scheduledAt = None, ma_parkedAt = None, ma_inboxId = None, ma_threadId = None,
      ma_firstContact = False\<rparr>"

definition recordSuppressedAttempt ::
    "accept_env \<Rightarrow> accept_clock \<Rightarrow> accept_auth \<Rightarrow> accept_payload \<Rightarrow> (string \<times> string) list option \<Rightarrow> accept_db
     \<Rightarrow> accept_db \<times> hook_batches" where
  "recordSuppressedAttempt env clk auth payload tags db =
     (if \<not> ae_recordOk env then (db, [])
      else
        let rowId = ae_recordId env; now = ck_now clk;
            row = (plain_row rowId auth payload tags)\<lparr>er_latestStatus := Suppressed, ma_bodyPurgedAt := Some now\<rparr>;
            event = \<lparr>ev_emailId = rowId, ev_type = EvSuppressed, ev_occurredAt = now, ev_snsMessageId = None, ev_bounceType = None,
              ev_data = Some [(''source'', JStr ''api''), (''reason'', JStr ''recipient_suppressed'')]\<rparr>;
            (dls, handed) = enqueueWebhookDeliveries (ae_emailDraw env) (ck_finish clk) (ae_endpoints env) (au_teamId auth)
              \<lparr>ei_type = ''email.suppressed'', ei_email = \<lparr>ef_emailId = rowId, ef_from = ap_from payload,
                 ef_to = ap_to payload, ef_subject = ap_subject payload\<rparr>, ei_occurredAt = now,
               ei_extras = suppressedEmailExtras ''recipient_suppressed''\<rparr> (ad_deliveries db)
        in ((insert_mail row db)\<lparr>ad_events := ad_events db @ [event], ad_deliveries := dls\<rparr>, handed))"

section \<open>The row and its transaction\<close>

text \<open>What the transaction is asked to write.\<close>

record accept_ask =
  aq_to :: "string list"
  aq_cc :: "string list option"
  aq_bcc :: "string list option"
  aq_tags :: "(string \<times> string) list option"
  aq_count :: int
  aq_quota :: team_quota
  aq_deliveryAt :: instant
  aq_underReview :: bool
  aq_actor :: inbox_actor

datatype row_answer =
  RowMonthly
| RowQuotaFull
| RowWarmupFull int int
| RowInboxCap
| RowTeamCap
| RowWritten ident bool "string option"

text \<open>The tables, whether the quota was reserved, and whether the day refused it.\<close>

definition reserve_row ::
    "accept_clock \<Rightarrow> accept_auth \<Rightarrow> accept_opts \<Rightarrow> accept_ask \<Rightarrow> accept_db \<Rightarrow> (accept_db \<times> bool \<times> bool) option" where
  "reserve_row clk auth opts q db =
     (if op_deferred opts then Some (db, True, False)
      else map_option (\<lambda>(u, r). (db\<lparr>ad_usage := u\<rparr>, is_reserved r,
             case r of Refused _ _ capDay \<Rightarrow> capDay | _ \<Rightarrow> False))
        (reserveQuota (au_teamId auth) (aq_count q) (aq_quota q) (Some (utcDay (aq_deliveryAt q)))
           (Some (aq_deliveryAt q)) (ck_finish clk) (ad_usage db)))"

definition dayLimit :: "team_quota \<Rightarrow> int option" where
  "dayLimit quota =
     (case quota of QDay _ limit _ _ \<Rightarrow> Some limit | QMonth _ _ _ _ _ _ _ dayCap \<Rightarrow> dayCap | QNone \<Rightarrow> None)"

definition is_month :: "team_quota \<Rightarrow> bool" where
  "is_month quota \<longleftrightarrow> (case quota of QMonth _ _ _ _ _ _ _ _ \<Rightarrow> True | _ \<Rightarrow> False)"

text \<open>Why the row parks beside the plan's cap, or a refusal.\<close>

definition park_row ::
    "accept_env \<Rightarrow> accept_clock \<Rightarrow> accept_auth \<Rightarrow> accept_opts \<Rightarrow> accept_payload \<Rightarrow> accept_ask \<Rightarrow> bool \<Rightarrow> accept_db
     \<Rightarrow> (accept_db \<times> (row_answer + string option)) option" where
  "park_row env clk auth opts payload q reserved db =
     (let team = au_teamId auth; day = utcDay (aq_deliveryAt q) in
      if aq_underReview q \<and> \<not> op_deferred opts then
        (case (if reserved then releaseQuota team (aq_count q) (aq_quota q) (Some day) (Some (aq_deliveryAt q))
                 (ck_finish clk) (ad_usage db) else Some (ad_usage db)) of
           None \<Rightarrow> None
         | Some u \<Rightarrow>
             Some (db\<lparr>ad_usage := u\<rparr>,
                   if reviewBacklogLimit (aq_quota q) \<le> Fin (countParked (mails db) team) then Inl RowQuotaFull
                   else Inr (Some ''review'')))
      else if reserved \<and> \<not> op_deferred opts \<and> au_billing auth \<noteq> None then
        map_option (\<lambda>(db', a). (db', case a of WarmFull cap waiting \<Rightarrow> Inl (RowWarmupFull cap waiting)
              | WarmPark \<Rightarrow> Inr (Some ''warmup'') | WarmSend \<Rightarrow> Inr None))
          (enforceDomainWarmup env (ck_finish clk) team (ap_domainId payload) (aq_count q) (aq_quota q) day
             (aq_deliveryAt q) db)
      else Some (db, Inr None))"

definition mail_of ::
    "accept_env \<Rightarrow> accept_clock \<Rightarrow> accept_auth \<Rightarrow> accept_payload \<Rightarrow> accept_ask \<Rightarrow> accept_state option \<Rightarrow> bool
     \<Rightarrow> string option \<Rightarrow> mail_row" where
  "mail_of env clk auth payload q inbox parked parkReason =
     (let owner = (au_teamId auth, ae_emailId env) in
      (plain_row (ae_emailId env) auth payload (aq_tags q))
        \<lparr>er_to := aq_to q, ma_cc := some_list (aq_cc q), ma_bcc := some_list (aq_bcc q),
         ma_headers := (case inbox of Some st \<Rightarrow> Some (as_headers st) | None \<Rightarrow> ap_headers payload),
         ma_attachments := map_option (ae_sealFiles env owner) (some_list (ap_attachments payload)),
         er_latestStatus := (if parked then QueuedQuota else Queued), er_parkReason := parkReason,
         ma_parkedAt := (if parked then Some (ck_park clk) else None), ma_scheduledAt := ap_scheduledAt payload,
         ma_body := Some (ae_sealBody env owner (ap_html payload, ap_text payload)),
         ma_inboxId := map_option (\<lambda>st. ib_id (as_inbox st)) inbox, ma_threadId := map_option as_threadId inbox,
         ma_firstContact := (case inbox of Some st \<Rightarrow> ik_firstContact (as_accept st) | None \<Rightarrow> False)\<rparr>)"

text \<open>The row is written: the caller's hook, the inbox, and the event of a scheduled send.\<close>

definition write_row ::
    "accept_env \<Rightarrow> accept_clock \<Rightarrow> accept_auth \<Rightarrow> accept_opts \<Rightarrow> accept_payload \<Rightarrow> accept_ask \<Rightarrow> accept_state option \<Rightarrow> bool
     \<Rightarrow> string option \<Rightarrow> accept_db \<Rightarrow> (accept_db \<times> hook_batches) option" where
  "write_row env clk auth opts payload q inbox parked parkReason db =
     (let row = mail_of env clk auth payload q inbox parked parkReason; now = ck_now clk;
          db1 = insert_mail row db
      in if \<not> op_completes opts (er_id row) then None
         else
           let (db2, h1) = (case inbox of
                  None \<Rightarrow> (db1, [])
                | Some st \<Rightarrow>
                    (case finishInboxAccept (ae_inbox env) (ae_teamDraw env) (ck_finish clk) (ae_endpoints env) st row
                        (aq_actor q) now (ad_inbox db1) (ad_deliveries db1) of
                       (ib, dls, h) \<Rightarrow> (db1\<lparr>ad_inbox := ib, ad_deliveries := dls\<rparr>, h)));
               (db3, h2) = (case ap_scheduledAt payload of
                  None \<Rightarrow> (db2, [])
                | Some s \<Rightarrow>
                    if now < s then
                      (case enqueueWebhookDeliveries (ae_emailDraw env) (ck_finish clk) (ae_endpoints env) (au_teamId auth)
                          \<lparr>ei_type = ''email.scheduled'', ei_email = \<lparr>ef_emailId = er_id row, ef_from = er_from row,
                             ef_to = er_to row, ef_subject = er_subject row\<rparr>, ei_occurredAt = now, ei_extras = []\<rparr>
                          (ad_deliveries db2) of
                         (dls, h) \<Rightarrow> (db2\<lparr>ad_deliveries := dls\<rparr>, h))
                    else (db2, []))
           in Some (db3, h1 @ h2))"

definition acceptRow ::
    "accept_env \<Rightarrow> accept_clock \<Rightarrow> accept_auth \<Rightarrow> accept_opts \<Rightarrow> accept_payload \<Rightarrow> accept_ask \<Rightarrow> accept_state option
     \<Rightarrow> accept_db \<Rightarrow> (accept_db \<times> row_answer \<times> hook_batches) option" where
  "acceptRow env clk auth opts payload q inbox db =
     (case reserve_row clk auth opts q db of
        None \<Rightarrow> None
      | Some (db1, reserved, dayRefused) \<Rightarrow>
          if \<not> reserved \<and> is_month (aq_quota q) \<and> \<not> dayRefused then Some (db1, RowMonthly, [])
          else if \<not> reserved \<and> (case dayLimit (aq_quota q) of
                 Some limit \<Rightarrow> limit * QUOTA_BACKLOG_DAYS \<le> countParked (mails db1) (au_teamId auth) | None \<Rightarrow> False)
          then Some (db1, RowQuotaFull, [])
          else case park_row env clk auth opts payload q reserved db1 of
            None \<Rightarrow> None
          | Some (db2, Inl answer) \<Rightarrow> Some (db2, answer, [])
          | Some (db2, Inr parkReason) \<Rightarrow>
              let parked = (\<not> reserved \<or> parkReason \<noteq> None) in
              map_option (\<lambda>(db3, hooks). (db3, RowWritten (ae_emailId env) parked parkReason, hooks))
                (write_row env clk auth opts payload q inbox parked parkReason db2))"

definition runAccept ::
    "accept_env \<Rightarrow> accept_clock \<Rightarrow> accept_auth \<Rightarrow> accept_opts \<Rightarrow> accept_payload \<Rightarrow> accept_ask \<Rightarrow> inbox_accept option
     \<Rightarrow> accept_db \<Rightarrow> (accept_db \<times> row_answer \<times> hook_batches) option" where
  "runAccept env clk auth opts payload q accept db =
     (case accept of
        None \<Rightarrow> acceptRow env clk auth opts payload q None db
      | Some ik \<Rightarrow>
          (case beginInboxAccept (ae_inbox env) (ae_threadId env) (au_teamId auth) ik (aq_count q) (ap_subject payload)
              (ap_headers payload) (ck_now clk) (ad_inbox db) of
             None \<Rightarrow> None
           | Some (ib, BeginCap) \<Rightarrow> Some (db\<lparr>ad_inbox := ib\<rparr>, RowInboxCap, [])
           | Some (ib, BeginTeamCap) \<Rightarrow> Some (db\<lparr>ad_inbox := ib\<rparr>, RowTeamCap, [])
           | Some (ib, Begun st) \<Rightarrow>
               map_option (\<lambda>(db', answer, hooks).
                   (case answer of RowWritten _ _ _ \<Rightarrow> db'
                      | _ \<Rightarrow> db'\<lparr>ad_inbox := refundInboxAccept st (ad_inbox db')\<rparr>, answer, hooks))
                 (acceptRow env clk auth opts payload q (Some st) (db\<lparr>ad_inbox := ib\<rparr>))))"

section \<open>The pipeline\<close>

text \<open>Mail only the account-mail path marks as the system's.\<close>

definition allowed_tags :: "accept_auth \<Rightarrow> accept_payload \<Rightarrow> (string \<times> string) list option" where
  "allowed_tags auth payload =
     (case ap_tags payload of
        None \<Rightarrow> None
      | Some tags \<Rightarrow>
          if SYSTEM_MAIL_TAG \<in> fst ` set tags \<and> au_billing auth \<noteq> None
          then Some (filter (\<lambda>(name, _). name \<noteq> SYSTEM_MAIL_TAG) tags) else Some tags)"

text \<open>The suppressed recipients, then with the opt-outs of the topic; \<open>None\<close> for a topic that is gone.\<close>

definition list_suppressed :: "accept_env \<Rightarrow> accept_auth \<Rightarrow> accept_payload \<Rightarrow> accept_db \<Rightarrow> string list" where
  "list_suppressed env auth payload db =
     findSuppressed (ie_text (ae_inbox env)) (ad_suppressions db) (au_teamId auth) (js_set (all_recipients payload))
       (\<not> truthy (ap_topicId payload))"

definition blocked :: "accept_env \<Rightarrow> accept_auth \<Rightarrow> accept_payload \<Rightarrow> accept_db \<Rightarrow> string list option" where
  "blocked env auth payload db =
     (case (if truthy (ap_topicId payload) then ap_topicId payload else None) of
        None \<Rightarrow> Some (list_suppressed env auth payload db)
      | Some topicId \<Rightarrow>
          map_option (\<lambda>optedOut. list_suppressed env auth payload db @ optedOut)
            (findTopicOptOuts (ie_text (ae_inbox env)) (ad_topics db) (au_teamId auth) topicId
               (js_set (all_recipients payload))))"

definition keep :: "string list \<Rightarrow> string list \<Rightarrow> string list" where
  "keep gone xs = filter (\<lambda>r. r \<notin> set gone) xs"

text \<open>The gate, for a payload whose caller has not decided already.\<close>

definition gate_step ::
    "accept_env \<Rightarrow> accept_clock \<Rightarrow> accept_auth \<Rightarrow> inbox_actor \<Rightarrow> accept_payload \<Rightarrow> accept_db
     \<Rightarrow> (accept_db \<times> (gate_refusal + inbox_accept option)) option" where
  "gate_step env clk auth actor payload db =
     (case (ap_inbox payload, au_billing auth) of
        (None, Some billing) \<Rightarrow>
          (case gateGenericSend (ae_inbox env) (ae_sharedInboxDomain env) (ck_gate clk) (au_teamId auth)
              (aa_inboxId (au_key auth)) billing payload actor (ck_now clk) (ad_inbox db) of
             (ib, GThrow) \<Rightarrow> None
           | (ib, GRefused g) \<Rightarrow> Some (db\<lparr>ad_inbox := ib\<rparr>, Inl g)
           | (ib, GOk ik) \<Rightarrow> Some (db\<lparr>ad_inbox := ib\<rparr>, Inr ik))
      | (ik, _) \<Rightarrow> Some (db, Inr ik))"

text \<open>The answer, and the send that is handed to the queue.\<close>

definition answer_of ::
    "accept_env \<Rightarrow> accept_clock \<Rightarrow> accept_opts \<Rightarrow> accept_payload \<Rightarrow> accept_ask \<Rightarrow> row_answer \<Rightarrow> accept_db
     \<Rightarrow> accept_db \<times> accept_result" where
  "answer_of env clk opts payload q answer db =
     (case answer of
        RowQuotaFull \<Rightarrow> (db, QuotaBacklogFull)
      | RowWarmupFull cap waiting \<Rightarrow>
          (db, WarmupBacklogFull (case senderDomain (ap_from payload) of Some d \<Rightarrow> d | None \<Rightarrow> ap_from payload) cap waiting)
      | RowInboxCap \<Rightarrow> (db, InboxCapReached (secondsToNextUtcDay (ck_now clk)))
      | RowTeamCap \<Rightarrow> (db, TeamCapReached (secondsToNextUtcDay (ck_now clk)))
      | RowMonthly \<Rightarrow>
          (db, case aq_quota q of QMonth _ _ _ periodEnd overage _ _ _ \<Rightarrow> MonthlyQuotaExceeded periodEnd overage
                 | _ \<Rightarrow> MonthlyQuotaExceeded (aq_deliveryAt q) False)
      | RowWritten rowId parked parkReason \<Rightarrow>
          (if \<not> op_inTx opts \<and> \<not> parked \<and> ae_enqueueOk env
           then db\<lparr>ad_queue := ad_queue db @ [(rowId, ap_scheduledAt payload)]\<rparr> else db,
           Accepted rowId parked (aq_count q) (utcDay (aq_deliveryAt q)) (aq_deliveryAt q) (aq_quota q)
             (aq_underReview q) parkReason))"

definition handed_on :: "accept_opts \<Rightarrow> hook_batches \<Rightarrow> hook_batches" where
  "handed_on opts hooks = (if op_inTx opts \<and> \<not> op_webhooks opts then [] else hooks)"

definition under_review :: "accept_opts \<Rightarrow> send_refusal option \<Rightarrow> bool" where
  "under_review opts refusal \<longleftrightarrow> op_parkUnderReview opts \<and> refusal = Some (RefSuspended SusReview)"

text \<open>What the transaction of a payload is asked to write, when some recipient is left.\<close>

definition ask_of ::
    "accept_env \<Rightarrow> accept_clock \<Rightarrow> accept_auth \<Rightarrow> accept_payload \<Rightarrow> string list \<Rightarrow> team_quota \<Rightarrow> bool \<Rightarrow> inbox_actor \<Rightarrow> accept_ask" where
  "ask_of env clk auth payload gone quota underReview actor =
     \<lparr>aq_to = keep gone (ap_to payload), aq_cc = map_option (keep gone) (ap_cc payload),
      aq_bcc = map_option (keep gone) (ap_bcc payload), aq_tags = allowed_tags auth payload,
      aq_count = countDistinctRecipients (ie_text (ae_inbox env)) (keep gone (ap_to payload))
        (map_option (keep gone) (ap_cc payload)) (map_option (keep gone) (ap_bcc payload)),
      aq_quota = quota, aq_deliveryAt = quotaChargeAt (ap_scheduledAt payload) (ck_charge clk),
      aq_underReview = underReview, aq_actor = actor\<rparr>"

text \<open>From the gate on.\<close>

definition accept_gated ::
    "accept_env \<Rightarrow> accept_clock \<Rightarrow> accept_auth \<Rightarrow> accept_opts \<Rightarrow> accept_payload \<Rightarrow> bool \<Rightarrow> inbox_actor \<Rightarrow> inbox_accept option
     \<Rightarrow> accept_db \<Rightarrow> (accept_db \<times> accept_result \<times> hook_batches) option" where
  "accept_gated env clk auth opts payload underReview actor ik db =
     (case blocked env auth payload db of
        None \<Rightarrow> None
      | Some gone \<Rightarrow>
          if keep gone (ap_to payload) = [] then
            (if op_recordSuppressed opts \<and> list_all (\<lambda>r. r \<in> set (list_suppressed env auth payload db)) (ap_to payload)
             then (case recordSuppressedAttempt env clk auth payload (allowed_tags auth payload) db of
                     (db', hooks) \<Rightarrow> Some (db', AllSuppressed, hooks))
             else Some (db, AllSuppressed, []))
          else
            (case (case au_billing auth of None \<Rightarrow> Some QNone
                     | Some b \<Rightarrow> teamQuota b (ie_isCloud (ae_inbox env)) (ck_quota clk)) of
               None \<Rightarrow> None
             | Some quota \<Rightarrow>
                 let q = ask_of env clk auth payload gone quota underReview actor
                 in map_option (\<lambda>(db', answer, hooks).
                        case answer_of env clk opts payload q answer db' of
                          (db'', result) \<Rightarrow> (db'', result, handed_on opts hooks))
                      (runAccept env clk auth opts payload q ik db)))"

definition acceptEmail ::
    "accept_env \<Rightarrow> accept_clock \<Rightarrow> accept_auth \<Rightarrow> accept_opts \<Rightarrow> accept_payload \<Rightarrow> accept_db
     \<Rightarrow> (accept_db \<times> accept_result \<times> hook_batches) option" where
  "acceptEmail env clk auth opts payload db =
     (let refusal = (case au_billing auth of None \<Rightarrow> None
            | Some _ \<Rightarrow> sendRefusal (ad_org db) (au_teamId auth) (ck_refusal clk));
          underReview = under_review opts refusal;
          actor = (case op_actor opts of Some a \<Rightarrow> a | None \<Rightarrow> inboxActorFromAuth (au_key auth))
      in case (if underReview then None else refusal) of
        Some r \<Rightarrow> Some (db, TeamRefused r, [])
      | None \<Rightarrow>
          (case exceededSendSize payload of
             Some m \<Rightarrow> Some (db, AttachmentsTooLarge m, [])
           | None \<Rightarrow>
               (case (if op_recipientsChecked opts then [] else ae_undeliverable env (all_recipients payload)) of
                  (_, address, why) # _ \<Rightarrow> Some (db, UndeliverableRecipient address why, [])
                | [] \<Rightarrow>
                    (case gate_step env clk auth actor payload db of
                       None \<Rightarrow> None
                     | Some (db1, Inl g) \<Rightarrow> Some (db1, GateRefused g, [])
                     | Some (db1, Inr ik) \<Rightarrow>
                         accept_gated env clk auth opts payload underReview actor ik db1))))"

section \<open>What an accept charges\<close>

definition same_warm :: "limit_db \<Rightarrow> limit_db \<Rightarrow> bool" where
  "same_warm l l' \<longleftrightarrow> cnt (lb_teamUsage l') = cnt (lb_teamUsage l) \<and> cnt (lb_domainUsage l') = cnt (lb_domainUsage l)"

definition warm_charged :: "warmup_cap option \<Rightarrow> int \<Rightarrow> int \<Rightarrow> limit_db \<Rightarrow> limit_db \<Rightarrow> bool" where
  "warm_charged cap day n l l' \<longleftrightarrow>
     (case cap of
        None \<Rightarrow> l' = l
      | Some c \<Rightarrow> cnt (lb_teamUsage l') = add_at (wc_teamId c, day) n (cnt (lb_teamUsage l))
          \<and> cnt (lb_domainUsage l') = add_at (wc_key c, day) n (cnt (lb_domainUsage l))
          \<and> cnt (lb_teamUsage l') (wc_teamId c, day) \<le> wc_pool c \<and> cnt (lb_domainUsage l') (wc_key c, day) \<le> wc_cap c)"

definition warm_nonneg :: "limit_db \<Rightarrow> bool" where
  "warm_nonneg l \<longleftrightarrow> (\<forall>k. 0 \<le> cnt (lb_domainUsage l) k)"

lemma admitWarmup_charges:
  assumes "admitWarmup owner s isNew team d n t l = (l', r)" "0 < n" "warm_nonneg l"
  shows "if r = None then warm_charged (warmupCap owner s isNew team d t l) (utcDay t) n l l' else same_warm l l'"
proof (cases "warmupCap owner s isNew team d t l")
  case None
  then show ?thesis using assms(1) by (auto simp: admitWarmup_def warm_charged_def)
next
  case (Some c)
  then obtain i where "d = Some i" by (cases d) (auto simp: warmupCap_def)
  then have pool: "wc_cap c \<le> wc_pool c" using warmupCap_pool Some by blast
  obtain l1 res where r: "reserveWarmup c n (utcDay t) l = (l1, res)" by (cases "reserveWarmup c n (utcDay t) l")
  have nn: "0 \<le> cnt (lb_domainUsage l) (wc_key c, utcDay t)" using assms(3) unfolding warm_nonneg_def by blast
  note e = reserveWarmup_exact_lemma [OF assms(2) pool nn r]
  have "admitWarmup owner s isNew team d n t l = (l1, if res = reservation.Reserved then None else Some c)"
    by (cases res) (simp_all add: admitWarmup_def Some r)
  then have "l' = l1" "r = None \<longleftrightarrow> res = reservation.Reserved" using assms(1) by auto
  then show ?thesis using e Some unfolding warm_charged_def same_warm_def by (auto simp: add_at_def)
qed

text \<open>The charge of a send that leaves its transaction unparked.\<close>

definition send_charged :: "accept_env \<Rightarrow> accept_auth \<Rightarrow> ident option \<Rightarrow> team_quota \<Rightarrow> instant \<Rightarrow> int \<Rightarrow> accept_db \<Rightarrow> accept_db \<Rightarrow> bool" where
  "send_charged env auth domainId quota t n db db' \<longleftrightarrow>
     view_of (ad_usage db') = quota_charge quota (au_teamId auth) (utcDay t) t n (view_of (ad_usage db))
     \<and> (case au_billing auth of
          None \<Rightarrow> ad_limit db' = ad_limit db
        | Some _ \<Rightarrow> warm_charged (warmupCap (ae_owner env) (ae_caps env) (ae_isNew env) (au_teamId auth) domainId t (ad_limit db))
            (utcDay t) n (ad_limit db) (ad_limit db'))"

definition nothing_charged :: "accept_db \<Rightarrow> accept_db \<Rightarrow> bool" where
  "nothing_charged db db' \<longleftrightarrow> view_of (ad_usage db') = view_of (ad_usage db) \<and> same_warm (ad_limit db) (ad_limit db')"

lemma same_warm_refl [simp]: "same_warm l l"
  by (simp add: same_warm_def)

lemma charged_cong:
  assumes "ad_usage a = ad_usage a'" "ad_limit a = ad_limit a'" "ad_usage b = ad_usage b'" "ad_limit b = ad_limit b'"
  shows "nothing_charged a b \<longleftrightarrow> nothing_charged a' b'"
    "send_charged env auth d quota t n a b \<longleftrightarrow> send_charged env auth d quota t n a' b'"
  using assms by (simp_all add: nothing_charged_def send_charged_def del: quota_charge.simps split: option.split)

lemma reserve_rowD:
  assumes "reserve_row clk auth opts q db = Some (db1, reserved, dayRefused)"
    and "\<not> op_deferred opts" "0 < aq_count q" "counts_nonneg (ad_usage db)"
  shows "\<exists>u. db1 = db\<lparr>ad_usage := u\<rparr> \<and> view_of u = (if reserved then quota_charge (aq_quota q) (au_teamId auth)
          (utcDay (aq_deliveryAt q)) (aq_deliveryAt q) (aq_count q) (view_of (ad_usage db)) else view_of (ad_usage db))
     \<and> (reserved \<longrightarrow> (\<exists>u'. releaseQuota (au_teamId auth) (aq_count q) (aq_quota q) (Some (utcDay (aq_deliveryAt q)))
            (Some (aq_deliveryAt q)) (ck_finish clk) u = Some u' \<and> view_of u' = view_of (ad_usage db)))"
proof -
  let ?day = "utcDay (aq_deliveryAt q)"
  obtain u r where r: "reserveQuota (au_teamId auth) (aq_count q) (aq_quota q) (Some ?day) (Some (aq_deliveryAt q))
      (ck_finish clk) (ad_usage db) = Some (u, r)" "db1 = db\<lparr>ad_usage := u\<rparr>" "reserved = is_reserved r"
    using assms(1,2) by (auto simp: reserve_row_def)
  have "view_of u = (if reserved then quota_charge (aq_quota q) (au_teamId auth) ?day (aq_deliveryAt q) (aq_count q)
      (view_of (ad_usage db)) else view_of (ad_usage db))"
    using reserveQuota_refines_lemma [OF assms(3,4), of ?day "Some ?day" "ck_finish clk" "aq_deliveryAt q"
        "Some (aq_deliveryAt q)" "au_teamId auth" "aq_quota q"] r(1,3)
    by (auto simp: charge_day_def charge_at_def simp del: quota_charge.simps quota_fits.simps)
  then show ?thesis
    using r release_undoes_reserve_lemma [OF assms(3,4) r(1)] by blast
qed

lemma park_rowD:
  assumes "park_row env clk auth opts payload q reserved db1 = Some (db2, r)"
    and "db1 = db\<lparr>ad_usage := u\<rparr>" "\<not> op_deferred opts" "0 < aq_count q" "warm_nonneg (ad_limit db)"
    and "view_of u = (if reserved then quota_charge (aq_quota q) (au_teamId auth)
          (utcDay (aq_deliveryAt q)) (aq_deliveryAt q) (aq_count q) (view_of (ad_usage db)) else view_of (ad_usage db))"
    and "reserved \<Longrightarrow> \<exists>u'. releaseQuota (au_teamId auth) (aq_count q) (aq_quota q) (Some (utcDay (aq_deliveryAt q)))
            (Some (aq_deliveryAt q)) (ck_finish clk) u = Some u' \<and> view_of u' = view_of (ad_usage db)"
  shows "\<exists>u2 l2. db2 = db\<lparr>ad_usage := u2, ad_limit := l2\<rparr>
    \<and> (if r = Inr None \<and> reserved then send_charged env auth (ap_domainId payload) (aq_quota q) (aq_deliveryAt q) (aq_count q) db db2
       else nothing_charged db db2)
    \<and> (aq_underReview q \<longrightarrow> r = Inl RowQuotaFull \<or> r = Inr (Some ''review''))
    \<and> (\<forall>a b c. r \<noteq> Inl (RowWritten a b c))"
proof (cases "aq_underReview q")
  case True
  let ?rel = "if reserved then releaseQuota (au_teamId auth) (aq_count q) (aq_quota q) (Some (utcDay (aq_deliveryAt q)))
            (Some (aq_deliveryAt q)) (ck_finish clk) u else Some u"
  obtain u' where u': "?rel = Some u'" "view_of u' = view_of (ad_usage db)" using assms(6,7) by (cases reserved) auto
  have "db2 = db\<lparr>ad_usage := u'\<rparr>" "r = Inl RowQuotaFull \<or> r = Inr (Some ''review'')"
    using assms(1,2,3) True u'(1) by (auto simp: park_row_def Let_def split: if_splits)
  then show ?thesis using u'(2) by (intro exI [of _ u'] exI [of _ "ad_limit db"]) (auto simp: nothing_charged_def)
next
  case False
  note nr = this
  show ?thesis
  proof (cases "reserved \<and> au_billing auth \<noteq> None")
    case False
    then have "db2 = db1" "r = Inr None" using assms(1) nr by (auto simp: park_row_def Let_def split: if_splits)
    then show ?thesis using nr False assms(2,6)
      by (intro exI [of _ u] exI [of _ "ad_limit db"]) (auto simp: nothing_charged_def send_charged_def)
  next
    case True
    obtain l' c where a: "admitWarmup (ae_owner env) (ae_caps env) (ae_isNew env) (au_teamId auth) (ap_domainId payload)
        (aq_count q) (aq_deliveryAt q) (ad_limit db) = (l', c)" by fastforce
    note ch = admitWarmup_charges [OF a assms(4,5)]
    obtain u' where u': "releaseQuota (au_teamId auth) (aq_count q) (aq_quota q) (Some (utcDay (aq_deliveryAt q)))
            (Some (aq_deliveryAt q)) (ck_finish clk) u = Some u'" "view_of u' = view_of (ad_usage db)" using assms(7) True by blast
    show ?thesis
    proof (cases c)
      case None
      then have "db2 = db\<lparr>ad_usage := u, ad_limit := l'\<rparr>" "r = Inr None"
        using assms(1,2,3) nr True a by (auto simp: park_row_def Let_def enforceDomainWarmup_def)
      then show ?thesis using ch None True nr assms(6)
        by (intro exI [of _ u] exI [of _ l']) (auto simp: send_charged_def)
    next
      case (Some cap)
      then have "db2 = db\<lparr>ad_usage := u', ad_limit := l'\<rparr>" "r = Inr (Some ''warmup'') \<or> (\<exists>cap w. r = Inl (RowWarmupFull cap w))"
        using assms(1,2,3) nr True a u'(1) by (auto simp: park_row_def Let_def enforceDomainWarmup_def split: if_splits)
      then show ?thesis using ch Some nr u'(2)
        by (intro exI [of _ u'] exI [of _ l']) (auto simp: nothing_charged_def)
    qed
  qed
qed

text \<open>Writing the row touches no counter, and adds exactly one mail.\<close>

lemma finish_mails [simp]:
  "ix_mails (fst (finishInboxAccept env draw clock eps st email actor now db dls)) = ix_mails db"
  by (simp add: finishInboxAccept_def record_activity_def Let_def split_beta split: option.split)

lemma write_rowD:
  assumes "write_row env clk auth opts payload q inbox parked parkReason db = Some (db', hooks)"
  shows "ad_usage db' = ad_usage db" "ad_limit db' = ad_limit db" "ad_queue db' = ad_queue db" "ad_org db' = ad_org db"
    "ad_suppressions db' = ad_suppressions db" "ad_topics db' = ad_topics db" "ad_events db' = ad_events db"
    "mails db' = mails db @ [mail_of env clk auth payload q inbox parked parkReason]"
    "ix_usage (ad_inbox db') = ix_usage (ad_inbox db)" "ix_shared (ad_inbox db') = ix_shared (ad_inbox db)"
  using assms
  by (auto simp: write_row_def Let_def split_beta mails_def insert_mail_def split: if_splits option.splits)

lemma acceptRowD:
  assumes "acceptRow env clk auth opts payload q inbox db = Some (db', answer, hooks)"
    and "\<not> op_deferred opts" "0 < aq_count q" "counts_nonneg (ad_usage db)" "warm_nonneg (ad_limit db)"
  shows "case answer of
      RowWritten rowId parked parkReason \<Rightarrow>
        (if parked then nothing_charged db db'
         else send_charged env auth (ap_domainId payload) (aq_quota q) (aq_deliveryAt q) (aq_count q) db db')
        \<and> rowId = ae_emailId env \<and> mails db' = mails db @ [mail_of env clk auth payload q inbox parked parkReason]
        \<and> ad_queue db' = ad_queue db \<and> (aq_underReview q \<longrightarrow> parked \<and> parkReason = Some ''review'')
        \<and> ix_usage (ad_inbox db') = ix_usage (ad_inbox db) \<and> ix_shared (ad_inbox db') = ix_shared (ad_inbox db)
    | _ \<Rightarrow> nothing_charged db db' \<and> hooks = [] \<and> (\<exists>u l. db' = db\<lparr>ad_usage := u, ad_limit := l\<rparr>)"
proof -
  obtain db1 reserved dayRefused where r: "reserve_row clk auth opts q db = Some (db1, reserved, dayRefused)"
    using assms(1) by (auto simp: acceptRow_def split: option.splits)
  from reserve_rowD [OF r assms(2-4)] obtain u where u: "db1 = db\<lparr>ad_usage := u\<rparr>"
    "view_of u = (if reserved then quota_charge (aq_quota q) (au_teamId auth)
          (utcDay (aq_deliveryAt q)) (aq_deliveryAt q) (aq_count q) (view_of (ad_usage db)) else view_of (ad_usage db))"
    "reserved \<Longrightarrow> \<exists>u'. releaseQuota (au_teamId auth) (aq_count q) (aq_quota q) (Some (utcDay (aq_deliveryAt q)))
            (Some (aq_deliveryAt q)) (ck_finish clk) u = Some u' \<and> view_of u' = view_of (ad_usage db)" by blast
  let ?early = "\<not> reserved \<and> is_month (aq_quota q) \<and> \<not> dayRefused"
  let ?full = "\<not> reserved \<and> (case dayLimit (aq_quota q) of
                 Some limit \<Rightarrow> limit * QUOTA_BACKLOG_DAYS \<le> countParked (mails db1) (au_teamId auth) | None \<Rightarrow> False)"
  show ?thesis
  proof (cases "?early \<or> ?full")
    case True
    then have e: "db' = db1" "hooks = []" "answer = RowMonthly \<or> answer = RowQuotaFull" "\<not> reserved"
      using assms(1) r by (auto simp: acceptRow_def split: if_splits)
    have n: "nothing_charged db db1" using u(2) e(4) by (simp add: nothing_charged_def u(1))
    have x: "\<exists>v l. db1 = db\<lparr>ad_usage := v, ad_limit := l\<rparr>"
      by (rule exI [of _ u], rule exI [of _ "ad_limit db"]) (simp add: u(1))
    show ?thesis using e(3) by (elim disjE) (simp_all add: n x e(1,2))
  next
    case False
    then have nE: "\<not> ?early" "\<not> ?full" by blast+
    obtain db2 p where p: "park_row env clk auth opts payload q reserved db1 = Some (db2, p)"
      using assms(1) r nE by (auto simp: acceptRow_def split: option.splits)
    from park_rowD [OF p u(1) assms(2,3,5) u(2,3)] obtain u2 l2 where d2: "db2 = db\<lparr>ad_usage := u2, ad_limit := l2\<rparr>"
      "if p = Inr None \<and> reserved then send_charged env auth (ap_domainId payload) (aq_quota q) (aq_deliveryAt q) (aq_count q) db db2
       else nothing_charged db db2" "aq_underReview q \<longrightarrow> p = Inl RowQuotaFull \<or> p = Inr (Some ''review'')"
      "\<forall>a b c. p \<noteq> Inl (RowWritten a b c)" by blast
    show ?thesis
    proof (cases p)
      case (Inl a)
      then have "db' = db2" "answer = a" "hooks = []" using assms(1) r p False by (auto simp: acceptRow_def)
      then show ?thesis using d2 Inl by (cases a) auto
    next
      case (Inr reason)
      define parked where "parked = (\<not> reserved \<or> reason \<noteq> None)"
      have "acceptRow env clk auth opts payload q inbox db =
          map_option (\<lambda>(db3, hooks). (db3, RowWritten (ae_emailId env) parked reason, hooks))
                (write_row env clk auth opts payload q inbox parked reason db2)"
        unfolding acceptRow_def r option.case prod.case if_not_P [OF nE(1)] if_not_P [OF nE(2)] p Inr sum.case Let_def parked_def ..
      then have w: "write_row env clk auth opts payload q inbox parked reason db2 = Some (db', hooks)"
        and a: "answer = RowWritten (ae_emailId env) parked reason" using assms(1) by (auto simp: map_option_case split: option.splits)
      note w' = write_rowD [OF w]
      have "mails db2 = mails db" "ad_queue db2 = ad_queue db" "ad_inbox db2 = ad_inbox db" using d2(1) by (simp_all add: mails_def)
      moreover note charged_cong [OF refl refl w'(1,2), where a = db]
      ultimately show ?thesis using w' a d2(2,3) Inr by (auto simp: parked_def split: if_splits)
    qed
  qed
qed

text \<open>The inbox's part: charged with the row, handed back with a refusal.\<close>

definition inbox_kept :: "inbox_db \<Rightarrow> inbox_db \<Rightarrow> bool" where
  "inbox_kept a b \<longleftrightarrow> same_charges b a \<and> ix_mails b = ix_mails a"

lemma begin_mails [simp]:
  "beginInboxAccept env fresh teamId accept recipients subject headers now db = Some (db', r) \<Longrightarrow> ix_mails db' = ix_mails db"
  by (auto simp: beginInboxAccept_def Let_def chargeSharedRecipients_def charge_inbox_def refundSharedRecipients_def
      split: option.splits if_splits)

lemma refund_mails [simp]: "ix_mails (refundInboxAccept st db) = ix_mails db"
  by (simp add: refundInboxAccept_def refundSharedRecipients_def Let_def)

lemma same_charges_refl [simp]: "same_charges a a"
  by (simp add: same_charges_def)

lemma runAcceptD:
  assumes "runAccept env clk auth opts payload q ik db = Some (db', answer, hooks)"
    and "\<not> op_deferred opts" "0 < aq_count q" "counts_nonneg (ad_usage db)" "warm_nonneg (ad_limit db)"
    and "nonneg_charges (ad_inbox db)" "ae_threadId env \<notin> th_id ` set (ix_threads (ad_inbox db))"
  shows "ad_queue db' = ad_queue db \<and> (case answer of
      RowWritten rowId parked parkReason \<Rightarrow>
        (if parked then nothing_charged db db'
         else send_charged env auth (ap_domainId payload) (aq_quota q) (aq_deliveryAt q) (aq_count q) db db')
        \<and> rowId = ae_emailId env \<and> (\<exists>inbox. mails db' = mails db @ [mail_of env clk auth payload q inbox parked parkReason])
        \<and> (aq_underReview q \<longrightarrow> parked \<and> parkReason = Some ''review'')
    | _ \<Rightarrow> nothing_charged db db' \<and> hooks = [] \<and> inbox_kept (ad_inbox db) (ad_inbox db') \<and> ad_deliveries db' = ad_deliveries db)"
proof (cases ik)
  case None
  then have a: "acceptRow env clk auth opts payload q None db = Some (db', answer, hooks)"
    using assms(1) by (simp add: runAccept_def)
  from acceptRowD [OF this assms(2-5)] show ?thesis by (cases answer) (auto simp: inbox_kept_def)
next
  case (Some k)
  obtain ib r where b: "beginInboxAccept (ae_inbox env) (ae_threadId env) (au_teamId auth) k (aq_count q) (ap_subject payload)
              (ap_headers payload) (ck_now clk) (ad_inbox db) = Some (ib, r)"
    using assms(1) Some by (auto simp: runAccept_def split: option.splits)
  note m = begin_mails [OF b]
  show ?thesis
  proof (cases r)
    case (Begun st)
    note d = begin_begunD [OF b [unfolded Begun]]
    let ?db = "db\<lparr>ad_inbox := ib\<rparr>"
    obtain db1 where a: "acceptRow env clk auth opts payload q (Some st) ?db = Some (db1, answer, hooks)"
      and db': "db' = (case answer of RowWritten _ _ _ \<Rightarrow> db1
                      | _ \<Rightarrow> db1\<lparr>ad_inbox := refundInboxAccept st (ad_inbox db1)\<rparr>)"
      using assms(1) Some b Begun by (auto simp: runAccept_def)
    have pre: "counts_nonneg (ad_usage ?db)" "warm_nonneg (ad_limit ?db)" using assms(4,5) by simp_all
    note A = acceptRowD [OF a assms(2,3) pre]
    have c: "nothing_charged ?db db1 \<longleftrightarrow> nothing_charged db db1"
      "send_charged env auth (ap_domainId payload) (aq_quota q) (aq_deliveryAt q) (aq_count q) ?db db1
       \<longleftrightarrow> send_charged env auth (ap_domainId payload) (aq_quota q) (aq_deliveryAt q) (aq_count q) db db1"
      by (rule charged_cong; simp)+
    have f: "same_charges (refundInboxAccept st ib) (ad_inbox db)"
      using begun_refund [OF d(1) assms(6)] d(6) assms(7) by simp
    show ?thesis
    proof (cases answer)
      case (RowWritten a b c)
      then show ?thesis using A db' c m unfolding mails_def by auto
    qed (use A db' c m f in \<open>auto simp: inbox_kept_def nothing_charged_def\<close>)
  qed (use assms(1) Some b m begin_refused_same [OF b _ assms(6)] in
      \<open>auto simp: runAccept_def nothing_charged_def inbox_kept_def\<close>)
qed

text \<open>The gate changes nothing when it lets a send pass, and only notes a refusal.\<close>

lemma record_activity_frame [simp]:
  "ix_mails (record_activity row actor clock db) = ix_mails db" "ix_usage (record_activity row actor clock db) = ix_usage db"
  "ix_shared (record_activity row actor clock db) = ix_shared db" "ix_threads (record_activity row actor clock db) = ix_threads db"
  by (simp_all add: record_activity_def)

definition gate_ok :: "inbox_db \<Rightarrow> inbox_db \<times> gate_result \<Rightarrow> bool" where
  "gate_ok db r \<longleftrightarrow> ix_mails (fst r) = ix_mails db \<and> ix_usage (fst r) = ix_usage db \<and> ix_shared (fst r) = ix_shared db
     \<and> ix_threads (fst r) = ix_threads db \<and> (\<forall>ik. snd r = GOk ik \<longrightarrow> fst r = db)"

lemma gate_okI:
  "gate_ok db (db, r)" "gate_ok db (record_activity row actor clock db, GRefused g)"
  "gate_ok db a \<Longrightarrow> gate_ok db b \<Longrightarrow> gate_ok db (if c then a else b)"
  "gate_ok db a \<Longrightarrow> (\<And>x. gate_ok db (f x)) \<Longrightarrow> gate_ok db (case e of None \<Rightarrow> a | Some x \<Rightarrow> f x)"
  by (simp_all add: gate_ok_def split: option.split)

lemma gate_okI2:
  "gate_ok db (h e') \<Longrightarrow> gate_ok db (Let e' h)"
  "(\<And>x y. gate_ok db (g x y)) \<Longrightarrow> gate_ok db (case p of (x, y) \<Rightarrow> g x y)"
  "(\<And>x y z. gate_ok db (s x y z)) \<Longrightarrow> (\<And>x. gate_ok db (d x)) \<Longrightarrow> (\<And>u v w x y. gate_ok db (r u v w x y))
     \<Longrightarrow> gate_ok db (case dec of DSend x y z \<Rightarrow> s x y z | DDraft x \<Rightarrow> d x | DRefuse u v w x y \<Rightarrow> r u v w x y)"
  by (simp add: Let_def, cases p, simp, cases dec, simp_all)

lemma gate_frame: "gate_ok db (gateGenericSend env sd clock teamId key billing payload actor now db)"
  unfolding gateGenericSend_def by (intro gate_okI gate_okI2)

lemma gate_stepD:
  assumes "gate_step env clk auth actor payload db = Some (db1, r)"
  shows "\<exists>ib. db1 = db\<lparr>ad_inbox := ib\<rparr> \<and> ix_mails ib = ix_mails (ad_inbox db) \<and> ix_usage ib = ix_usage (ad_inbox db)
      \<and> ix_shared ib = ix_shared (ad_inbox db) \<and> ix_threads ib = ix_threads (ad_inbox db)"
    "r = Inr ik \<Longrightarrow> db1 = db"
proof -
  have "(\<exists>ib. db1 = db\<lparr>ad_inbox := ib\<rparr> \<and> ix_mails ib = ix_mails (ad_inbox db) \<and> ix_usage ib = ix_usage (ad_inbox db)
      \<and> ix_shared ib = ix_shared (ad_inbox db) \<and> ix_threads ib = ix_threads (ad_inbox db)) \<and> (r = Inr ik \<longrightarrow> db1 = db)"
  proof (cases "ap_inbox payload = None \<and> au_billing auth \<noteq> None")
    case True
    then obtain billing where b: "ap_inbox payload = None" "au_billing auth = Some billing" by auto
    obtain ib g where g: "gateGenericSend (ae_inbox env) (ae_sharedInboxDomain env) (ck_gate clk) (au_teamId auth)
              (aa_inboxId (au_key auth)) billing payload actor (ck_now clk) (ad_inbox db) = (ib, g)" by fastforce
    have f: "gate_ok (ad_inbox db) (ib, g)" unfolding g [symmetric] by (rule gate_frame)
    have "db1 = db\<lparr>ad_inbox := ib\<rparr>" "r = Inr ik \<longrightarrow> g = GOk ik"
      using assms b g by (auto simp: gate_step_def split: gate_result.splits)
    then show ?thesis using f by (auto simp: gate_ok_def)
  next
    case False
    then have "db1 = db" using assms by (auto simp: gate_step_def split: option.splits)
    then show ?thesis by (auto intro: exI [of _ "ad_inbox db"])
  qed
  then show "\<exists>ib. db1 = db\<lparr>ad_inbox := ib\<rparr> \<and> ix_mails ib = ix_mails (ad_inbox db) \<and> ix_usage ib = ix_usage (ad_inbox db)
      \<and> ix_shared ib = ix_shared (ad_inbox db) \<and> ix_threads ib = ix_threads (ad_inbox db)" "r = Inr ik \<Longrightarrow> db1 = db" by blast+
qed

lemma ask_of_count: "keep gone (ap_to payload) \<noteq> [] \<Longrightarrow> 0 < aq_count (ask_of env clk auth payload gone quota ur actor)"
  by (cases "keep gone (ap_to payload)")
    (auto simp: ask_of_def countDistinctRecipients_def js_set_def)

text \<open>An accept either stops before the transaction, with every count and row as it was, or runs it.\<close>

lemma either_SomeD:
  "(if c \<and> e then Some (d, a, h) else Some (db, a, [])) = Some (db', r, hooks) \<Longrightarrow> r = a \<and> (db' = db \<or> (c \<and> db' = d))"
  by (simp split: if_splits)

lemma map_answer_SomeD:
  "map_option (\<lambda>(db', answer, hooks). case f answer db' of (db'', result) \<Rightarrow> (db'', result, g hooks)) x = Some (d, r, h)
     \<Longrightarrow> \<exists>db2 answer hs. x = Some (db2, answer, hs) \<and> f answer db2 = (d, r)"
  by (cases x) (auto split: prod.splits)

lemma accept_gated_cases:
  assumes "accept_gated env clk auth opts payload ur actor ik db = Some (db', result, hooks)"
  obtains (gone) gone where "blocked env auth payload db = Some gone" "keep gone (ap_to payload) = []" "result = AllSuppressed"
      "db' = db \<or> (op_recordSuppressed opts \<and> db' = fst (recordSuppressedAttempt env clk auth payload (allowed_tags auth payload) db))"
  | (ran) gone quota db2 answer hs where "blocked env auth payload db = Some gone" "keep gone (ap_to payload) \<noteq> []"
      "au_billing auth = None \<Longrightarrow> quota = QNone"
      "\<And>b. au_billing auth = Some b \<Longrightarrow> teamQuota b (ie_isCloud (ae_inbox env)) (ck_quota clk) = Some quota"
      "runAccept env clk auth opts payload (ask_of env clk auth payload gone quota ur actor) ik db = Some (db2, answer, hs)"
      "answer_of env clk opts payload (ask_of env clk auth payload gone quota ur actor) answer db2 = (db', result)"
proof (cases "blocked env auth payload db")
  case None
  then show ?thesis using assms by (simp add: accept_gated_def)
next
  case g: (Some gone')
  note A = assms [unfolded accept_gated_def g option.case]
  show thesis
  proof (cases "keep gone' (ap_to payload) = []")
    case True
    let ?r = "recordSuppressedAttempt env clk auth payload (allowed_tags auth payload) db"
    obtain d h where r: "?r = (d, h)" by (cases ?r)
    note B = A [unfolded if_P [OF True] r prod.case]
    have "result = AllSuppressed \<and> (db' = db \<or> (op_recordSuppressed opts \<and> db' = fst ?r))"
      unfolding r fst_conv using either_SomeD [OF B] by blast
    then have "result = AllSuppressed" "db' = db \<or> (op_recordSuppressed opts \<and> db' = fst ?r)" by blast+
    then show ?thesis by (rule gone [OF g True])
  next
    case False
    note B = A [unfolded if_not_P [OF False] Let_def]
    define Q where "Q = (case au_billing auth of None \<Rightarrow> Some QNone
           | Some b \<Rightarrow> teamQuota b (ie_isCloud (ae_inbox env)) (ck_quota clk))"
    show ?thesis
    proof (cases Q)
      case None
      then show ?thesis using B by (simp flip: Q_def)
    next
      case (Some quota)
      note C = B [folded Q_def, unfolded Some option.case]
      let ?q = "ask_of env clk auth payload gone' quota ur actor"
      obtain db2 answer hs where r: "runAccept env clk auth opts payload ?q ik db = Some (db2, answer, hs)"
        "answer_of env clk opts payload ?q answer db2 = (db', result)"
        using map_answer_SomeD [OF C] by blast
      then show ?thesis using Some unfolding Q_def by (intro ran [OF g False _ _ r]) auto
    qed
  qed
qed

definition refusal_of :: "accept_clock \<Rightarrow> accept_auth \<Rightarrow> accept_db \<Rightarrow> send_refusal option" where
  "refusal_of clk auth db =
     (case au_billing auth of None \<Rightarrow> None | Some _ \<Rightarrow> sendRefusal (ad_org db) (au_teamId auth) (ck_refusal clk))"

lemma acceptEmail_cases:
  assumes "acceptEmail env clk auth opts payload db = Some (db', result, hooks)"
  obtains (early) "db' = db" "\<And>a b c d e f g h. result \<noteq> Accepted a b c d e f g h" "result \<noteq> AllSuppressed"
  | (gated) g actor where "gate_step env clk auth actor payload db = Some (db', Inl g)" "result = GateRefused g"
  | (ran) ik actor where "refusal_of clk auth db = None \<or> under_review opts (refusal_of clk auth db)"
      "accept_gated env clk auth opts payload (under_review opts (refusal_of clk auth db)) actor ik db = Some (db', result, hooks)"
proof -
  let ?ur = "under_review opts (refusal_of clk auth db)"
  define actor where "actor = (case op_actor opts of Some a \<Rightarrow> a | None \<Rightarrow> inboxActorFromAuth (au_key auth))"
  define hit where "hit = (if op_recipientsChecked opts then [] else ae_undeliverable env (all_recipients payload))"
  note A = assms [unfolded acceptEmail_def Let_def, folded refusal_of_def actor_def hit_def]
  show thesis
  proof (cases "if ?ur then None else refusal_of clk auth db")
    case (Some r)
    then show ?thesis using A by (intro early) auto
  next
    case None
    note B = A [unfolded None option.case]
    have ok: "refusal_of clk auth db = None \<or> ?ur" using None by (auto split: if_splits)
    show ?thesis
    proof (cases "exceededSendSize payload \<noteq> None \<or> hit \<noteq> []")
      case True
      then show ?thesis using B by (cases "exceededSendSize payload"; cases hit) (auto intro: early)
    next
      case False
      note C = B [unfolded False [simplified, THEN conjunct1] False [simplified, THEN conjunct2] option.case list.case]
      obtain db1 r where g: "gate_step env clk auth actor payload db = Some (db1, r)"
        using C by (cases "gate_step env clk auth actor payload db") auto
      show ?thesis
      proof (cases r)
        case (Inl e)
        then show ?thesis using C g by (intro gated) auto
      next
        case (Inr ik)
        then have "db1 = db" using gate_stepD(2) [OF g] by simp
        then show ?thesis using C g Inr by (intro ran [OF ok]) auto
      qed
    qed
  qed
qed

lemma accepted_rowD:
  assumes "acceptEmail env clk auth opts payload db = Some (db', Accepted rowId parked n day t quota ur reason, hooks)"
  obtains gone ik db2 hs actor where "blocked env auth payload db = Some gone" "keep gone (ap_to payload) \<noteq> []"
    "refusal_of clk auth db = None \<or> ur" "ur = under_review opts (refusal_of clk auth db)"
    "runAccept env clk auth opts payload (ask_of env clk auth payload gone quota ur actor) ik db
       = Some (db2, RowWritten rowId parked reason, hs)"
    "db' = (if \<not> op_inTx opts \<and> \<not> parked \<and> ae_enqueueOk env
            then db2\<lparr>ad_queue := ad_queue db2 @ [(rowId, ap_scheduledAt payload)]\<rparr> else db2)"
    "n = aq_count (ask_of env clk auth payload gone quota ur actor)" "day = utcDay t"
    "t = quotaChargeAt (ap_scheduledAt payload) (ck_charge clk)" "au_billing auth = None \<Longrightarrow> quota = QNone"
    "\<And>b. au_billing auth = Some b \<Longrightarrow> teamQuota b (ie_isCloud (ae_inbox env)) (ck_quota clk) = Some quota"
  using assms
proof (cases rule: acceptEmail_cases)
  case (ran ik actor)
  note ran_ok = ran(1)
  from ran(2) show ?thesis
  proof (cases rule: accept_gated_cases)
    case (ran gone q2 db2 answer hs)
    note R = this
    have a: "answer = RowWritten rowId parked reason" "quota = q2" "ur = under_review opts (refusal_of clk auth db)"
      "db' = (if \<not> op_inTx opts \<and> \<not> parked \<and> ae_enqueueOk env
            then db2\<lparr>ad_queue := ad_queue db2 @ [(rowId, ap_scheduledAt payload)]\<rparr> else db2)"
      "n = aq_count (ask_of env clk auth payload gone q2 ur actor)" "day = utcDay t"
      "t = quotaChargeAt (ap_scheduledAt payload) (ck_charge clk)"
      using R(6) by (cases answer; auto simp: answer_of_def ask_of_def split: team_quota.splits)+
    have ok: "refusal_of clk auth db = None \<or> ur" using ran_ok a(3) by simp
    have run: "runAccept env clk auth opts payload (ask_of env clk auth payload gone quota ur actor) ik db
       = Some (db2, RowWritten rowId parked reason, hs)" using R(5) a(1,2,3) by simp
    show ?thesis by (rule that [OF R(1,2) ok a(3) run a(4) a(5) [folded a(2)] a(6,7)]) (use R(3,4) a(2) in simp_all)
  qed simp
next
  case early
  from early(2) show ?thesis by blast
next
  case gated
  then show ?thesis by simp
qed

lemma entries_some_list [simp]: "entries (some_list xs) = entries xs"
  by (cases xs) (auto simp: some_list_def entries_def)

lemma entries_map [simp]: "entries (map_option (keep gone) xs) = keep gone (entries xs)"
  by (cases xs) (auto simp: entries_def keep_def)

lemma mail_of_simps [simp]:
  "er_id (mail_of env clk auth payload q inbox parked reason) = ae_emailId env"
  "er_teamId (mail_of env clk auth payload q inbox parked reason) = au_teamId auth"
  "er_from (mail_of env clk auth payload q inbox parked reason) = ap_from payload"
  "er_to (mail_of env clk auth payload q inbox parked reason) = aq_to q"
  "ma_cc (mail_of env clk auth payload q inbox parked reason) = some_list (aq_cc q)"
  "ma_bcc (mail_of env clk auth payload q inbox parked reason) = some_list (aq_bcc q)"
  "ma_tags (mail_of env clk auth payload q inbox parked reason) = aq_tags q"
  "er_latestStatus (mail_of env clk auth payload q inbox parked reason) = (if parked then QueuedQuota else Queued)"
  "er_parkReason (mail_of env clk auth payload q inbox parked reason) = reason"
  by (simp_all add: mail_of_def plain_row_def Let_def)

lemma count_keep:
  "countDistinctRecipients lib to cc bcc = countDistinctRecipients lib to (some_list cc) (some_list bcc)"
  by (simp add: countDistinctRecipients_def)

text \<open>The tables an accept must be able to trust: counts that are not negative, and ids not in use.\<close>

definition accept_ready :: "accept_env \<Rightarrow> accept_db \<Rightarrow> bool" where
  "accept_ready env db \<longleftrightarrow> counts_nonneg (ad_usage db) \<and> warm_nonneg (ad_limit db) \<and> nonneg_charges (ad_inbox db)
     \<and> ae_threadId env \<notin> th_id ` set (ix_threads (ad_inbox db))"

section \<open>A team that writes to two, one of them suppressed\<close>

definition demo_accept_env :: accept_env where
  "demo_accept_env = \<lparr>ae_inbox = demo_inbox_env, ae_caps = demo_caps, ae_owner = id, ae_isNew = (\<lambda>_. False),
     ae_undeliverable = undeliverableRecipients demo_text (\<lambda>_. Some True) (\<lambda>_. None) True,
     ae_sealBody = (\<lambda>_ b. case snd b of Some x \<Rightarrow> x | None \<Rightarrow> []), ae_sealFiles = (\<lambda>_ _. []), ae_sharedInboxDomain = Some ''in.co'',
     ae_endpoints = [], ae_emailId = ''m1'', ae_threadId = ''h9'', ae_recordId = ''m2'', ae_emailDraw = (\<lambda>_. ([], [])),
     ae_teamDraw = (\<lambda>_. ([], [])), ae_recordOk = True, ae_enqueueOk = True\<rparr>"

definition demo_clock :: accept_clock where
  "demo_clock = \<lparr>ck_refusal = 0, ck_now = 1, ck_gate = 2, ck_quota = 3, ck_charge = 4, ck_park = 5, ck_finish = 6\<rparr>"

definition demo_auth :: accept_auth where
  "demo_auth = \<lparr>au_teamId = ''t1'', au_billing = Some (example_rows ''t1''),
     au_key = \<lparr>aa_apiKeyId = Some ''k1'', aa_inboxId = None, aa_userId = None, aa_oauthClientId = None\<rparr>\<rparr>"

definition demo_opts :: accept_opts where
  "demo_opts = \<lparr>op_completes = (\<lambda>_. True), op_inTx = False, op_deferred = False, op_parkUnderReview = True,
     op_recordSuppressed = True, op_actor = None, op_recipientsChecked = False, op_webhooks = False\<rparr>"

definition demo_payload :: "string list \<Rightarrow> accept_payload" where
  "demo_payload to = \<lparr>ap_from = ''me@my.co'', ap_to = to, ap_cc = None, ap_bcc = None, ap_replyTo = None, ap_subject = ''Hi'',
     ap_html = None, ap_text = Some ''Hello'', ap_tags = Some [(SYSTEM_MAIL_TAG, ''x'')], ap_headers = None, ap_attachments = None,
     ap_scheduledAt = None, ap_domainId = None, ap_topicId = None, ap_inbox = None\<rparr>"

definition demo_accept_db :: accept_db where
  "demo_accept_db = \<lparr>ad_org = \<lparr>og_teams = Map.empty, og_counters = [], og_pool = [], og_emails = [], og_members = [], og_users = [],
       og_signups = [], og_contacts = [], og_activity = [], og_audit = [], og_flags = []\<rparr>,
     ad_usage = empty_usage, ad_limit = demo_limit, ad_inbox = demo_inboxes,
     ad_suppressions = [demo_suppression (hashRecipient demo_text ''bob@x.co'') HardBounce],
     ad_topics = \<lparr>td_topics = [], td_subs = [], td_contacts = [], td_broadcasts = [], td_mails = []\<rparr>,
     ad_events = [], ad_deliveries = [], ad_queue = []\<rparr>"

definition demo_send :: "string list \<Rightarrow> (accept_db \<times> accept_result \<times> hook_batches) option" where
  "demo_send to = acceptEmail demo_accept_env demo_clock demo_auth demo_opts (demo_payload to) demo_accept_db"

lemma demo_ready: "accept_ready demo_accept_env demo_accept_db"
  by (simp add: accept_ready_def demo_accept_db_def demo_accept_env_def warm_nonneg_def demo_limit_def nonneg_charges_def
      nonneg_table_def usage_of_def demo_inboxes_def)

definition demo_to :: "string list" where "demo_to = [''bob@x.co'', ''ann@z.co'']"

lemma demo_passes:
  "sendRefusal (ad_org demo_accept_db) ''t1'' 0 = None"
  "exceededSendSize (demo_payload demo_to) = None" "exceededSendSize (demo_payload [''bob@x.co'']) = None"
  "ae_undeliverable demo_accept_env demo_to = []" "ae_undeliverable demo_accept_env [''bob@x.co''] = []"
  "gate_inbox demo_inbox_env demo_inboxes ''t1'' (map_option fst (parseSingleSender ''me@my.co'')) 1 = None"
  "isSharedInboxSender ''me@my.co'' (Some ''in.co'') = False"
  by code_simp+

lemma demo_gate:
  "gate_step demo_accept_env demo_clock demo_auth actor (demo_payload to) demo_accept_db = Some (demo_accept_db, Inr None)"
  using demo_passes(6,7)
  by (simp add: gate_step_def gateGenericSend_def demo_payload_def demo_auth_def demo_accept_env_def demo_clock_def
      demo_accept_db_def truthy_def)

lemma demo_blocked:
  "blocked demo_accept_env demo_auth (demo_payload demo_to) demo_accept_db = Some [''bob@x.co'']"
  "blocked demo_accept_env demo_auth (demo_payload [''bob@x.co'']) demo_accept_db = Some [''bob@x.co'']"
  by code_simp+

definition demo_ask :: accept_ask where
  "demo_ask = ask_of demo_accept_env demo_clock demo_auth (demo_payload demo_to) [''bob@x.co''] example_free_quota False
     (inboxActorFromAuth (au_key demo_auth))"

lemma demo_runs:
  "map_option (\<lambda>(d, a, h). a) (runAccept demo_accept_env demo_clock demo_auth demo_opts (demo_payload demo_to) demo_ask None
     demo_accept_db) = Some (RowWritten ''m1'' False None)"
  by code_simp

lemma demo_ask_sel [simp]: "aq_count demo_ask = 1" "aq_quota demo_ask = example_free_quota" "aq_deliveryAt demo_ask = 4"
  "aq_underReview demo_ask = False"
  by code_simp+

lemma demo_no_refusal: "refusal_of demo_clock demo_auth demo_accept_db = None"
  using demo_passes(1) by (simp add: refusal_of_def demo_auth_def demo_clock_def)

lemma demo_accept_is:
  assumes "exceededSendSize (demo_payload to) = None" "ae_undeliverable demo_accept_env to = []"
  shows "acceptEmail demo_accept_env demo_clock demo_auth demo_opts (demo_payload to) demo_accept_db =
     accept_gated demo_accept_env demo_clock demo_auth demo_opts (demo_payload to) False
       (inboxActorFromAuth (au_key demo_auth)) None demo_accept_db"
proof -
  have r: "all_recipients (demo_payload to) = to" by (simp add: all_recipients_def demo_payload_def entries_def)
  have o: "op_actor demo_opts = None" "op_recipientsChecked demo_opts = False" by (simp_all add: demo_opts_def)
  show ?thesis
    unfolding acceptEmail_def Let_def refusal_of_def [symmetric] demo_no_refusal r o
    by (simp add: under_review_def assms demo_gate)
qed

lemma demo_accepts:
  obtains db' h where "acceptEmail demo_accept_env demo_clock demo_auth demo_opts (demo_payload demo_to) demo_accept_db
     = Some (db', Accepted ''m1'' False 1 0 4 example_free_quota False None, h)"
proof -
  obtain d h where run: "runAccept demo_accept_env demo_clock demo_auth demo_opts (demo_payload demo_to) demo_ask None demo_accept_db
      = Some (d, RowWritten ''m1'' False None, h)"
    using demo_runs by auto
  have b: "au_billing demo_auth = Some (example_rows ''t1'')" by (simp add: demo_auth_def)
  have q: "teamQuota (example_rows ''t1'') (ie_isCloud (ae_inbox demo_accept_env)) (ck_quota demo_clock) = Some example_free_quota"
    by code_simp
  have k: "keep [''bob@x.co''] (ap_to (demo_payload demo_to)) \<noteq> []" by code_simp
  have u: "utcDay 4 = 0" by code_simp
  have "\<exists>db' h. accept_gated demo_accept_env demo_clock demo_auth demo_opts (demo_payload demo_to) False
       (inboxActorFromAuth (au_key demo_auth)) None demo_accept_db
     = Some (db', Accepted ''m1'' False 1 0 4 example_free_quota False None, h)"
    unfolding accept_gated_def demo_blocked option.case if_not_P [OF k] b q Let_def demo_ask_def [symmetric] run
    by (simp add: answer_of_def u)
  then show thesis using that demo_accept_is [OF demo_passes(2,4)] by auto
qed

lemma demo_refuses:
  obtains db' h where "acceptEmail demo_accept_env demo_clock demo_auth demo_opts (demo_payload [''bob@x.co'']) demo_accept_db
     = Some (db', AllSuppressed, h)"
proof -
  have k: "keep [''bob@x.co''] (ap_to (demo_payload [''bob@x.co''])) = []" by code_simp
  have "\<exists>db' h. accept_gated demo_accept_env demo_clock demo_auth demo_opts (demo_payload [''bob@x.co'']) False
       (inboxActorFromAuth (au_key demo_auth)) None demo_accept_db = Some (db', AllSuppressed, h)"
    unfolding accept_gated_def demo_blocked option.case if_P [OF k]
    by (cases "recordSuppressedAttempt demo_accept_env demo_clock demo_auth (demo_payload [''bob@x.co''])
         (allowed_tags demo_auth (demo_payload [''bob@x.co''])) demo_accept_db") auto
  then show thesis using that demo_accept_is [OF demo_passes(3,5)] by auto
qed

section \<open>Properties\<close>

text \<open>
  C32: what an accepted send is charged. Exactly one row is written, for the distinct mailboxes it reaches. If
  it goes out, the team's quota rises by their number on the day of delivery, and so do the limits of a new
  domain, within their caps; the send is queued once. If it parks, no count moves at all and nothing is queued.
\<close>

theorem accept_charges_exactly:
  assumes "acceptEmail env clk auth opts payload db = Some (db', Accepted rowId parked n day t quota ur reason, hooks)"
    and "\<not> op_deferred opts" "accept_ready env db"
  shows "(if parked then nothing_charged db db' else send_charged env auth (ap_domainId payload) quota t n db db')
    \<and> 0 < n \<and> day = utcDay t
    \<and> (\<exists>row. mails db' = mails db @ [row] \<and> er_id row = rowId \<and> er_teamId row = au_teamId auth
        \<and> er_latestStatus row = (if parked then QueuedQuota else Queued)
        \<and> n = countDistinctRecipients (ie_text (ae_inbox env)) (er_to row) (ma_cc row) (ma_bcc row))
    \<and> ad_queue db' = ad_queue db
        @ (if parked \<or> op_inTx opts \<or> \<not> ae_enqueueOk env then [] else [(rowId, ap_scheduledAt payload)])"
proof -
  from assms(1) show ?thesis
  proof (cases rule: accepted_rowD)
    case (1 gone ik db2 hs actor)
    let ?q = "ask_of env clk auth payload gone quota ur actor"
    have n: "0 < aq_count ?q" using ask_of_count 1(2) by blast
    have pre: "counts_nonneg (ad_usage db)" "warm_nonneg (ad_limit db)" "nonneg_charges (ad_inbox db)"
      "ae_threadId env \<notin> th_id ` set (ix_threads (ad_inbox db))" using assms(3) by (simp_all add: accept_ready_def)
    note R = runAcceptD [OF 1(5) assms(2) n pre]
    have q: "aq_quota ?q = quota" "aq_deliveryAt ?q = t" using 1(9) by (simp_all add: ask_of_def)
    have "(if parked then nothing_charged db db2 else send_charged env auth (ap_domainId payload) quota t n db db2)"
      using R unfolding q 1(7) [symmetric] row_answer.case by blast
    moreover have "ad_usage db' = ad_usage db2" "ad_limit db' = ad_limit db2" "mails db' = mails db2" using 1(6) by (simp_all add: mails_def)
    moreover have "n = countDistinctRecipients (ie_text (ae_inbox env)) (aq_to ?q) (some_list (aq_cc ?q)) (some_list (aq_bcc ?q))"
      unfolding count_keep [symmetric] 1(7) by (simp add: ask_of_def)
    ultimately show ?thesis using R n 1(6,7,8) charged_cong [of db db db' db2] by auto
  qed
qed

theorem accept_charges_exactly_witness:
  "\<exists>db' h. acceptEmail demo_accept_env demo_clock demo_auth demo_opts (demo_payload demo_to) demo_accept_db
       = Some (db', Accepted ''m1'' False 1 0 4 example_free_quota False None, h)
     \<and> cnt (ud_counters (ad_usage db')) (''t1'', 0) = 1 \<and> ad_queue db' = [(''m1'', None)]"
proof -
  obtain db' h where a: "acceptEmail demo_accept_env demo_clock demo_auth demo_opts (demo_payload demo_to) demo_accept_db
     = Some (db', Accepted ''m1'' False 1 0 4 example_free_quota False None, h)" by (rule demo_accepts)
  have o: "\<not> op_deferred demo_opts" "op_inTx demo_opts = False" "ae_enqueueOk demo_accept_env" "au_teamId demo_auth = ''t1''"
    "ad_queue demo_accept_db = []" "ad_usage demo_accept_db = empty_usage" "ap_scheduledAt (demo_payload demo_to) = None"
    by (simp_all add: demo_opts_def demo_accept_env_def demo_auth_def demo_accept_db_def demo_payload_def)
  have u: "utcDay 4 = 0" by code_simp
  note P = accept_charges_exactly [OF a o(1) demo_ready, unfolded if_False send_charged_def]
  have "view_of (ad_usage db') = quota_charge example_free_quota ''t1'' 0 4 1 (view_of empty_usage)"
    using P [THEN conjunct1, THEN conjunct1] unfolding o(4,6) u .
  then have "v_day (view_of (ad_usage db')) (''t1'', 0) = 1" by (simp add: add_at_def del: view_of_sel)
  then have "cnt (ud_counters (ad_usage db')) (''t1'', 0) = 1" by simp
  moreover have "ad_queue db' = [(''m1'', None)]" using P o by simp
  ultimately show ?thesis using a by blast
qed





end
