(* ===== verification/SendEmail.thy ===== *)
theory SendEmail
  imports RecipientDomains InboxPolicy TeamStanding DomainStatus
begin

text \<open>
  \<open>apps/worker/src/handlers/send-email.ts\<close>: one queued email through SES. A job is a lane; a lane is at a
  phase, and a phase is what the handler does between two moments at which other jobs can run: one read, one
  guarded statement, one transaction or one call. The order of the phases is the order of the handler.
  What SES, the decryption, the screening, the Free fuse and the SES quota gate answer comes with each step
  (\<open>send_ask\<close>), and so does whether the step's call to the database throws. The bodies are kept as HTML and text;
  the tracking rewrite and the token of an unsubscribe link are functions of \<open>send_deps\<close>.
\<close>

section \<open>Tables\<close>

record send_row = mail_row +
  sw_broadcastId :: "ident option"
  sw_freeBurstAt :: "instant option"
  sw_createdAt :: instant

datatype broadcast_status = BcDraft | BcScheduled | BcSending | BcSent | BcCanceled

record send_broadcast =
  bc_id :: ident
  bc_teamId :: ident
  bc_topicId :: "ident option"
  bc_status :: broadcast_status

record send_domain =
  do_id :: ident
  do_teamId :: ident
  do_name :: string
  do_status :: domain_status
  do_configurationSet :: "string option"
  do_region :: string
  do_clickTracking :: bool
  do_openTracking :: bool
  do_trackingSubdomain :: "string option"
  do_trackingSubdomainSetAt :: "instant option"
  do_tenantAssociatedAt :: "instant option"
  do_tenantConfigSet :: "string option"

text \<open>
  \<open>sx_sent\<close> holds the columns \<open>sent\<close> and \<open>sent_no_feedback\<close> of \<open>usage_counters\<close>, \<open>sx_tenants\<close> the column
  \<open>ses_tenant_name\<close> of teams, \<open>sx_jobs\<close> the sends handed to the queue with their due instant and priority.
\<close>

record send_db =
  sx_mails :: "send_row list"
  sx_org :: org_db
  sx_usage :: usage_db
  sx_sent :: "ident \<times> int \<rightharpoonup> int \<times> int"
  sx_suppressions :: "suppression_row list"
  sx_topics :: topic_db
  sx_broadcasts :: "send_broadcast list"
  sx_domains :: "send_domain list"
  sx_tenants :: "ident \<rightharpoonup> string"
  sx_inboxes :: "ident \<rightharpoonup> inbox_kind"
  sx_events :: "event_row list"
  sx_endpoints :: "endpoint list"
  sx_deliveries :: "delivery list"
  sx_codes :: "verification_row list"
  sx_jobs :: "(ident \<times> instant \<times> nat) list"

definition all_to :: "'a mail_row_scheme \<Rightarrow> string list" where
  "all_to e = er_to e @ entries (ma_cc e) @ entries (ma_bcc e)"

definition system_kind :: "'a mail_row_scheme \<Rightarrow> string option" where
  "system_kind e = (case ma_tags e of None \<Rightarrow> None | Some tags \<Rightarrow> map_of tags SYSTEM_MAIL_TAG)"

definition EMAIL_SEND_PRIORITY_transactional :: nat where "EMAIL_SEND_PRIORITY_transactional = 1"
definition EMAIL_SEND_PRIORITY_bulk :: nat where "EMAIL_SEND_PRIORITY_bulk = 0"

definition emailSendPriority :: "send_row \<Rightarrow> nat" where
  "emailSendPriority email =
     (if sw_broadcastId email \<noteq> None then EMAIL_SEND_PRIORITY_bulk else EMAIL_SEND_PRIORITY_transactional)"

definition CREDENTIAL_MAIL_KINDS :: "string list" where
  "CREDENTIAL_MAIL_KINDS =
     [''password_reset'', ''email_verification'', ''invitation'', ''updates.confirm'', ''console_code'']"

definition SHARED_PAUSED_RETRY_MS :: int where "SHARED_PAUSED_RETRY_MS = 5 * 60000"

text \<open>\<open>fetchTeamQuota(db, teamId, true)\<close> on the teams of this state.\<close>

definition cloud_quota :: "send_db \<Rightarrow> ident \<Rightarrow> instant \<Rightarrow> team_quota option option" where
  "cloud_quota db teamId now = map_option (\<lambda>t. teamQuota (ot_row t) True now) (og_teams (sx_org db) teamId)"

section \<open>Eligibility\<close>

datatype eligibility = Eligible (el_topic: "ident option") (el_strip: "string list") | Ineligible (el_reason: string)

text \<open>\<open>None\<close> is the error of a topic that is gone.\<close>

definition checkSendEligibility :: "text_lib \<Rightarrow> send_db \<Rightarrow> send_row \<Rightarrow> eligibility option" where
  "checkSendEligibility lib db email =
     (case ma_contactId email of
        None \<Rightarrow>
          let recipients = all_to email;
              suppressed = findSuppressed lib (sx_suppressions db) (er_teamId email) recipients (ma_topicId email = None)
          in (case (case ma_topicId email of
                      Some t \<Rightarrow> findTopicOptOuts lib (sx_topics db) (er_teamId email) t recipients
                    | None \<Rightarrow> Some []) of
                None \<Rightarrow> None
              | Some optedOut \<Rightarrow>
                  let strip = js_set (suppressed @ optedOut) in
                  if strip = [] then Some (Eligible None [])
                  else if list_all (\<lambda>r. r \<in> set strip) (er_to email)
                  then Some (Ineligible (if list_all (\<lambda>r. r \<in> set suppressed) (er_to email)
                         then ''recipient_suppressed'' else ''topic_unsubscribed''))
                  else Some (Eligible None strip))
      | Some contactId \<Rightarrow>
          Some (case List.find (\<lambda>c. ct_id c = contactId \<and> ct_teamId c = er_teamId email) (td_contacts (sx_topics db)) of
            None \<Rightarrow> Ineligible ''contact_missing''
          | Some contact \<Rightarrow>
              if ct_unsubscribed contact then Ineligible ''contact_unsubscribed''
              else if length (er_to email) \<noteq> 1
                   \<or> hashRecipient lib (hd (er_to email)) \<noteq> hashRecipient lib (ct_email contact)
              then Ineligible ''contact_recipient_mismatch''
              else if findSuppressed lib (sx_suppressions db) (er_teamId email) (er_to email) False \<noteq> []
              then Ineligible ''recipient_suppressed''
              else (case sw_broadcastId email of
                 None \<Rightarrow> Eligible None []
               | Some b \<Rightarrow>
                   (case List.find (\<lambda>x. bc_id x = b \<and> bc_teamId x = er_teamId email) (sx_broadcasts db) of
                      None \<Rightarrow> Ineligible ''broadcast_missing''
                    | Some broadcast \<Rightarrow>
                        if bc_status broadcast = BcCanceled then Ineligible ''broadcast_canceled''
                        else (case bc_topicId broadcast of
                           None \<Rightarrow> Eligible None []
                         | Some t \<Rightarrow>
                             (case List.find (\<lambda>x. tp_id x = t \<and> tp_teamId x = er_teamId email) (td_topics (sx_topics db)) of
                                None \<Rightarrow> Ineligible ''topic_missing''
                              | Some topic \<Rightarrow>
                                  if isSubscribedToTopic (map_option tu_subscribed
                                       (List.find (\<lambda>s. tu_contactId s = contactId \<and> tu_topicId s = t) (td_subs (sx_topics db))))
                                       (tp_defaultSubscribed topic)
                                  then Eligible (Some t) [] else Ineligible ''topic_unsubscribed''))))))"

definition broadcastCanceled :: "send_db \<Rightarrow> ident \<Rightarrow> bool" where
  "broadcastCanceled db b \<longleftrightarrow>
     map_option bc_status (List.find (\<lambda>x. bc_id x = b) (sx_broadcasts db)) = Some BcCanceled"

section \<open>What ends, parks or narrows a row\<close>

definition stored_event :: "email_event \<Rightarrow> event_row" where
  "stored_event e = \<lparr>ev_emailId = ee_emailId e, ev_type = (if ee_type e = Failed then EvFailed else EvSuppressed),
     ev_occurredAt = ee_occurredAt e, ev_snsMessageId = None, ev_bounceType = None,
     ev_data = Some [(''source'', JStr ''worker''), (''reason'', JStr (ee_reason e))]\<rparr>"

definition ended_event :: "webhook_event \<Rightarrow> email_event_in" where
  "ended_event w = \<lparr>ei_type = ''email.'' @ status_name (we_type w),
     ei_email = \<lparr>ef_emailId = we_emailId w, ef_from = we_from w, ef_to = we_to w, ef_subject = we_subject w\<rparr>,
     ei_occurredAt = we_occurredAt w,
     ei_extras = (if we_type w = Failed then failedEmailExtras (we_reason w) else suppressedEmailExtras (we_reason w))\<rparr>"

text \<open>\<open>endQueuedEmails\<close> in its transaction; the ids of the delivery rows are drawn team by team.\<close>

definition end_queued ::
    "(ident \<Rightarrow> nat \<Rightarrow> ident \<times> ident) \<Rightarrow> end_status \<Rightarrow> (send_row \<Rightarrow> bool) \<Rightarrow> string \<Rightarrow> instant \<Rightarrow> send_db
     \<Rightarrow> send_db \<times> nat" where
  "end_queued draw status guard reason now db =
     (case endQueuedEmails status guard reason now (sx_mails db) of (mails, events, byTeam, n) \<Rightarrow>
       (db\<lparr>sx_mails := mails, sx_events := sx_events db @ map stored_event events,
           sx_deliveries := fold (\<lambda>(teamId, ws) dls.
             fst (enqueueEmailWebhookEvents (draw teamId) now (sx_endpoints db) teamId (map ended_event ws) dls))
             byTeam (sx_deliveries db)\<rparr>, n))"

definition endQueuedEmail ::
    "(ident \<Rightarrow> nat \<Rightarrow> ident \<times> ident) \<Rightarrow> ident \<Rightarrow> end_status \<Rightarrow> string \<Rightarrow> bool \<Rightarrow> instant \<Rightarrow> send_db \<Rightarrow> send_db \<times> bool" where
  "endQueuedEmail draw emailId status reason claimHeld now db =
     (case end_queued draw status
         (\<lambda>r. er_id r = emailId \<and> er_latestStatus r = Queued \<and> (claimHeld \<or> er_sentAt r = None)) reason now db of
       (db', n) \<Rightarrow> (db', 0 < n))"

definition keep_list :: "string list \<Rightarrow> string list \<Rightarrow> string list" where
  "keep_list strip = filter (\<lambda>r. r \<notin> set strip)"

definition strip_mail :: "string list \<Rightarrow> send_row \<Rightarrow> send_row" where
  "strip_mail strip e = e\<lparr>er_to := keep_list strip (er_to e), ma_cc := map_option (keep_list strip) (ma_cc e),
     ma_bcc := map_option (keep_list strip) (ma_bcc e)\<rparr>"

text \<open>The row takes the lists of the stripped copy \<open>e\<close>.\<close>

definition stripRecipients :: "send_row \<Rightarrow> send_row list \<Rightarrow> send_row list" where
  "stripRecipients e =
     update_rows (\<lambda>r. er_id r = er_id e \<and> er_latestStatus r = Queued)
       (\<lambda>r. r\<lparr>er_to := er_to e, ma_cc := ma_cc e, ma_bcc := ma_bcc e\<rparr>)"

text \<open>\<open>None\<close>: the transaction throws and rolls back. A team that is gone has nothing to hand back to.\<close>

definition give_back :: "ident \<Rightarrow> int \<Rightarrow> instant \<Rightarrow> send_db \<Rightarrow> send_db option" where
  "give_back teamId n now db =
     (case cloud_quota db teamId now of
        None \<Rightarrow> Some db
      | Some None \<Rightarrow> None
      | Some (Some quota) \<Rightarrow>
          map_option (\<lambda>u. db\<lparr>sx_usage := u\<rparr>) (releaseQuota teamId n quota None None now (sx_usage db)))"

definition parkQueued :: "text_lib \<Rightarrow> send_row \<Rightarrow> string option \<Rightarrow> instant \<Rightarrow> send_db \<Rightarrow> send_db option" where
  "parkQueued lib email reason now db =
     (case transitionQueueState (er_id email) QSQueued QSQueuedQuota (sx_mails db) of
        (mails, False) \<Rightarrow> Some db
      | (mails, True) \<Rightarrow>
          let P = (\<lambda>r. er_id r = er_id email);
              f = (\<lambda>r. r\<lparr>er_parkReason := reason, ma_parkedAt := Some now\<rparr>);
              db1 = db\<lparr>sx_mails := update_rows P f mails\<rparr>
          in (case returning P f mails of
                [] \<Rightarrow> Some db1
              | row # _ \<Rightarrow>
                  give_back (er_teamId email) (countDistinctRecipients lib (er_to row) (ma_cc row) (ma_bcc row)) now db1))"

text \<open>The flag: whether the row was still this lane's to cancel.\<close>

definition cancelQueuedEmail :: "send_row \<Rightarrow> instant \<Rightarrow> send_db \<Rightarrow> (send_db \<times> bool) option" where
  "cancelQueuedEmail email now db =
     (let P = (\<lambda>r. er_id r = er_id email \<and> er_latestStatus r = Queued \<and> er_sentAt r = None);
          f = (\<lambda>r. r\<lparr>er_latestStatus := Canceled\<rparr>)
      in if returning P f (sx_mails db) = [] then Some (db, False)
         else map_option (\<lambda>db'. (db', True))
           (give_back (er_teamId email) 1 now (db\<lparr>sx_mails := update_rows P f (sx_mails db)\<rparr>)))"

definition freeBurstSlot :: "text_lib \<Rightarrow> send_row \<Rightarrow> ident \<Rightarrow> instant \<Rightarrow> instant \<Rightarrow> send_db \<Rightarrow> send_db \<times> instant option" where
  "freeBurstSlot lib email ownerId now later db =
     (let n = int (length (complaintReportingRecipients lib (all_to email)));
          fresh = (\<lambda>at'. case at' of Some t \<Rightarrow> now - FREE_BURST_WINDOW_MS < t | None \<Rightarrow> False)
      in if n = 0 then (db, None)
         else if fresh (sw_freeBurstAt email) then (db, sw_freeBurstAt email)
         else (case List.find (\<lambda>r. er_id r = er_id email \<and> er_latestStatus r = Queued \<and> er_sentAt r = None) (sx_mails db) of
            None \<Rightarrow> (db, None)
          | Some row \<Rightarrow>
              if fresh (sw_freeBurstAt row) then (db, sw_freeBurstAt row)
              else (case bookFreeBurst ownerId n later (sx_usage db) of (usage, slot) \<Rightarrow>
                (db\<lparr>sx_usage := usage,
                    sx_mails := update_rows (\<lambda>r. er_id r = er_id email) (\<lambda>r. r\<lparr>sw_freeBurstAt := Some slot\<rparr>) (sx_mails db)\<rparr>,
                 Some slot))))"

section \<open>Errors\<close>

record caught =
  cx_name :: string
  cx_message :: string
  cx_syscall :: bool
  cx_fault :: "string option"
  cx_retryable :: bool
  cx_httpStatus :: "int option"

definition TERMINAL_SES_ERRORS :: "string list" where
  "TERMINAL_SES_ERRORS =
     [''MessageRejected'', ''MailFromDomainNotVerifiedException'', ''AccountSuspendedException'', ''BadRequestException'']"

definition isTransientError :: "caught \<Rightarrow> bool" where
  "isTransientError e \<longleftrightarrow> cx_fault e = Some ''server'' \<or> cx_retryable e
     \<or> 500 \<le> (case cx_httpStatus e of Some n \<Rightarrow> n | None \<Rightarrow> 0) \<or> cx_syscall e
     \<or> cx_name e = ''TimeoutError'' \<or> cx_name e = ''AbortError''"

definition THROTTLE_NAMES :: "string list" where
  "THROTTLE_NAMES = [''TooManyRequestsException'', ''Throttling'', ''ThrottlingException'']"

definition isSesThrottle :: "caught \<Rightarrow> bool" where
  "isSesThrottle e \<longleftrightarrow> cx_name e \<in> set THROTTLE_NAMES"

definition isSesQuotaRefusal :: "caught \<Rightarrow> bool" where
  "isSesQuotaRefusal e \<longleftrightarrow> isSesThrottle e \<and>
     (let m = map lower_ascii (cx_message e) in contains ''daily message quota'' m \<or> contains ''daily sending quota'' m)"

definition TENANT_REFUSAL :: string where "TENANT_REFUSAL = ''Tenant not associated with resources''"

definition isTenantNotAssociated :: "caught \<Rightarrow> bool" where
  "isTenantNotAssociated e \<longleftrightarrow> cx_name e = ''AccessDeniedException'' \<and> starts_with TENANT_REFUSAL (cx_message e)
     \<and> (case drop (length TENANT_REFUSAL) (cx_message e) of [] \<Rightarrow> True | c # _ \<Rightarrow> \<not> is_word c)"

section \<open>The message\<close>

definition isOnboardingSender :: "text_lib \<Rightarrow> string \<Rightarrow> string option \<Rightarrow> bool" where
  "isOnboardingSender lib from' onboardingFrom =
     (case onboardingFrom of
        None \<Rightarrow> False
      | Some o' \<Rightarrow> o' \<noteq> [] \<and>
          (case (parseSingleSender from', parseSingleSender o') of
             (Some (a, _), Some (b, _)) \<Rightarrow> normalizeAddress lib a = normalizeAddress lib b
           | _ \<Rightarrow> False))"

function replaceAll :: "string \<Rightarrow> string \<Rightarrow> string \<Rightarrow> string" where
  "replaceAll token url [] = []"
| "replaceAll token url (c # cs) =
     (if token \<noteq> [] \<and> starts_with token (c # cs) then url @ replaceAll token url (drop (length token) (c # cs))
      else c # replaceAll token url cs)"
  by pat_completeness auto
termination by (relation "measure (\<lambda>(_, _, s). length s)") (auto simp: neq_Nil_conv)

definition UNSUBSCRIBE_URL_TOKENS :: "string list" where
  "UNSUBSCRIBE_URL_TOKENS = [''{{{UNSUBSCRIBE_URL}}}'', ''{{{RESEND_UNSUBSCRIBE_URL}}}'']"

definition substituteUnsubscribeUrl :: "string \<Rightarrow> string \<Rightarrow> string" where
  "substituteUnsubscribeUrl content url = foldl (\<lambda>out token. replaceAll token url out) content UNSUBSCRIBE_URL_TOKENS"

text \<open>
  What a deployment wires. The base of the links resolves a path with \<open>wk_resolve\<close> (\<open>new URL\<close>); \<open>wk_token\<close> signs
  contact, topic and email; \<open>wk_rewrite\<close> is \<open>rewriteForTracking\<close> with its secret, given the email, the origin,
  the two switches and the links to leave alone.
\<close>

record tracking_deps =
  tk_defaultBaseUrl :: "string option"
  tk_allowSubdomains :: "bool option"
  tk_requireBrandedHost :: bool

record send_deps =
  wk_lib :: text_lib
  wk_isCloud :: bool
  wk_defaultConfigurationSet :: "string option"
  wk_onboardingEmailFrom :: "string option"
  wk_sharedInboxDomain :: "string option"
  wk_freeBurst :: bool
  wk_sesQuota :: bool
  wk_monitor :: bool
  wk_unsubscribe :: "string option"
  wk_resolve :: "string \<Rightarrow> string \<Rightarrow> string"
  wk_token :: "ident \<Rightarrow> ident option \<Rightarrow> ident \<Rightarrow> string"
  wk_tracking :: "tracking_deps option"
  wk_rewrite :: "send_row \<Rightarrow> string \<Rightarrow> bool \<times> bool \<Rightarrow> string option \<Rightarrow> string \<Rightarrow> string"

definition buildUnsubscribeUrl :: "send_deps \<Rightarrow> string \<Rightarrow> string \<Rightarrow> string" where
  "buildUnsubscribeUrl env baseUrl token =
     wk_resolve env (''unsubscribe/'' @ token) (if ends_with ''/'' baseUrl then baseUrl else baseUrl @ ''/'')"

definition buildUnsubscribeHeaders :: "send_deps \<Rightarrow> string \<Rightarrow> string \<Rightarrow> (string \<times> string) list" where
  "buildUnsubscribeHeaders env baseUrl token =
     [(''List-Unsubscribe'', CHR ''<'' # buildUnsubscribeUrl env baseUrl token @ ''>''),
      (''List-Unsubscribe-Post'', ''List-Unsubscribe=One-Click'')]"

definition hasListUnsubscribe :: "text_lib \<Rightarrow> (string \<times> string) list option \<Rightarrow> bool" where
  "hasListUnsubscribe lib headers \<longleftrightarrow> list_ex (\<lambda>(k, _). tl_lower lib k = ''list-unsubscribe'') (entries headers)"

text \<open>\<open>topicUnsubscribeToken\<close>: only a message to one address, and that of a contact, carries one.\<close>

definition topic_token :: "send_deps \<Rightarrow> send_db \<Rightarrow> send_row \<Rightarrow> string option" where
  "topic_token env db email =
     (case ma_topicId email of
        None \<Rightarrow> None
      | Some topicId \<Rightarrow>
          if ma_contactId email = None \<and> wk_unsubscribe env \<noteq> None
             \<and> length (er_to email) = 1 \<and> entries (ma_cc email) = [] \<and> entries (ma_bcc email) = []
          then let addr = tl_lower (wk_lib env) (extractAddrSpec (hd (er_to email))) in
            map_option (\<lambda>c. wk_token env (ct_id c) (Some topicId) (er_id email))
              (List.find (\<lambda>c. ct_teamId c = er_teamId email \<and> tl_pgLower (wk_lib env) (ct_email c) = addr)
                (td_contacts (sx_topics db)))
          else None)"

definition substituted :: "send_deps \<Rightarrow> send_row \<Rightarrow> string option \<Rightarrow> string option \<Rightarrow> string option" where
  "substituted env email token body =
     (if ma_topicId email \<noteq> None \<and> truthy body
      then map_option (\<lambda>b. substituteUnsubscribeUrl b
             (case (token, wk_unsubscribe env) of
                (Some t, Some baseUrl) \<Rightarrow> if t = [] then [] else buildUnsubscribeUrl env baseUrl t
              | _ \<Rightarrow> [])) body
      else body)"

definition branded_host :: "tracking_deps \<Rightarrow> send_domain option \<Rightarrow> string option" where
  "branded_host t domain =
     (case domain of
        None \<Rightarrow> None
      | Some d \<Rightarrow>
          (case do_trackingSubdomain d of
             None \<Rightarrow> None
           | Some s \<Rightarrow> if s \<noteq> [] \<and> do_trackingSubdomainSetAt d = None \<and> tk_allowSubdomains t \<noteq> Some False
               then Some (''https://'' @ s @ ''.'' @ do_name d) else None))"

definition trackingBaseUrl :: "tracking_deps \<Rightarrow> send_domain option \<Rightarrow> string option" where
  "trackingBaseUrl t domain =
     (case branded_host t domain of
        Some h \<Rightarrow> Some h
      | None \<Rightarrow> if tk_requireBrandedHost t then None else tk_defaultBaseUrl t)"

definition tracks :: "(send_domain \<Rightarrow> bool) \<Rightarrow> send_db \<Rightarrow> send_row \<Rightarrow> send_domain option \<Rightarrow> bool" where
  "tracks switch db email domain \<longleftrightarrow> (case domain of Some d \<Rightarrow> switch d | None \<Rightarrow> False)
     \<and> system_kind email = None \<and> Option.bind (ma_inboxId email) (sx_inboxes db) \<noteq> Some Human"

text \<open>\<open>None\<close>: tracking is on with no host to route it through, and the handler throws.\<close>

definition tracked_html ::
    "send_deps \<Rightarrow> send_db \<Rightarrow> send_row \<Rightarrow> send_domain option \<Rightarrow> string option \<Rightarrow> string option option" where
  "tracked_html env db email domain html =
     (let click = tracks do_clickTracking db email domain; opens = tracks do_openTracking db email domain in
      case wk_tracking env of
        None \<Rightarrow> Some html
      | Some t \<Rightarrow>
          if \<not> truthy html \<or> (\<not> click \<and> \<not> opens) then Some html
          else let base = trackingBaseUrl t domain;
                   skip = (if ma_contactId email \<noteq> None \<or> ma_topicId email \<noteq> None
                     then map_option (\<lambda>b. buildUnsubscribeUrl env b []) (wk_unsubscribe env) else None)
               in
            if truthy base then Some (map_option (wk_rewrite env email (the base) (click, opens) skip) html)
            else if tk_requireBrandedHost t then Some html else None)"

text \<open>The headers given to the composer; \<open>None\<close>: a broadcast row with no unsubscribe configured throws.\<close>

definition send_headers ::
    "send_deps \<Rightarrow> send_row \<Rightarrow> send_domain option \<Rightarrow> ident option \<Rightarrow> string option \<Rightarrow> (string \<times> string) list option" where
  "send_headers env email domain topicId token =
     (let h0 = obj_put ''X-MillionSend-Email-ID'' (er_id email) (entries (ma_headers email));
          bulk = (\<lambda>h. if sw_broadcastId email \<noteq> None \<and> ma_contactId email \<noteq> None
            then obj_put ''Auto-Submitted'' ''auto-generated'' (obj_put ''Precedence'' ''bulk''
              (case domain of
                 Some d \<Rightarrow> if do_name d = [] then h
                   else obj_put ''List-Id'' (tl_lower (wk_lib env) (CHR ''<'' #
                     (case topicId of Some t \<Rightarrow> t | None \<Rightarrow> ''broadcasts'') @ ''.'' @ do_name d @ ''>'')) h
               | None \<Rightarrow> h))
            else h)
      in case ma_contactId email of
           Some c \<Rightarrow>
             map_option (\<lambda>base. bulk (obj_spread h0
               (buildUnsubscribeHeaders env base (wk_token env c topicId (er_id email))))) (wk_unsubscribe env)
         | None \<Rightarrow>
             Some (bulk (case (token, wk_unsubscribe env) of
               (Some t, Some base) \<Rightarrow>
                 if t \<noteq> [] \<and> \<not> hasListUnsubscribe (wk_lib env) (ma_headers email)
                 then obj_spread h0 (buildUnsubscribeHeaders env base t) else h0
             | _ \<Rightarrow> h0)))"

text \<open>What SES is handed.\<close>

record ses_message =
  sm_mail :: send_row
  sm_html :: "string option"
  sm_text :: "string option"
  sm_headers :: "(string \<times> string) list"
  sm_configurationSet :: "string option"
  sm_region :: "string option"
  sm_tenant :: "string option"
  sm_poolOwnerId :: "ident option"

section \<open>Lanes\<close>

datatype send_outcome = Accepted | Skipped | Deferred | SuppressedOut | FailedOut | ParkedOut | CanceledOut

text \<open>
  The phases in the order of the handler. \<open>Park\<close>, \<open>Refuse\<close>, \<open>Fail\<close> and \<open>Requeue\<close> are its early returns, \<open>Close\<close> and
  \<open>Catch\<close> what \<open>sendEmail\<close> does with an outcome or an error of \<open>sendQueued\<close>. \<open>Hand\<close> is the call to SES,
  \<open>HandBare\<close> the one without the tenant.
\<close>

datatype phase =
  Schedule | Standing | Hold | LoadDomain | BroadcastGate | BulkHold | SesRoom | FirstCheck | FirstStrip "string list"
| Sender | SharedSwitch | PoolOwner | Burst | Fuse | Body | Screen | Compose | Tenant | Throttle
| LastCheck | LastStrip "string list" | Claim | Hand | HandBare | Refusal caught | Released caught | Aborted
| Record string | Flip | LogSent | Count | CountHour | CountPool | Purge | Notify
| Park "string option" | Refuse string | Fail string bool | Requeue instant
| Close send_outcome | Catch | Done send_outcome | Threw

record lane =
  la_phase :: phase
  la_mail :: send_row
  la_domain :: "send_domain option"
  la_shared :: "(bool \<times> bool) option"
  la_pool :: "ident option"
  la_topic :: "ident option"
  la_html :: "string option"
  la_text :: "string option"
  la_headers :: "(string \<times> string) list"
  la_tenant :: "string option"
  la_sentAt :: instant

datatype body_answer = BodyRead "string option" "string option" | BodyError caught
datatype screen_answer = ScreenGo | ScreenLinked | ScreenBusy | ScreenWait "instant option" | ScreenPark string

text \<open>The flag of an error: whether SES holds the message all the same.\<close>

datatype ses_answer = SesTook string | SesThrew caught bool

text \<open>
  What a step learns from outside the tables: the clock, read twice where the code does, whether the call
  throws, and the answer of the one service the phase asks. \<open>ak_settings\<close> are the shared switches
  (sending, tenants).
\<close>

record send_ask =
  ak_now :: instant
  ak_later :: instant
  ak_throws :: bool
  ak_exhausted :: bool
  ak_bulkExhausted :: bool
  ak_paused :: bool
  ak_settings :: "(bool \<times> bool) option"
  ak_fuseHolds :: bool
  ak_body :: body_answer
  ak_screen :: screen_answer
  ak_sharedTenant :: "string option"
  ak_ses :: ses_answer
  ak_refresh :: bool
  ak_draw :: "ident \<Rightarrow> nat \<Rightarrow> ident \<times> ident"

definition onboarding :: "send_deps \<Rightarrow> send_row \<Rightarrow> bool" where
  "onboarding env e \<longleftrightarrow> ma_domainId e = None
     \<and> isOnboardingSender (wk_lib env) (er_from e) (wk_onboardingEmailFrom env)"

definition sharedSend :: "send_deps \<Rightarrow> send_row \<Rightarrow> bool" where
  "sharedSend env e \<longleftrightarrow> ma_domainId e = None \<and> \<not> onboarding env e
     \<and> isSharedInboxSender (er_from e) (wk_sharedInboxDomain env)"

definition domain_of :: "send_db \<Rightarrow> send_row \<Rightarrow> send_domain option" where
  "domain_of db e =
     (case ma_domainId e of
        None \<Rightarrow> None
      | Some i \<Rightarrow> List.find (\<lambda>d. do_id d = i \<and> do_teamId d = er_teamId e \<and> og_teams (sx_org db) (do_teamId d) \<noteq> None)
          (sx_domains db))"

definition configuration_set :: "send_deps \<Rightarrow> lane \<Rightarrow> string option" where
  "configuration_set env l =
     (case Option.bind (la_domain l) do_configurationSet of
        Some s \<Rightarrow> Some s | None \<Rightarrow> wk_defaultConfigurationSet env)"

definition tenant_of :: "send_deps \<Rightarrow> send_ask \<Rightarrow> send_db \<Rightarrow> lane \<Rightarrow> string option" where
  "tenant_of env ask db l =
     (case la_domain l of
        Some d \<Rightarrow>
          (if do_tenantAssociatedAt d \<noteq> None \<and> truthy (sx_tenants db (do_teamId d))
              \<and> do_tenantConfigSet d = configuration_set env l
           then sx_tenants db (do_teamId d) else None)
      | None \<Rightarrow>
          (case la_shared l of Some (_, True) \<Rightarrow> ak_sharedTenant ask | _ \<Rightarrow> None))"

definition message_of :: "send_deps \<Rightarrow> lane \<Rightarrow> string option \<Rightarrow> ses_message" where
  "message_of env l tenant = \<lparr>sm_mail = la_mail l, sm_html = la_html l, sm_text = la_text l, sm_headers = la_headers l,
     sm_configurationSet = configuration_set env l, sm_region = map_option do_region (la_domain l),
     sm_tenant = tenant, sm_poolOwnerId = la_pool l\<rparr>"

definition credential :: "'a mail_row_scheme \<Rightarrow> bool" where
  "credential e \<longleftrightarrow> (case system_kind e of Some k \<Rightarrow> k \<in> set CREDENTIAL_MAIL_KINDS | None \<Rightarrow> False)"

definition purgedEmailBodyColumns :: "instant \<Rightarrow> send_row \<Rightarrow> send_row" where
  "purgedEmailBodyColumns now r = r\<lparr>ma_body := None, ma_attachments := None, ma_bodyPurgedAt := Some now\<rparr>"

definition purgeCredential :: "send_row \<Rightarrow> instant \<Rightarrow> send_db \<Rightarrow> send_db" where
  "purgeCredential e now db =
     (if credential e
      then db\<lparr>sx_mails := update_rows (\<lambda>r. er_id r = er_id e) (purgedEmailBodyColumns now) (sx_mails db)\<rparr> else db)"

definition no_feedback :: "text_lib \<Rightarrow> send_row \<Rightarrow> int" where
  "no_feedback lib e = (if sentWithoutComplaintFeedback lib (all_to e) then 1 else 0)"

definition count_sent :: "ident \<times> int \<Rightarrow> int \<Rightarrow> (ident \<times> int \<rightharpoonup> int \<times> int) \<Rightarrow> (ident \<times> int \<rightharpoonup> int \<times> int)" where
  "count_sent k noFeedback m =
     (case upsert k (1, noFeedback) (\<lambda>(s, n). Some (s + 1, n + noFeedback)) m of Some (m', _) \<Rightarrow> m' | None \<Rightarrow> m)"

definition goto :: "phase \<Rightarrow> lane \<Rightarrow> lane" where
  "goto p l = l\<lparr>la_phase := p\<rparr>"

definition requeue :: "lane \<Rightarrow> instant \<Rightarrow> send_db \<Rightarrow> send_db" where
  "requeue l at' db = db\<lparr>sx_jobs := sx_jobs db @ [(er_id (la_mail l), at', emailSendPriority (la_mail l))]\<rparr>"

text \<open>Where the longer phases lead.\<close>

definition standing_next :: "send_db \<Rightarrow> send_row \<Rightarrow> phase" where
  [simp]: "standing_next db e =
     (case fetchTeamStanding (sx_org db) (er_teamId e) of
        None \<Rightarrow> Hold
      | Some s \<Rightarrow>
          if ts_suspended s \<noteq> None
             \<or> (sw_broadcastId e \<noteq> None \<and> ts_broadcastsPausedByOperatorAt s \<noteq> None)
          then Park (if map_option su_reason (ts_suspended s) = Some SusReview then Some ''review'' else None)
          else Hold)"

definition ses_full :: "send_deps \<Rightarrow> send_ask \<Rightarrow> send_row \<Rightarrow> bool" where
  [simp]: "ses_full env ask e \<longleftrightarrow> wk_sesQuota env \<and> (if sw_broadcastId e \<noteq> None
     then ak_paused ask \<or> ak_bulkExhausted ask else ak_exhausted ask)"

definition burst_phase :: "send_deps \<Rightarrow> send_ask \<Rightarrow> send_db \<Rightarrow> lane \<Rightarrow> send_db \<times> lane" where
  [simp]: "burst_phase env ask db l =
     (case la_pool l of
        Some ownerId \<Rightarrow>
          if wk_freeBurst env \<and> ownerId \<noteq> [] \<and> system_kind (la_mail l) = None \<and> \<not> onboarding env (la_mail l)
          then (case freeBurstSlot (wk_lib env) (la_mail l) ownerId (ak_now ask) (ak_later ask) db of (db', slot) \<Rightarrow>
            (db', goto (case slot of
               Some s \<Rightarrow> if ak_later ask < s then Requeue (min s (ak_later ask + FREE_BURST_WINDOW_MS)) else Fuse
             | None \<Rightarrow> Fuse) l))
          else (db, goto Fuse l)
      | None \<Rightarrow> (db, goto Fuse l))"

definition body_phase :: "send_ask \<Rightarrow> lane \<Rightarrow> lane" where
  [simp]: "body_phase ask l =
     (if ma_body (la_mail l) = None then goto (Fail ''body_missing'' False) l
      else (case ak_body ask of
         BodyError e \<Rightarrow> goto (if isTransientError e then Catch else Fail ''body_unreadable'' False) l
       | BodyRead html text \<Rightarrow> l\<lparr>la_html := html, la_text := text, la_phase := Screen\<rparr>))"

definition screen_next :: "send_deps \<Rightarrow> send_ask \<Rightarrow> send_row \<Rightarrow> phase" where
  [simp]: "screen_next env ask e =
     (if wk_monitor env \<and> system_kind e = None \<and> \<not> onboarding env e
      then (case ak_screen ask of
         ScreenGo \<Rightarrow> Compose
       | ScreenLinked \<Rightarrow> if sw_broadcastId e = None then Park (Some ''review'') else Compose
       | ScreenBusy \<Rightarrow> Catch
       | ScreenWait (Some at') \<Rightarrow> Requeue at'
       | ScreenWait None \<Rightarrow> Close Deferred
       | ScreenPark reason \<Rightarrow> Park (Some reason))
      else Compose)"

definition call_ses :: "send_deps \<Rightarrow> send_ask \<Rightarrow> lane \<Rightarrow> string option \<Rightarrow> phase \<times> ses_message list" where
  [simp]: "call_ses env ask l tenant =
     (case ak_ses ask of
        SesTook mid \<Rightarrow> (Record mid, [message_of env l tenant])
      | SesThrew e kept \<Rightarrow>
          (if sharedSend env (la_mail l) \<and> truthy tenant \<and> isTenantNotAssociated e then HandBare
           else if cx_name e = ''AbortError'' then Aborted else Refusal e,
           if kept then [message_of env l tenant] else []))"

definition claim_send :: "send_ask \<Rightarrow> send_db \<Rightarrow> lane \<Rightarrow> send_db \<times> lane" where
  [simp]: "claim_send ask db l =
     (let P = (\<lambda>r. er_id r = er_id (la_mail l) \<and> er_latestStatus r = Queued \<and> er_sentAt r = None);
          f = (\<lambda>r. r\<lparr>er_sentAt := Some (ak_now ask)\<rparr>)
      in (db\<lparr>sx_mails := update_rows P f (sx_mails db)\<rparr>,
          goto (if returning P f (sx_mails db) = [] then Close Skipped else Hand) l))"

definition refused_row :: "send_db \<Rightarrow> lane \<Rightarrow> caught \<Rightarrow> send_db \<times> lane" where
  [simp]: "refused_row db l e =
     (if cx_name e \<in> set TERMINAL_SES_ERRORS then (db, goto (Fail (''ses_'' @ cx_name e) True) l)
      else (db\<lparr>sx_mails := update_rows (\<lambda>r. er_id r = er_id (la_mail l) \<and> er_latestStatus r = Queued)
              (\<lambda>r. r\<lparr>er_sentAt := None\<rparr>) (sx_mails db)\<rparr>, goto (Released e) l))"

definition released_next :: "send_deps \<Rightarrow> send_ask \<Rightarrow> caught \<Rightarrow> phase" where
  [simp]: "released_next env ask e =
     (if isSesQuotaRefusal e \<or> (isSesThrottle e \<and> wk_sesQuota env \<and> ak_refresh ask) then Park None else Catch)"

definition sent_event :: "send_ask \<Rightarrow> send_row \<Rightarrow> event_row" where
  "sent_event ask e = \<lparr>ev_emailId = er_id e, ev_type = EvSent, ev_occurredAt = ak_now ask,
     ev_snsMessageId = None, ev_bounceType = None, ev_data = Some [(''source'', JStr ''worker'')]\<rparr>"

definition count_pool :: "send_deps \<Rightarrow> lane \<Rightarrow> usage_db \<Rightarrow> usage_db" where
  "count_pool env l usage =
     (case la_pool l of
        None \<Rightarrow> usage
      | Some ownerId \<Rightarrow>
          if ownerId = [] then usage
          else bumpFreePoolUsage (\<lambda>_. None) (ByOwner ownerId) (utcDay (la_sentAt l))
                 [PSent \<mapsto> 1, PSentNoFeedback \<mapsto> no_feedback (wk_lib env) (la_mail l)] (la_sentAt l) usage)"

definition notify_sent :: "send_ask \<Rightarrow> send_row \<Rightarrow> send_db \<Rightarrow> delivery list" where
  "notify_sent ask e db =
     fst (enqueueWebhookDeliveries (ak_draw ask (er_teamId e)) (ak_now ask) (sx_endpoints db) (er_teamId e)
       \<lparr>ei_type = ''email.sent'',
        ei_email = \<lparr>ef_emailId = er_id e, ef_from = er_from e, ef_to = er_to e, ef_subject = er_subject e\<rparr>,
        ei_occurredAt = ak_now ask, ei_extras = []\<rparr> (sx_deliveries db))"

text \<open>One phase of \<open>sendQueued\<close>, or of \<open>sendEmail\<close> around it; the messages SES took at this step.\<close>

fun run_phase :: "send_deps \<Rightarrow> send_ask \<Rightarrow> send_db \<Rightarrow> lane \<Rightarrow> phase \<Rightarrow> send_db \<times> lane \<times> ses_message list" where
  "run_phase env ask db l Schedule =
     (db, goto (case ma_scheduledAt (la_mail l) of
        Some at' \<Rightarrow> if ak_now ask < at' then Requeue at' else Standing
      | None \<Rightarrow> Standing) l, [])"
| "run_phase env ask db l Standing = (db, goto (standing_next db (la_mail l)) l, [])"
| "run_phase env ask db l Hold =
     (db, goto (if sw_broadcastId (la_mail l) = None \<and> system_kind (la_mail l) = None
        \<and> deliverabilityHold (sx_org db) (er_teamId (la_mail l)) (ak_now ask) then Park None else LoadDomain) l, [])"
| "run_phase env ask db l LoadDomain =
     (db, l\<lparr>la_domain := domain_of db (la_mail l),
            la_phase := (if sw_broadcastId (la_mail l) \<noteq> None then BroadcastGate else SesRoom)\<rparr>, [])"
| "run_phase env ask db l BroadcastGate =
     (db, goto (if (case sw_broadcastId (la_mail l) of Some b \<Rightarrow> broadcastCanceled db b | None \<Rightarrow> False)
        then Refuse ''broadcast_canceled'' else BulkHold) l, [])"
| "run_phase env ask db l BulkHold =
     (db, goto (if deliverabilityHold (sx_org db) (er_teamId (la_mail l)) (ak_now ask) then Park None else SesRoom) l, [])"
| "run_phase env ask db l SesRoom = (db, goto (if ses_full env ask (la_mail l) then Park None else FirstCheck) l, [])"
| "run_phase env ask db l FirstCheck =
     (db, (case checkSendEligibility (wk_lib env) db (la_mail l) of
        None \<Rightarrow> goto Catch l
      | Some (Ineligible reason) \<Rightarrow> goto (Refuse reason) l
      | Some (Eligible topicId strip) \<Rightarrow>
          l\<lparr>la_topic := topicId, la_phase := (if strip = [] then Sender else FirstStrip strip)\<rparr>), [])"
| "run_phase env ask db l (FirstStrip strip) =
     (db\<lparr>sx_mails := stripRecipients (strip_mail strip (la_mail l)) (sx_mails db)\<rparr>,
      l\<lparr>la_mail := strip_mail strip (la_mail l), la_phase := Sender\<rparr>, [])"
| "run_phase env ask db l Sender =
     (db, goto (if \<not> onboarding env (la_mail l) \<and> \<not> sharedSend env (la_mail l)
          \<and> map_option do_status (la_domain l) \<noteq> Some DomVerified
        then Fail ''domain_not_verified'' False else SharedSwitch) l, [])"
| "run_phase env ask db l SharedSwitch =
     (let settings = (if sharedSend env (la_mail l) then ak_settings ask else None) in
      (db, l\<lparr>la_shared := settings,
             la_phase := (case settings of
                Some (False, _) \<Rightarrow> Requeue (ak_now ask + SHARED_PAUSED_RETRY_MS)
              | _ \<Rightarrow> PoolOwner)\<rparr>, []))"
| "run_phase env ask db l PoolOwner =
     (db, (case cloud_quota db (er_teamId (la_mail l)) (ak_now ask) of
        Some None \<Rightarrow> goto Catch l
      | Some (Some (QDay _ _ _ (Some p))) \<Rightarrow> l\<lparr>la_pool := Some (dp_ownerId p), la_phase := Burst\<rparr>
      | _ \<Rightarrow> l\<lparr>la_pool := None, la_phase := Burst\<rparr>), [])"
| "run_phase env ask db l Burst = (case burst_phase env ask db l of (db', l') \<Rightarrow> (db', l', []))"
| "run_phase env ask db l Fuse =
     (db, goto (if wk_isCloud env \<and> system_kind (la_mail l) = None \<and> \<not> onboarding env (la_mail l) \<and> ak_fuseHolds ask
        then Park (Some ''fuse'') else Body) l, [])"
| "run_phase env ask db l Body = (db, body_phase ask l, [])"
| "run_phase env ask db l Screen = (db, goto (screen_next env ask (la_mail l)) l, [])"
| "run_phase env ask db l Compose =
     (db, (let e = la_mail l; token = topic_token env db e;
               html = substituted env e token (la_html l); text = substituted env e token (la_text l)
           in case (tracked_html env db e (la_domain l) html, send_headers env e (la_domain l) (la_topic l) token) of
                (Some html', Some headers) \<Rightarrow>
                  l\<lparr>la_html := html', la_text := text, la_headers := headers, la_phase := Tenant\<rparr>
              | _ \<Rightarrow> goto Catch l), [])"
| "run_phase env ask db l Tenant = (db, l\<lparr>la_tenant := tenant_of env ask db l, la_phase := Throttle\<rparr>, [])"
| "run_phase env ask db l Throttle = (db, goto LastCheck l, [])"
| "run_phase env ask db l LastCheck =
     (db, goto (case checkSendEligibility (wk_lib env) db (la_mail l) of
        None \<Rightarrow> Catch
      | Some (Ineligible reason) \<Rightarrow> Refuse reason
      | Some (Eligible _ strip) \<Rightarrow> if strip = [] then Claim else LastStrip strip) l, [])"
| "run_phase env ask db l (LastStrip strip) =
     (db\<lparr>sx_mails := stripRecipients (strip_mail strip (la_mail l)) (sx_mails db)\<rparr>,
      l\<lparr>la_mail := strip_mail strip (la_mail l), la_phase := Requeue (ak_now ask)\<rparr>, [])"
| "run_phase env ask db l Claim = (case claim_send ask db l of (db', l') \<Rightarrow> (db', l', []))"
| "run_phase env ask db l Hand = (case call_ses env ask l (la_tenant l) of (p, ms) \<Rightarrow> (db, goto p l, ms))"
| "run_phase env ask db l HandBare = (case call_ses env ask l None of (p, ms) \<Rightarrow> (db, goto p l, ms))"
| "run_phase env ask db l (Refusal e) = (case refused_row db l e of (db', l') \<Rightarrow> (db', l', []))"
| "run_phase env ask db l (Released e) = (db, goto (released_next env ask e) l, [])"
| "run_phase env ask db l Aborted = (purgeCredential (la_mail l) (ak_now ask) db, goto Catch l, [])"
| "run_phase env ask db l (Record mid) =
     (db\<lparr>sx_mails := update_rows (\<lambda>r. er_id r = er_id (la_mail l)) (\<lambda>r. r\<lparr>er_sesMessageId := Some mid\<rparr>) (sx_mails db)\<rparr>,
      goto Flip l, [])"
| "run_phase env ask db l Flip =
     (case applyStatusCas (er_id (la_mail l)) Sent (sx_mails db) of
        None \<Rightarrow> (db, goto Catch l, [])
      | Some (mails, _) \<Rightarrow> (db\<lparr>sx_mails := mails\<rparr>, goto LogSent l, []))"
| "run_phase env ask db l LogSent = (db\<lparr>sx_events := sx_events db @ [sent_event ask (la_mail l)]\<rparr>, goto Count l, [])"
| "run_phase env ask db l Count =
     (db\<lparr>sx_sent := count_sent (er_teamId (la_mail l), utcDay (ak_now ask)) (no_feedback (wk_lib env) (la_mail l)) (sx_sent db)\<rparr>,
      l\<lparr>la_sentAt := ak_now ask, la_phase := CountHour\<rparr>, [])"
| "run_phase env ask db l CountHour =
     (db\<lparr>sx_usage := bumpHourlyUsage (er_teamId (la_mail l)) (la_sentAt l) [USent \<mapsto> 1] (sx_usage db)\<rparr>, goto CountPool l, [])"
| "run_phase env ask db l CountPool = (db\<lparr>sx_usage := count_pool env l (sx_usage db)\<rparr>, goto Purge l, [])"
| "run_phase env ask db l Purge = (purgeCredential (la_mail l) (ak_now ask) db, goto Notify l, [])"
| "run_phase env ask db l Notify = (db\<lparr>sx_deliveries := notify_sent ask (la_mail l) db\<rparr>, goto (Close Accepted) l, [])"
| "run_phase env ask db l (Park reason) =
     (case parkQueued (wk_lib env) (la_mail l) reason (ak_now ask) db of
        None \<Rightarrow> (db, goto Catch l, [])
      | Some db' \<Rightarrow> (db', goto (Close ParkedOut) l, []))"
| "run_phase env ask db l (Refuse reason) =
     (if reason = ''broadcast_canceled''
      then (case cancelQueuedEmail (la_mail l) (ak_now ask) db of
              None \<Rightarrow> (db, goto Catch l, [])
            | Some (db', b) \<Rightarrow> (db', goto (Close (if b then CanceledOut else Skipped)) l, []))
      else (case endQueuedEmail (ak_draw ask) (er_id (la_mail l)) EndSuppressed reason False (ak_now ask) db of
              (db', b) \<Rightarrow> (db', goto (Close (if b then SuppressedOut else Skipped)) l, [])))"
| "run_phase env ask db l (Fail reason claimHeld) =
     (case endQueuedEmail (ak_draw ask) (er_id (la_mail l)) EndFailed reason claimHeld (ak_now ask) db of
        (db', b) \<Rightarrow> (db', goto (Close (if b then FailedOut else Skipped)) l, []))"
| "run_phase env ask db l (Requeue at') = (requeue l at' db, goto (Close Deferred) l, [])"
| "run_phase env ask db l (Close outcome) =
     (if outcome \<in> {FailedOut, SuppressedOut, ParkedOut}
      then db\<lparr>sx_codes := noteConsoleCodeUndelivered (la_mail l) (ak_now ask) (sx_codes db)\<rparr> else db,
      goto (Done outcome) l, [])"
| "run_phase env ask db l Catch =
     (if system_kind (la_mail l) = Some ''console_code''
         \<and> Option.bind (List.find (\<lambda>r. er_id r = er_id (la_mail l)) (sx_mails db)) er_sentAt = None
      then db\<lparr>sx_codes := noteConsoleCodeUndelivered (la_mail l) (ak_now ask) (sx_codes db)\<rparr> else db,
      goto Threw l, [])"
| "run_phase env ask db l (Done outcome) = (db, l, [])"
| "run_phase env ask db l Threw = (db, l, [])"

text \<open>
  A step: a call that throws leaves the tables as they were and goes to the handler's \<open>catch\<close>, from \<open>Close\<close> and \<open>Catch\<close>
  out of the job. SES's own errors are among its answers.
\<close>

definition may_throw :: "phase \<Rightarrow> bool" where
  "may_throw p \<longleftrightarrow> (case p of Hand \<Rightarrow> False | HandBare \<Rightarrow> False | Done _ \<Rightarrow> False | Threw \<Rightarrow> False | _ \<Rightarrow> True)"

definition after_throw :: "phase \<Rightarrow> phase" where
  "after_throw p = (case p of Close _ \<Rightarrow> Threw | Catch \<Rightarrow> Threw | _ \<Rightarrow> Catch)"

definition lane_step :: "send_deps \<Rightarrow> send_ask \<Rightarrow> send_db \<Rightarrow> lane \<Rightarrow> send_db \<times> lane \<times> ses_message list" where
  "lane_step env ask db l =
     (if ak_throws ask \<and> may_throw (la_phase l) then (db, goto (after_throw (la_phase l)) l, [])
      else run_phase env ask db l (la_phase l))"

text \<open>\<open>sendEmail\<close> reads the row; only a queued, unclaimed one starts a lane.\<close>

definition start_lane :: "send_db \<Rightarrow> ident \<Rightarrow> lane option" where
  "start_lane db emailId =
     (case List.find (\<lambda>r. er_id r = emailId) (sx_mails db) of
        None \<Rightarrow> None
      | Some r \<Rightarrow> if er_latestStatus r = Queued \<and> er_sentAt r = None
          then Some \<lparr>la_phase = Schedule, la_mail = r, la_domain = None, la_shared = None, la_pool = None,
                     la_topic = None, la_html = None, la_text = None, la_headers = [], la_tenant = None, la_sentAt = 0\<rparr>
          else None)"

end
