(* ===== verification/SendWorker.thy ===== *)
theory SendWorker
  imports SendEmail
begin

text \<open>
  The send lanes together: any number of lanes interleave their phases, crash, and run beside everything else that
  writes the emails table. What SES handing is a log of messages, which nothing in the code can take back.
\<close>

section \<open>The stalled-claim sweep\<close>

text \<open>
  The first half of \<open>reconcileStalledSends\<close> ends claims that stand for 15 minutes; the second hands unclaimed rows
  to the queue again, page by page.
\<close>

definition STALL_MS :: int where "STALL_MS = 15 * 60 * 1000"
definition RECONCILE_BATCH :: nat where "RECONCILE_BATCH = 1000"
definition RECONCILE_MAX_PER_RUN :: nat where "RECONCILE_MAX_PER_RUN = 20000"

definition sweep_claims ::
    "(ident \<Rightarrow> nat \<Rightarrow> ident \<times> ident) \<Rightarrow> instant \<Rightarrow> send_db \<Rightarrow> send_db" where
  "sweep_claims draw now db =
     fst (end_queued draw EndFailed (\<lambda>r. er_latestStatus r = Queued \<and>
            (case er_sentAt r of Some s \<Rightarrow> s < now - STALL_MS | None \<Rightarrow> False)) ''send_interrupted'' now db)"

definition stalled :: "instant \<Rightarrow> send_row \<Rightarrow> bool" where
  "stalled now e \<longleftrightarrow> er_latestStatus e = Queued \<and> er_sentAt e = None \<and> sw_createdAt e < now - STALL_MS
     \<and> (case ma_scheduledAt e of None \<Rightarrow> True | Some s \<Rightarrow> s \<le> now)
     \<and> (case sw_freeBurstAt e of None \<Rightarrow> True | Some s \<Rightarrow> s \<le> now)"

text \<open>The jobs of one page, and the row the next page starts after.\<close>

definition page_job :: "send_row \<Rightarrow> ident \<times> instant option \<times> nat" where
  "page_job e = (er_id e, ma_scheduledAt e, emailSendPriority e)"

definition stalled_page ::
    "instant \<Rightarrow> send_row list \<Rightarrow> (instant \<times> ident) option \<Rightarrow> nat \<Rightarrow> send_row list" where
  "stalled_page now mails cursor n =
     take n (sort_key (\<lambda>e. (sw_createdAt e, er_id e))
       (filter (\<lambda>e. stalled now e \<and> (case cursor of None \<Rightarrow> True | Some c \<Rightarrow> c < (sw_createdAt e, er_id e))) mails))"

function requeue_pages ::
    "instant \<Rightarrow> send_row list \<Rightarrow> (instant \<times> ident) option \<Rightarrow> nat \<Rightarrow> (ident \<times> instant option \<times> nat) list list" where
  "requeue_pages now mails cursor requeued =
     (if RECONCILE_MAX_PER_RUN \<le> requeued then []
      else
        let page = stalled_page now mails cursor (min RECONCILE_BATCH (RECONCILE_MAX_PER_RUN - requeued)) in
        if page = [] then []
        else map page_job page #
          (if length page < RECONCILE_BATCH then []
           else requeue_pages now mails (Some (sw_createdAt (last page), er_id (last page))) (requeued + length page)))"
  by pat_completeness auto
termination
  by (relation "measure (\<lambda>(_, _, _, n). RECONCILE_MAX_PER_RUN - n)")
     (auto simp: RECONCILE_BATCH_def)

declare requeue_pages.simps [simp del]

definition reconcileStalledSends ::
    "(ident \<Rightarrow> nat \<Rightarrow> ident \<times> ident) \<Rightarrow> instant \<Rightarrow> send_db \<Rightarrow> send_db \<times> (ident \<times> instant option \<times> nat) list list" where
  "reconcileStalledSends draw now db =
     (let db' = sweep_claims draw now db in (db', requeue_pages now (sx_mails db') None 0))"

section \<open>Worlds\<close>

record send_world =
  wo_db :: send_db
  wo_lanes :: "lane list"
  wo_taken :: "ses_message list"

text \<open>
  The other writes to a row of emails: a status event, a queue transition (the drain, a park), the endings and the
  sweep, the cancels (of a person, a suspension, a stopped broadcast), the status a retracted click leaves, any write
  of other columns, and the deletion and insertion of rows, whose ids are new.
\<close>

inductive mail_write :: "ident set \<Rightarrow> send_row list \<Rightarrow> send_row list \<Rightarrow> bool" for used where
  event: "applyStatusCas i s mails = Some (mails', b) \<Longrightarrow> mail_write used mails mails'"
| queue: "transitionQueueState i src dst mails = (mails', b) \<Longrightarrow> mail_write used mails mails'"
| end_rows: "endQueuedEmails st guard reason now mails = (mails', es, ws, n) \<Longrightarrow> mail_write used mails mails'"
| cancel: "(\<And>r. P r \<Longrightarrow> er_latestStatus r = Queued \<or> er_latestStatus r = QueuedQuota) \<Longrightarrow>
    mail_write used mails (update_rows P (\<lambda>r. r\<lparr>er_latestStatus := Canceled\<rparr>) mails)"
| retract: "(\<And>r. P r \<Longrightarrow> er_latestStatus r = Opened \<or> er_latestStatus r = Clicked) \<Longrightarrow>
    mail_write used mails (update_rows P (\<lambda>r. r\<lparr>er_latestStatus := s\<rparr>) mails)"
| other_columns: "(\<And>r. er_id (f r) = er_id r \<and> er_latestStatus (f r) = er_latestStatus r \<and> er_sentAt (f r) = er_sentAt r) \<Longrightarrow>
    mail_write used mails (update_rows P f mails)"
| delete: "mail_write used mails (filter P mails)"
| insert: "er_id r \<notin> used \<union> er_id ` set mails \<Longrightarrow> mail_write used mails (mails @ [r])"

text \<open>
  An error of the SES client other than its own deadline means that SES did not take the message: the client gave
  up without an answer of acceptance.
\<close>

definition honest :: "send_ask \<Rightarrow> bool" where
  "honest ask \<longleftrightarrow> (case ak_ses ask of SesTook _ \<Rightarrow> True | SesThrew e kept \<Rightarrow> kept \<longrightarrow> cx_name e = ''AbortError'')"

definition used_ids :: "send_world \<Rightarrow> ident set" where
  "used_ids w = (\<lambda>l. er_id (la_mail l)) ` set (wo_lanes w) \<union> (\<lambda>m. er_id (sm_mail m)) ` set (wo_taken w)"

text \<open>\<open>elsewhere\<close>: every other table may change at any time.\<close>

inductive send_step :: "send_deps \<Rightarrow> send_world \<Rightarrow> send_world \<Rightarrow> bool" for env where
  start: "start_lane (wo_db w) i = Some l \<Longrightarrow> send_step env w (w\<lparr>wo_lanes := wo_lanes w @ [l]\<rparr>)"
| run: "j < length (wo_lanes w) \<Longrightarrow> honest ask \<Longrightarrow> lane_step env ask (wo_db w) (wo_lanes w ! j) = (db', l', ms) \<Longrightarrow>
    send_step env w (w\<lparr>wo_db := db', wo_lanes := (wo_lanes w)[j := l'], wo_taken := wo_taken w @ ms\<rparr>)"
| crash: "j < length (wo_lanes w) \<Longrightarrow>
    send_step env w (w\<lparr>wo_lanes := (wo_lanes w)[j := goto Threw (wo_lanes w ! j)]\<rparr>)"
| mails: "mail_write (used_ids w) (sx_mails (wo_db w)) mails' \<Longrightarrow>
    send_step env w (w\<lparr>wo_db := (wo_db w)\<lparr>sx_mails := mails'\<rparr>\<rparr>)"
| elsewhere: "sx_mails db' = sx_mails (wo_db w) \<Longrightarrow> send_step env w (w\<lparr>wo_db := db'\<rparr>)"

inductive_cases send_stepE: "send_step env w w'"

section \<open>Rows no lane can claim\<close>

definition shut :: "send_row \<Rightarrow> bool" where
  "shut r \<longleftrightarrow> er_sentAt r \<noteq> None \<or> Failed \<le> er_latestStatus r"

definition keeps :: "send_row list \<Rightarrow> send_row list \<Rightarrow> bool" where
  "keeps ms ms' \<longleftrightarrow> map er_id ms' = map er_id ms \<and> (\<forall>i < length ms. shut (ms ! i) \<longrightarrow> shut (ms' ! i))"

definition all_shut :: "ident \<Rightarrow> send_row list \<Rightarrow> bool" where
  "all_shut i ms \<longleftrightarrow> (\<forall>r \<in> set ms. er_id r = i \<longrightarrow> shut r)"

lemma keeps_refl [simp]: "keeps ms ms"
  by (simp add: keeps_def)

lemma keeps_length: "keeps a b \<Longrightarrow> length b = length a"
  by (auto simp: keeps_def dest: map_eq_imp_length_eq)

lemma keeps_trans:
  assumes "keeps a b" "keeps b c"
  shows "keeps a c"
proof -
  have "shut (c ! i)" if "i < length a" "shut (a ! i)" for i
  proof -
    have "shut (b ! i)" using assms(1) that by (simp add: keeps_def)
    then show ?thesis using assms keeps_length [OF assms(1)] that by (simp add: keeps_def)
  qed
  then show ?thesis using assms by (simp add: keeps_def)
qed

lemma keeps_update:
  assumes "\<And>r. P r \<Longrightarrow> er_id (f r) = er_id r \<and> (shut r \<longrightarrow> shut (f r))"
  shows "keeps ms (update_rows P f ms)"
  using assms map_update_rows [of P er_id f ms] by (simp add: keeps_def)

lemma keeps_all_shut: "keeps ms ms' \<Longrightarrow> all_shut i ms \<Longrightarrow> all_shut i ms'"
proof -
  assume k: "keeps ms ms'" and a: "all_shut i ms"
  have len: "length ms' = length ms" by (rule keeps_length [OF k])
  have "shut r" if "r \<in> set ms'" "er_id r = i" for r
  proof -
    obtain n where n: "n < length ms'" "ms' ! n = r" using \<open>r \<in> set ms'\<close> by (auto simp: in_set_conv_nth)
    have "er_id (ms ! n) = er_id (ms' ! n)" using k n len by (metis keeps_def nth_map)
    then show ?thesis using a k n len that by (auto simp: all_shut_def keeps_def)
  qed
  then show ?thesis by (simp add: all_shut_def)
qed

lemma keeps_cas: "applyStatusCas i s ms = Some (ms', b) \<Longrightarrow> keeps ms ms'"
proof -
  assume "applyStatusCas i s ms = Some (ms', b)"
  then have "ms' = update_rows (\<lambda>r. er_id r = i \<and> er_latestStatus r < s) (\<lambda>r. r\<lparr>er_latestStatus := s\<rparr>) ms"
    by (simp add: applyStatusCas_def Let_def split: if_splits)
  then show ?thesis by (auto intro!: keeps_update simp: shut_def)
qed

lemma keeps_transition: "transitionQueueState i src dst ms = (ms', b) \<Longrightarrow> keeps ms ms'"
proof -
  have q: "\<not> Failed \<le> queue_status q" for q by (cases q) (simp_all add: status_order)
  assume "transitionQueueState i src dst ms = (ms', b)"
  then show ?thesis
    by (auto simp: transitionQueueState_def Let_def shut_def q intro!: keeps_update)
qed

lemma keeps_end: "endQueuedEmails st guard reason now ms = (ms', es, ws, n) \<Longrightarrow> keeps ms ms'"
  by (cases st) (auto simp: endQueuedEmails_def Let_def intro!: keeps_update, auto simp: shut_def may_end_def end_row_def status_order)

section \<open>What a phase does to the rows\<close>

abbreviation keeps_db :: "send_db \<Rightarrow> send_db \<Rightarrow> bool" where
  "keeps_db db db' \<equiv> keeps (sx_mails db) (sx_mails db')"

lemma keeps_strip [simp]: "keeps ms (stripRecipients e ms)"
  by (auto simp: stripRecipients_def shut_def intro!: keeps_update)

lemma give_back_mails: "give_back t n now db = Some db' \<Longrightarrow> sx_mails db' = sx_mails db"
  by (auto simp: give_back_def split: option.splits)

lemma keeps_park: "parkQueued lib e reason now db = Some db' \<Longrightarrow> keeps_db db db'"
proof -
  assume p: "parkQueued lib e reason now db = Some db'"
  obtain mails b where t: "transitionQueueState (er_id e) QSQueued QSQueuedQuota (sx_mails db) = (mails, b)" by fastforce
  note k = keeps_transition [OF t]
  have u: "keeps mails (update_rows (\<lambda>r. er_id r = er_id e) (\<lambda>r. r\<lparr>er_parkReason := reason, ma_parkedAt := Some now\<rparr>) mails)"
    by (auto simp: shut_def intro!: keeps_update)
  show ?thesis
  proof (cases b)
    case False
    then show ?thesis using p t by (simp add: parkQueued_def)
  next
    case True
    then show ?thesis using p t keeps_trans [OF k u]
      by (auto simp: parkQueued_def Let_def dest!: give_back_mails split: list.splits)
  qed
qed

lemma keeps_cancel: "cancelQueuedEmail e now db = Some (db', b) \<Longrightarrow> keeps_db db db'"
proof -
  assume c: "cancelQueuedEmail e now db = Some (db', b)"
  have "keeps ms (update_rows (\<lambda>r. er_id r = er_id e \<and> er_latestStatus r = Queued \<and> er_sentAt r = None)
      (\<lambda>r. r\<lparr>er_latestStatus := Canceled\<rparr>) ms)" for ms
    by (auto simp: shut_def status_order intro!: keeps_update)
  then show ?thesis using c
    by (auto simp: cancelQueuedEmail_def Let_def dest!: give_back_mails split: if_splits)
qed

lemma keeps_burst: "freeBurstSlot lib e ow now later db = (db', s) \<Longrightarrow> keeps_db db db'"
proof -
  have u: "keeps ms (update_rows (\<lambda>r. er_id r = er_id e) (\<lambda>r. r\<lparr>sw_freeBurstAt := Some x\<rparr>) ms)" for ms x
    by (auto simp: shut_def intro!: keeps_update)
  show "freeBurstSlot lib e ow now later db = (db', s) \<Longrightarrow> keeps_db db db'"
    by (auto simp: freeBurstSlot_def Let_def u split: if_splits option.splits prod.splits)
qed

lemma keeps_end_queued: "end_queued draw st guard reason now db = (db', n) \<Longrightarrow> keeps_db db db'"
  by (auto simp: end_queued_def dest: keeps_end split: prod.splits)

lemma keeps_end_one: "endQueuedEmail draw i st reason c now db = (db', b) \<Longrightarrow> keeps_db db db'"
  by (auto simp: endQueuedEmail_def dest: keeps_end_queued split: prod.splits)

lemma keeps_purge [simp]: "keeps_db db (purgeCredential e now db)"
  by (auto simp: purgeCredential_def purgedEmailBodyColumns_def shut_def intro!: keeps_update)

lemmas keeps_dests = keeps_park keeps_cancel keeps_burst keeps_end_one keeps_cas

definition handing :: "lane \<Rightarrow> bool" where
  "handing l \<longleftrightarrow> (case la_phase l of Hand \<Rightarrow> True | HandBare \<Rightarrow> True | Refusal _ \<Rightarrow> True | _ \<Rightarrow> False)"

abbreviation lane_id :: "lane \<Rightarrow> ident" where "lane_id l \<equiv> er_id (la_mail l)"

definition special :: "phase \<Rightarrow> bool" where
  "special p \<longleftrightarrow> (case p of Claim \<Rightarrow> True | Hand \<Rightarrow> True | HandBare \<Rightarrow> True | Refusal _ \<Rightarrow> True | _ \<Rightarrow> False)"

lemma goto_simps [simp]:
  "la_phase (goto p l) = p" "la_mail (goto p l) = la_mail l" "la_pool (goto p l) = la_pool l"
  "la_domain (goto p l) = la_domain l" "la_headers (goto p l) = la_headers l" "la_topic (goto p l) = la_topic l"
  "la_sentAt (goto p l) = la_sentAt l" "la_shared (goto p l) = la_shared l" "la_tenant (goto p l) = la_tenant l"
  "la_html (goto p l) = la_html l" "la_text (goto p l) = la_text l"
  by (simp_all add: goto_def)

lemma truthy_None [simp]: "\<not> truthy None"
  by (simp add: truthy_def)

lemma strip_mail_id [simp]: "er_id (strip_mail s e) = er_id e" "er_teamId (strip_mail s e) = er_teamId e"
  by (simp_all add: strip_mail_def)

lemma quiet_phase:
  assumes "run_phase env ask db l (la_phase l) = (db', l', ms)" and "\<not> special (la_phase l)"
  shows "ms = [] \<and> \<not> handing l' \<and> lane_id l' = lane_id l \<and> keeps_db db db'"
proof (cases "la_phase l")
  case (Record mid)
  then show ?thesis using assms by (auto simp: handing_def shut_def intro!: keeps_update)
next
  case Flip
  then show ?thesis using assms by (auto simp: handing_def dest: keeps_cas split: option.splits)
next
  case (Park r)
  then show ?thesis using assms by (auto simp: handing_def dest: keeps_park split: option.splits)
next
  case (Refuse r)
  then show ?thesis using assms
    by (auto simp: handing_def dest: keeps_cancel keeps_end_one split: option.splits prod.splits if_splits)
next
  case (Fail r c)
  then show ?thesis using assms by (auto simp: handing_def dest: keeps_end_one split: prod.splits)
next
  case Burst
  then show ?thesis using assms
    by (auto simp: handing_def dest: keeps_burst split: option.splits prod.splits if_splits)
next
  case Compose
  then show ?thesis using assms by (auto simp: handing_def Let_def split: option.splits)
next
  case FirstCheck
  then show ?thesis using assms by (auto simp: handing_def split: option.splits eligibility.splits if_splits)
next
  case LastCheck
  then show ?thesis using assms by (auto simp: handing_def split: option.splits eligibility.splits if_splits)
next
  case PoolOwner
  then show ?thesis using assms by (auto simp: handing_def split: option.splits team_quota.splits)
next
  case Screen
  then show ?thesis using assms by (auto simp: handing_def split: option.splits screen_answer.splits if_splits)
next
  case Body
  then show ?thesis using assms by (auto simp: handing_def split: option.splits body_answer.splits if_splits)
qed (use assms in \<open>auto simp: handing_def special_def requeue_def Let_def split: option.splits if_splits bool.splits\<close>)

lemma claim_phase:
  assumes "run_phase env ask db l Claim = (db', l', ms)"
  shows "lane_id l' = lane_id l \<and> la_mail l' = la_mail l \<and> ms = [] \<and> keeps_db db db'
    \<and> (\<not> handing l' \<or> (la_phase l' = Hand \<and> \<not> all_shut (lane_id l) (sx_mails db)
        \<and> (distinct (map er_id (sx_mails db)) \<longrightarrow> all_shut (lane_id l) (sx_mails db'))))"
proof -
  let ?P = "\<lambda>r. er_id r = lane_id l \<and> er_latestStatus r = Queued \<and> er_sentAt r = None"
  let ?f = "\<lambda>r. r\<lparr>er_sentAt := Some (ak_now ask)\<rparr>"
  have s: "l' = goto (if returning ?P ?f (sx_mails db) = [] then Close Skipped else Hand) l" "ms = []"
    "sx_mails db' = update_rows ?P ?f (sx_mails db)"
    using assms by (auto simp: Let_def)
  have k: "keeps_db db db'" by (auto simp: s(3) shut_def intro!: keeps_update)
  have "\<not> handing l'" if "returning ?P ?f (sx_mails db) = []" using that s(1) by (simp add: handing_def)
  moreover have "\<not> all_shut (lane_id l) (sx_mails db)
      \<and> (distinct (map er_id (sx_mails db)) \<longrightarrow> all_shut (lane_id l) (sx_mails db'))"
    if ne: "returning ?P ?f (sx_mails db) \<noteq> []"
  proof -
    obtain r where r: "r \<in> set (sx_mails db)" "?P r" using ne by (auto simp: returning_Nil_iff)
    then have "\<not> all_shut (lane_id l) (sx_mails db)" by (auto simp: all_shut_def shut_def status_order)
    moreover have "all_shut (lane_id l) (sx_mails db')" if d: "distinct (map er_id (sx_mails db))"
    proof -
      have u: "q = r" if "q \<in> set (sx_mails db)" "er_id q = lane_id l" for q
        using d r that by (auto simp: distinct_map inj_on_def)
      have "shut x" if x: "x \<in> set (sx_mails db')" "er_id x = lane_id l" for x
      proof -
        obtain q where q: "q \<in> set (sx_mails db)" "x = (if ?P q then ?f q else q)"
          using x(1) unfolding s(3) set_update_rows by blast
        then have "er_id q = lane_id l" using x(2) by (auto split: if_splits)
        with q(1) have "q = r" by (rule u)
        then show ?thesis using q(2) r(2) by (simp add: shut_def)
      qed
      then show ?thesis by (simp add: all_shut_def)
    qed
    ultimately show ?thesis by blast
  qed
  ultimately show ?thesis using s(1,2) k by (cases "returning ?P ?f (sx_mails db) = []") simp_all
qed

lemma hand_phase:
  assumes "run_phase env ask db l p = (db', l', ms)" and "p = Hand \<or> p = HandBare" and "honest ask"
  shows "lane_id l' = lane_id l \<and> (\<forall>m \<in> set ms. sm_mail m = la_mail l) \<and> db' = db
    \<and> length ms + of_bool (handing l') \<le> 1"
proof (cases "ak_ses ask")
  case (SesTook mid)
  then show ?thesis using assms by (auto simp: handing_def message_of_def)
next
  case (SesThrew e kept)
  then have h: "kept \<longrightarrow> cx_name e = ''AbortError''" using assms(3) by (simp add: honest_def)
  have a: "\<not> isTenantNotAssociated e" if "cx_name e = ''AbortError''" using that by (simp add: isTenantNotAssociated_def)
  show ?thesis using assms(1,2) SesThrew h a
    by (cases kept; cases "cx_name e = ''AbortError''") (auto simp: handing_def message_of_def split: if_splits)
qed

lemma release_phase:
  assumes "run_phase env ask db l (Refusal e) = (db', l', ms)"
  shows "lane_id l' = lane_id l \<and> ms = [] \<and> \<not> handing l' \<and> (db' = db \<or> sx_mails db' = update_rows
          (\<lambda>r. er_id r = lane_id l \<and> er_latestStatus r = Queued) (\<lambda>r. r\<lparr>er_sentAt := None\<rparr>) (sx_mails db))"
  using assms by (auto simp: handing_def split: if_splits)

section \<open>One message at most\<close>

definition holding :: "ident \<Rightarrow> lane list \<Rightarrow> nat" where
  "holding i ls = length (filter (\<lambda>l. handing l \<and> lane_id l = i) ls)"

definition taken :: "ident \<Rightarrow> ses_message list \<Rightarrow> nat" where
  "taken i ms = length (filter (\<lambda>m. er_id (sm_mail m) = i) ms)"

text \<open>No row of an email that a lane hands over, or that SES has, can be claimed.\<close>

definition counts_ok :: "send_row list \<Rightarrow> (ident \<Rightarrow> nat) \<Rightarrow> bool" where
  "counts_ok ms n \<longleftrightarrow> distinct (map er_id ms) \<and> (\<forall>i. n i \<le> 1 \<and> (0 < n i \<longrightarrow> all_shut i ms))"

definition in_hands :: "send_world \<Rightarrow> ident \<Rightarrow> nat" where
  "in_hands w i = holding i (wo_lanes w) + taken i (wo_taken w)"

definition world_inv :: "send_world \<Rightarrow> bool" where
  "world_inv w \<longleftrightarrow> counts_ok (sx_mails (wo_db w)) (in_hands w)"

lemma counts_ok_keeps:
  assumes "counts_ok ms n" "keeps ms ms'" "\<And>i. n' i \<le> n i"
  shows "counts_ok ms' n'"
proof -
  have "n' i \<le> 1 \<and> (0 < n' i \<longrightarrow> all_shut i ms')" for i
  proof -
    have "n i \<le> 1" "0 < n i \<longrightarrow> all_shut i ms" using assms(1) by (simp_all add: counts_ok_def)
    then show ?thesis using assms(3) [of i] keeps_all_shut [OF assms(2)] by fastforce
  qed
  moreover have "distinct (map er_id ms')" using assms(1,2) by (simp add: counts_ok_def keeps_def)
  ultimately show ?thesis by (simp add: counts_ok_def)
qed

lemma counts_ok_claim:
  assumes "counts_ok ms n" "keeps ms ms'" "\<not> all_shut i ms" "distinct (map er_id ms) \<Longrightarrow> all_shut i ms'"
    and "\<And>k. n' k \<le> (if k = i then Suc (n k) else n k)"
  shows "counts_ok ms' n'"
proof -
  have "n' k \<le> 1 \<and> (0 < n' k \<longrightarrow> all_shut k ms')" for k
  proof (cases "k = i")
    case True
    have "n i = 0" using assms(1,3) by (auto simp: counts_ok_def)
    then show ?thesis using True assms(1,4) assms(5) [of k] by (simp add: counts_ok_def)
  next
    case False
    have "n k \<le> 1" "0 < n k \<longrightarrow> all_shut k ms" using assms(1) by (simp_all add: counts_ok_def)
    then show ?thesis using False assms(5) [of k] keeps_all_shut [OF assms(2)] by fastforce
  qed
  moreover have "distinct (map er_id ms')" using assms(1,2) by (simp add: counts_ok_def keeps_def)
  ultimately show ?thesis by (simp add: counts_ok_def)
qed

text \<open>A release opens the rows of one email only, which nobody else handing.\<close>

lemma counts_ok_release:
  assumes "counts_ok ms n" "\<And>k. n' k \<le> (if k = i then n k - 1 else n k)"
    and "ms' = update_rows (\<lambda>r. er_id r = i \<and> er_latestStatus r = Queued) (\<lambda>r. r\<lparr>er_sentAt := None\<rparr>) ms"
  shows "counts_ok ms' n'"
proof -
  have "n' k \<le> 1 \<and> (0 < n' k \<longrightarrow> all_shut k ms')" for k
  proof (cases "k = i")
    case True
    have "n i \<le> 1" using assms(1) by (simp add: counts_ok_def)
    then show ?thesis using True assms(2) [of k] by simp
  next
    case False
    have n: "n k \<le> 1" "0 < n k \<longrightarrow> all_shut k ms" using assms(1) by (simp_all add: counts_ok_def)
    have "all_shut k ms'" if a: "all_shut k ms"
    proof -
      have "shut x" if x: "x \<in> set ms'" "er_id x = k" for x
      proof -
        obtain q where q: "q \<in> set ms" "x = (if er_id q = i \<and> er_latestStatus q = Queued then q\<lparr>er_sentAt := None\<rparr> else q)"
          using x(1) unfolding assms(3) set_update_rows by blast
        have "x = q" using q(2) x(2) False by (cases "er_id q = i \<and> er_latestStatus q = Queued") auto
        then show ?thesis using a q(1) x(2) by (simp add: all_shut_def)
      qed
      then show ?thesis by (simp add: all_shut_def)
    qed
    then show ?thesis using n False assms(2) [of k] by fastforce
  qed
  moreover have "distinct (map er_id ms')" using assms(1,3) by (simp add: counts_ok_def map_update_rows)
  ultimately show ?thesis by (simp add: counts_ok_def)
qed

lemma length_filter_update:
  "j < length xs \<Longrightarrow> length (filter P (xs[j := y])) + of_bool (P (xs ! j)) = length (filter P xs) + of_bool (P y)"
proof (induction xs arbitrary: j)
  case (Cons x xs)
  then show ?case using Cons.IH [of "j - 1"] by (cases j) auto
qed simp

lemma holding_update:
  "j < length ls \<Longrightarrow> lane_id y = lane_id (ls ! j) \<Longrightarrow>
     holding i (ls[j := y]) + of_bool (handing (ls ! j) \<and> lane_id (ls ! j) = i)
     = holding i ls + of_bool (handing y \<and> lane_id (ls ! j) = i)"
  unfolding holding_def using length_filter_update [of j ls "\<lambda>l. handing l \<and> lane_id l = i" y] by simp

lemma taken_simps [simp]: "taken i [] = 0" "taken i (ms @ ns) = taken i ms + taken i ns"
  by (simp_all add: taken_def)

lemma taken_same:
  assumes "\<forall>m \<in> set ms. sm_mail m = e"
  shows "taken i ms = (if er_id e = i then length ms else 0)"
proof -
  have "filter (\<lambda>m. er_id (sm_mail m) = i) ms = (if er_id e = i then ms else [])"
    using assms by (cases "er_id e = i") (simp_all add: filter_id_conv filter_empty_conv)
  then show ?thesis by (simp add: taken_def)
qed

lemma lane_step_id:
  assumes s: "lane_step env ask db l = (db', l', ms)" and h: "honest ask"
  shows "lane_id l' = lane_id l \<and> (\<forall>m \<in> set ms. sm_mail m = la_mail l)"
proof (cases "ak_throws ask \<and> may_throw (la_phase l)")
  case True
  then show ?thesis using s by (auto simp: lane_step_def)
next
  case False
  have r: "run_phase env ask db l (la_phase l) = (db', l', ms)" using s unfolding lane_step_def if_not_P [OF False] .
  show ?thesis
  proof (cases "special (la_phase l)")
    case False
    show ?thesis using quiet_phase [OF r False] by simp
  next
    case True
    then consider "la_phase l = Claim" | "la_phase l = Hand \<or> la_phase l = HandBare" | e where "la_phase l = Refusal e"
      by (auto simp: special_def split: phase.splits)
    then show ?thesis
    proof cases
      case 1
      then show ?thesis using claim_phase [OF r [unfolded 1]] by simp
    next
      case 2
      show ?thesis using hand_phase [OF r 2 h] by simp
    next
      case 3
      then show ?thesis using release_phase [OF r [unfolded 3]] by simp
    qed
  qed
qed

lemma in_hands_step:
  assumes "lane_step env ask (wo_db w) l = (db', l', ms)" "honest ask" "j < length (wo_lanes w)" "wo_lanes w ! j = l"
    and "w' = w\<lparr>wo_db := db', wo_lanes := (wo_lanes w)[j := l'], wo_taken := wo_taken w @ ms\<rparr>"
  shows "in_hands w' i + of_bool (handing l \<and> lane_id l = i)
     = in_hands w i + of_bool (handing l' \<and> lane_id l = i) + (if lane_id l = i then length ms else 0)"
proof -
  have e: "lane_id l' = lane_id l" "\<forall>m \<in> set ms. sm_mail m = la_mail l" using lane_step_id [OF assms(1,2)] by auto
  have "holding i ((wo_lanes w)[j := l']) + of_bool (handing l \<and> lane_id l = i)
      = holding i (wo_lanes w) + of_bool (handing l' \<and> lane_id l = i)"
    using holding_update [OF assms(3), of l' i] e(1) assms(4) by simp
  then show ?thesis using taken_same [OF e(2), of i] by (simp add: assms(5) in_hands_def)
qed

lemma lane_step_inv:
  assumes s: "lane_step env ask (wo_db w) l = (db', l', ms)" and h: "honest ask"
    and j: "j < length (wo_lanes w)" "wo_lanes w ! j = l" and inv: "world_inv w"
    and w': "w' = w\<lparr>wo_db := db', wo_lanes := (wo_lanes w)[j := l'], wo_taken := wo_taken w @ ms\<rparr>"
  shows "world_inv w'"
proof -
  note n = in_hands_step [OF s h j w']
  have m: "sx_mails (wo_db w') = sx_mails db'" by (simp add: w')
  note I = inv [unfolded world_inv_def]
  have quiet: ?thesis if k: "keeps_db (wo_db w) db'" and c: "length ms + of_bool (handing l') \<le> (of_bool (handing l) :: nat)"
    unfolding world_inv_def m
  proof (rule counts_ok_keeps [OF I k])
    show "in_hands w' i \<le> in_hands w i" for i using n [of i] c by (cases "lane_id l = i") auto
  qed
  show ?thesis
  proof (cases "ak_throws ask \<and> may_throw (la_phase l)")
    case True
    then have "db' = wo_db w" "ms = []" "\<not> handing l'"
      using s by (auto simp: lane_step_def handing_def after_throw_def split: phase.splits)
    then show ?thesis by (intro quiet) simp_all
  next
    case False
    have r: "run_phase env ask (wo_db w) l (la_phase l) = (db', l', ms)" using s unfolding lane_step_def if_not_P [OF False] .
    show ?thesis
    proof (cases "special (la_phase l)")
      case False
      then show ?thesis using quiet_phase [OF r] by (intro quiet) auto
    next
      case True
      then consider "la_phase l = Claim" | "la_phase l = Hand \<or> la_phase l = HandBare" | e where "la_phase l = Refusal e"
        by (auto simp: special_def split: phase.splits)
      then show ?thesis
      proof cases
        case 1
        then have c: "ms = []" "keeps_db (wo_db w) db'" "\<not> handing l"
          "handing l' \<Longrightarrow> \<not> all_shut (lane_id l) (sx_mails (wo_db w))"
          "handing l' \<Longrightarrow> distinct (map er_id (sx_mails (wo_db w))) \<Longrightarrow> all_shut (lane_id l) (sx_mails db')"
          using claim_phase [of env ask "wo_db w" l db' l' ms] r by (auto simp: handing_def)
        show ?thesis
        proof (cases "handing l'")
          case False
          then show ?thesis using c by (intro quiet) auto
        next
          case True
          show ?thesis unfolding world_inv_def m
          proof (rule counts_ok_claim [OF I c(2) c(4) [OF True] c(5) [OF True]])
            show "in_hands w' k \<le> (if k = lane_id l then Suc (in_hands w k) else in_hands w k)" for k
              using n [of k] c(1,3) True by (cases "lane_id l = k") simp_all
          qed
        qed
      next
        case 2
        then have "handing l" by (auto simp: handing_def)
        then show ?thesis using hand_phase [OF r 2 h] by (intro quiet) auto
      next
        case 3
        then have hl: "handing l" by (simp add: handing_def)
        note R = release_phase [OF r [unfolded 3]]
        show ?thesis
        proof (cases "db' = wo_db w")
          case True
          then show ?thesis using R hl by (intro quiet) auto
        next
          case False
          then have u: "sx_mails db' = update_rows (\<lambda>r. er_id r = lane_id l \<and> er_latestStatus r = Queued)
              (\<lambda>r. r\<lparr>er_sentAt := None\<rparr>) (sx_mails (wo_db w))" using R by blast
          show ?thesis unfolding world_inv_def m
          proof (rule counts_ok_release [OF I _ u])
            show "in_hands w' k \<le> (if k = lane_id l then in_hands w k - 1 else in_hands w k)" for k using n [of k] R hl by auto
          qed
        qed
      qed
    qed
  qed
qed

lemma in_hands_other:
  assumes "holding i ls \<le> holding i (wo_lanes w)"
  shows "in_hands (w\<lparr>wo_lanes := ls\<rparr>) i \<le> in_hands w i"
  using assms by (simp add: in_hands_def)

lemma unused_in_hands: "i \<notin> used_ids w \<Longrightarrow> in_hands w i = 0"
  by (auto simp: used_ids_def in_hands_def holding_def taken_def filter_empty_conv)

lemma mail_write_inv:
  assumes "mail_write (used_ids w) ms ms'" and "counts_ok ms (in_hands w)"
  shows "counts_ok ms' (in_hands w)"
  using assms(1)
proof cases
  case (event i s b)
  then show ?thesis using counts_ok_keeps [OF assms(2) keeps_cas] by blast
next
  case (queue i src dst b)
  then show ?thesis using counts_ok_keeps [OF assms(2) keeps_transition] by blast
next
  case (end_rows st guard reason now es ws n)
  then show ?thesis using counts_ok_keeps [OF assms(2) keeps_end] by blast
next
  case (cancel P)
  show ?thesis unfolding cancel(1)
    by (rule counts_ok_keeps [OF assms(2)]) (auto simp: shut_def status_order intro!: keeps_update)
next
  case (retract P s)
  have "keeps ms (update_rows P (\<lambda>r. r\<lparr>er_latestStatus := s\<rparr>) ms)"
  proof (rule keeps_update)
    fix r assume "P r"
    then have "er_latestStatus r = Opened \<or> er_latestStatus r = Clicked" by (rule retract(2))
    then show "er_id (r\<lparr>er_latestStatus := s\<rparr>) = er_id r \<and> (shut r \<longrightarrow> shut (r\<lparr>er_latestStatus := s\<rparr>))"
      by (auto simp: shut_def status_order)
  qed
  then show ?thesis unfolding retract(1) by (rule counts_ok_keeps [OF assms(2)]) simp
next
  case (other_columns f P)
  show ?thesis unfolding other_columns(1)
    by (rule counts_ok_keeps [OF assms(2)]) (use other_columns(2) in \<open>auto simp: shut_def intro!: keeps_update\<close>)
next
  case (delete P)
  then show ?thesis using assms(2) by (auto simp: counts_ok_def all_shut_def distinct_map_filter)
next
  case (insert r)
  then have z: "in_hands w (er_id r) = 0" "er_id r \<notin> er_id ` set ms" using unused_in_hands by auto
  then show ?thesis using assms(2) unfolding insert(1) by (auto simp: counts_ok_def all_shut_def)
qed

lemma send_step_inv:
  assumes "send_step env w w'" and inv: "world_inv w"
  shows "world_inv w'"
  using assms(1)
proof cases
  case (start i l)
  have "\<not> handing l" using start(2) by (auto simp: start_lane_def handing_def split: option.splits if_splits)
  then have "in_hands w' k \<le> in_hands w k" for k by (simp add: start(1) in_hands_def holding_def)
  then show ?thesis using counts_ok_keeps [of "sx_mails (wo_db w)" "in_hands w" "sx_mails (wo_db w)" "in_hands w'"] inv
    by (simp add: world_inv_def start(1))
next
  case (run j ask db' l' ms)
  then show ?thesis using lane_step_inv [OF run(4,3,2) refl inv] by blast
next
  case (crash j)
  have "in_hands w' k \<le> in_hands w k" for k
    unfolding crash(1) using holding_update [OF crash(2), of "goto Threw (wo_lanes w ! j)" k]
    by (intro in_hands_other) (simp add: handing_def)
  then show ?thesis using counts_ok_keeps [of "sx_mails (wo_db w)" "in_hands w" "sx_mails (wo_db w)" "in_hands w'"] inv
    by (simp add: world_inv_def crash(1))
next
  case (mails ms)
  have "in_hands w' = in_hands w" by (rule ext) (simp add: mails(1) in_hands_def)
  then show ?thesis using mail_write_inv [OF mails(2)] inv by (simp add: world_inv_def mails(1))
next
  case (elsewhere db')
  have "in_hands w' = in_hands w" by (rule ext) (simp add: elsewhere(1) in_hands_def)
  then show ?thesis using inv elsewhere(2) by (simp add: world_inv_def elsewhere(1))
qed

definition first_world :: "send_world \<Rightarrow> bool" where
  "first_world w \<longleftrightarrow> wo_lanes w = [] \<and> wo_taken w = [] \<and> distinct (map er_id (sx_mails (wo_db w)))"

lemma first_world_inv: "first_world w \<Longrightarrow> world_inv w"
  by (simp add: first_world_def world_inv_def counts_ok_def in_hands_def holding_def)

lemma reachable_inv: "(send_step env)\<^sup>*\<^sup>* w w' \<Longrightarrow> first_world w \<Longrightarrow> world_inv w'"
  by (induction rule: rtranclp_induct) (auto intro: first_world_inv send_step_inv)

section \<open>One lane on its own\<close>

text \<open>A lane that nothing interleaves with: one answer per step.\<close>

fun lane_run :: "send_deps \<Rightarrow> send_ask list \<Rightarrow> send_db \<Rightarrow> lane \<Rightarrow> send_db \<times> lane \<times> ses_message list" where
  "lane_run env [] db l = (db, l, [])"
| "lane_run env (a # as) db l =
     (case lane_step env a db l of (db', l', ms) \<Rightarrow>
       (case lane_run env as db' l' of (db'', l'', ns) \<Rightarrow> (db'', l'', ms @ ns)))"

fun stage :: "phase \<Rightarrow> nat" where
  "stage Schedule = 0" | "stage Standing = 1" | "stage Hold = 2" | "stage LoadDomain = 3" | "stage BroadcastGate = 4"
| "stage BulkHold = 5" | "stage SesRoom = 6" | "stage FirstCheck = 7" | "stage (FirstStrip _) = 8" | "stage Sender = 9"
| "stage SharedSwitch = 10" | "stage PoolOwner = 11" | "stage Burst = 12" | "stage Fuse = 13" | "stage Body = 14"
| "stage Screen = 15" | "stage Compose = 16" | "stage Tenant = 17" | "stage Throttle = 18" | "stage LastCheck = 19"
| "stage (LastStrip _) = 20" | "stage Claim = 21" | "stage Hand = 22" | "stage HandBare = 23" | "stage (Refusal _) = 24"
| "stage (Released _) = 25" | "stage Aborted = 25" | "stage (Record _) = 26" | "stage Flip = 27" | "stage LogSent = 28"
| "stage Count = 29" | "stage CountHour = 30" | "stage CountPool = 31" | "stage Purge = 32" | "stage Notify = 33"
| "stage (Park _) = 34" | "stage (Refuse _) = 34" | "stage (Fail _ _) = 34" | "stage (Requeue _) = 34"
| "stage (Close _) = 35" | "stage Catch = 35" | "stage (Done _) = 36" | "stage Threw = 36"

definition ended :: "phase \<Rightarrow> bool" where
  "ended p \<longleftrightarrow> (case p of Done _ \<Rightarrow> True | Threw \<Rightarrow> True | _ \<Rightarrow> False)"

lemma ended_stage: "ended p \<longleftrightarrow> stage p = 36" and stage_le: "stage p \<le> 36"
  by (cases p; simp add: ended_def)+

lemma run_phase_moves:
  assumes "run_phase env ask db l p = (db', l', ms)" and "\<not> ended p"
  shows "stage p < stage (la_phase l')"
proof (cases p)
  case FirstCheck
  then show ?thesis using assms by (auto split: option.splits eligibility.splits if_splits)
next
  case LastCheck
  then show ?thesis using assms by (auto split: option.splits eligibility.splits if_splits)
next
  case PoolOwner
  then show ?thesis using assms by (auto split: option.splits team_quota.splits)
next
  case Screen
  then show ?thesis using assms by (auto split: option.splits screen_answer.splits if_splits)
next
  case Body
  then show ?thesis using assms by (auto split: option.splits body_answer.splits if_splits)
next
  case Hand
  then show ?thesis using assms by (auto split: ses_answer.splits if_splits)
next
  case HandBare
  then show ?thesis using assms by (auto split: ses_answer.splits if_splits)
qed (use assms in \<open>auto simp: ended_def Let_def split: option.splits if_splits bool.splits prod.splits\<close>)

lemma lane_step_moves:
  assumes "lane_step env ask db l = (db', l', ms)" and "\<not> ended (la_phase l)"
  shows "stage (la_phase l) < stage (la_phase l')"
proof (cases "ak_throws ask \<and> may_throw (la_phase l)")
  case True
  then have "la_phase l' = after_throw (la_phase l)" using assms(1) by (auto simp: lane_step_def)
  then show ?thesis using assms(2) True
    by (cases "la_phase l") (simp_all add: after_throw_def may_throw_def ended_def)
next
  case False
  have r: "run_phase env ask db l (la_phase l) = (db', l', ms)" using assms(1) unfolding lane_step_def if_not_P [OF False] .
  show ?thesis by (rule run_phase_moves [OF r assms(2)])
qed

lemma ended_stays:
  assumes "ended (la_phase l)"
  shows "lane_step env ask db l = (db, l, [])"
  using assms by (cases "la_phase l") (simp_all add: ended_def lane_step_def may_throw_def)

lemma lane_run_ended: "ended (la_phase l) \<Longrightarrow> lane_run env as db l = (db, l, [])"
  by (induction as) (simp_all add: ended_stays)

lemma lane_run_moves:
  "lane_run env as db l = (db', l', ms) \<Longrightarrow> ended (la_phase l') \<or> stage (la_phase l) + length as \<le> stage (la_phase l')"
proof (induction as arbitrary: db l ms)
  case (Cons a as)
  show ?case
  proof (cases "ended (la_phase l)")
    case True
    then show ?thesis using Cons.prems by (simp add: ended_stays lane_run_ended)
  next
    case False
    obtain db1 l1 ms1 where s: "lane_step env a db l = (db1, l1, ms1)" by (cases "lane_step env a db l")
    obtain ns where r: "lane_run env as db1 l1 = (db', l', ns)" using Cons.prems s by (auto split: prod.splits)
    show ?thesis using Cons.IH [OF r] lane_step_moves [OF s False] by auto
  qed
qed simp

text \<open>Every moment of a lane on its own is a moment of the worlds.\<close>

lemma run_in_world:
  assumes "lane_run env as (wo_db w) (wo_lanes w ! j) = (db', l', ms)" and "j < length (wo_lanes w)"
    and "\<forall>a \<in> set as. honest a"
  shows "(send_step env)\<^sup>*\<^sup>* w (w\<lparr>wo_db := db', wo_lanes := (wo_lanes w)[j := l'], wo_taken := wo_taken w @ ms\<rparr>)"
  using assms
proof (induction as arbitrary: w db' l' ms)
  case Nil
  then have "wo_db w = db'" "wo_lanes w ! j = l'" "ms = []" by auto
  then show ?case by auto
next
  case (Cons a as)
  obtain db1 l1 ms1 where s: "lane_step env a (wo_db w) (wo_lanes w ! j) = (db1, l1, ms1)"
    by (cases "lane_step env a (wo_db w) (wo_lanes w ! j)")
  let ?w = "w\<lparr>wo_db := db1, wo_lanes := (wo_lanes w)[j := l1], wo_taken := wo_taken w @ ms1\<rparr>"
  obtain ns where r: "lane_run env as db1 l1 = (db', l', ns)" "ms = ms1 @ ns"
    using Cons.prems(1) s by (auto split: prod.splits)
  have "send_step env w ?w" by (rule send_step.run [OF Cons.prems(2) _ s]) (use Cons.prems(3) in simp)
  moreover have "(send_step env)\<^sup>*\<^sup>* ?w (?w\<lparr>wo_db := db', wo_lanes := (wo_lanes ?w)[j := l'], wo_taken := wo_taken ?w @ ns\<rparr>)"
    by (rule Cons.IH) (use r(1) Cons.prems(2,3) in simp_all)
  ultimately show ?case using r(2) by (simp add: converse_rtranclp_into_rtranclp)
qed

section \<open>Nothing goes out unchecked\<close>

text \<open>A run with all its worlds, the last one last.\<close>

inductive history :: "send_deps \<Rightarrow> send_world list \<Rightarrow> bool" for env where
  first: "first_world w \<Longrightarrow> history env [w]"
| step: "history env ws \<Longrightarrow> send_step env (last ws) w \<Longrightarrow> history env (ws @ [w])"

text \<open>What has to hold of the tables at some moment of the job, for the mail it then hands over.\<close>

definition standing_open :: "send_db \<Rightarrow> send_row \<Rightarrow> bool" where
  "standing_open db e \<longleftrightarrow>
     (case fetchTeamStanding (sx_org db) (er_teamId e) of
        None \<Rightarrow> True
      | Some s \<Rightarrow> ts_suspended s = None \<and> (sw_broadcastId e = None \<or> ts_broadcastsPausedByOperatorAt s = None))"

definition rates_open :: "send_db \<Rightarrow> send_row \<Rightarrow> bool" where
  "rates_open db e \<longleftrightarrow> (sw_broadcastId e = None \<and> system_kind e \<noteq> None)
     \<or> (\<exists>now. \<not> deliverabilityHold (sx_org db) (er_teamId e) now)"

definition sender_open :: "send_deps \<Rightarrow> send_db \<Rightarrow> send_row \<Rightarrow> bool" where
  "sender_open env db e \<longleftrightarrow> onboarding env e \<or> sharedSend env e
     \<or> (\<exists>d \<in> set (sx_domains db). ma_domainId e = Some (do_id d) \<and> do_teamId d = er_teamId e \<and> do_status d = DomVerified)"

definition covers :: "text_lib \<Rightarrow> send_row \<Rightarrow> suppression_row \<Rightarrow> string \<Rightarrow> bool" where
  "covers lib e s r \<longleftrightarrow> sp_teamId s = er_teamId e \<and> sp_emailHash s \<in> set (suppressionHashesFor lib r)
     \<and> (ma_contactId e = None \<and> ma_topicId e = None \<longrightarrow> sp_reason s \<noteq> OneClickUnsubscribe)"

definition wanted :: "text_lib \<Rightarrow> send_db \<Rightarrow> send_row \<Rightarrow> bool" where
  "wanted lib db e \<longleftrightarrow>
     (\<forall>r \<in> set (if ma_contactId e = None then all_to e else er_to e). \<forall>s \<in> set (sx_suppressions db). \<not> covers lib e s r)
     \<and> (case ma_contactId e of
          None \<Rightarrow> (case ma_topicId e of
              None \<Rightarrow> True
            | Some t \<Rightarrow> findTopicOptOuts lib (sx_topics db) (er_teamId e) t (all_to e) = Some [])
        | Some c \<Rightarrow>
            (\<exists>x \<in> set (td_contacts (sx_topics db)). ct_id x = c \<and> ct_teamId x = er_teamId e \<and> \<not> ct_unsubscribed x
               \<and> (\<exists>r. er_to e = [r] \<and> hashRecipient lib r = hashRecipient lib (ct_email x)))
            \<and> (case sw_broadcastId e of
                 None \<Rightarrow> True
               | Some b \<Rightarrow> \<exists>x \<in> set (sx_broadcasts db). bc_id x = b \<and> bc_teamId x = er_teamId e \<and> bc_status x \<noteq> BcCanceled))"

lemma js_set_Nil [simp]: "js_set xs = [] \<longleftrightarrow> xs = []"
  by (simp add: js_set_def)

lemma suppressed_none:
  "findSuppressed lib rows t rs b = [] \<longleftrightarrow> (\<forall>r \<in> set rs. \<forall>s \<in> set rows. \<not> (sp_teamId s = t
     \<and> sp_emailHash s \<in> set (suppressionHashesFor lib r) \<and> (b \<longrightarrow> sp_reason s \<noteq> OneClickUnsubscribe)))"
proof -
  have "findSuppressed lib rows t rs b = [] \<longleftrightarrow> set (findSuppressed lib rows t rs b) = {}" by simp
  then show ?thesis unfolding findSuppressed_set by blast
qed

lemma eligible_wanted:
  assumes "checkSendEligibility lib db e = Some (Eligible t [])"
  shows "wanted lib db e"
proof (cases "ma_contactId e")
  case None
  obtain outs where o': "(case ma_topicId e of
        Some t \<Rightarrow> findTopicOptOuts lib (sx_topics db) (er_teamId e) t (all_to e) | None \<Rightarrow> Some []) = Some outs"
    using assms None by (auto simp: checkSendEligibility_def Let_def split: option.splits)
  have n: "findSuppressed lib (sx_suppressions db) (er_teamId e) (all_to e) (ma_topicId e = None) = []" "outs = []"
    using assms None o' by (auto simp: checkSendEligibility_def Let_def split: if_splits)
  then show ?thesis using None o' unfolding suppressed_none
    by (auto simp: wanted_def covers_def split: option.splits)
next
  case (Some c)
  let ?find = "List.find (\<lambda>x. ct_id x = c \<and> ct_teamId x = er_teamId e) (td_contacts (sx_topics db))"
  from assms Some obtain x where x: "?find = Some x" by (auto simp: checkSendEligibility_def split: option.splits)
  have b: "\<not> ct_unsubscribed x" "length (er_to e) = 1" "hashRecipient lib (hd (er_to e)) = hashRecipient lib (ct_email x)"
    "findSuppressed lib (sx_suppressions db) (er_teamId e) (er_to e) False = []"
    using assms Some x by (auto simp: checkSendEligibility_def split: if_splits)
  have bc: "\<exists>y \<in> set (sx_broadcasts db). bc_id y = i \<and> bc_teamId y = er_teamId e \<and> bc_status y \<noteq> BcCanceled"
    if i: "sw_broadcastId e = Some i" for i
  proof -
    obtain y where y: "List.find (\<lambda>x. bc_id x = i \<and> bc_teamId x = er_teamId e) (sx_broadcasts db) = Some y"
      "bc_status y \<noteq> BcCanceled"
      using assms Some x b i by (auto simp: checkSendEligibility_def split: option.splits if_splits)
    then show ?thesis by (auto simp: find_Some_iff)
  qed
  obtain r where r: "er_to e = [r]" using b(2) by (auto simp: length_Suc_conv)
  have "x \<in> set (td_contacts (sx_topics db)) \<and> ct_id x = c \<and> ct_teamId x = er_teamId e"
    using x by (auto simp: find_Some_iff)
  then have "\<exists>x \<in> set (td_contacts (sx_topics db)). ct_id x = c \<and> ct_teamId x = er_teamId e \<and> \<not> ct_unsubscribed x
       \<and> (\<exists>r. er_to e = [r] \<and> hashRecipient lib r = hashRecipient lib (ct_email x))"
    using b(1,3) r by auto
  moreover have "\<forall>r \<in> set (er_to e). \<forall>s \<in> set (sx_suppressions db). \<not> covers lib e s r"
    using b(4) Some unfolding suppressed_none by (auto simp: covers_def)
  ultimately show ?thesis using Some bc by (auto simp: wanted_def split: option.splits)
qed

text \<open>One-click unsubscribe on every mail to a contact, over whatever headers the row brought.\<close>

definition marketing_ok :: "send_deps \<Rightarrow> send_row \<Rightarrow> (string \<times> string) list \<Rightarrow> bool" where
  "marketing_ok env e headers \<longleftrightarrow>
     (case ma_contactId e of
        None \<Rightarrow> True
      | Some c \<Rightarrow> \<exists>base topicId. wk_unsubscribe env = Some base
          \<and> map_of headers ''List-Unsubscribe''
              = Some (CHR ''<'' # buildUnsubscribeUrl env base (wk_token env c topicId (er_id e)) @ ''>'')
          \<and> map_of headers ''List-Unsubscribe-Post'' = Some ''List-Unsubscribe=One-Click'')"

lemma map_of_obj_put: "map_of (obj_put k v es) = (map_of es)(k \<mapsto> v)"
  by (induction es) (auto simp: fun_eq_iff)

lemma send_headers_marketing:
  assumes "send_headers env e domain topicId token = Some headers"
  shows "marketing_ok env e headers"
proof (cases "ma_contactId e")
  case None
  then show ?thesis by (simp add: marketing_ok_def)
next
  case (Some c)
  then obtain base where b: "wk_unsubscribe env = Some base"
    using assms by (auto simp: send_headers_def Let_def)
  then show ?thesis using assms Some
    by (cases domain) (auto simp: send_headers_def Let_def marketing_ok_def buildUnsubscribeHeaders_def obj_spread_def
        map_of_obj_put split: if_splits)
qed

definition cleared :: "send_deps \<Rightarrow> send_world list \<Rightarrow> lane \<Rightarrow> bool" where
  "cleared env ws l \<longleftrightarrow> (stage (la_phase l) \<le> 23 \<longrightarrow>
     (1 < stage (la_phase l) \<longrightarrow> (\<exists>w \<in> set ws. standing_open (wo_db w) (la_mail l)))
     \<and> (5 < stage (la_phase l) \<or> (2 < stage (la_phase l) \<and> sw_broadcastId (la_mail l) = None)
          \<longrightarrow> (\<exists>w \<in> set ws. rates_open (wo_db w) (la_mail l)))
     \<and> (3 < stage (la_phase l) \<longrightarrow> (\<exists>w \<in> set ws. la_domain l = domain_of (wo_db w) (la_mail l)))
     \<and> (9 < stage (la_phase l) \<longrightarrow> (\<exists>w \<in> set ws. sender_open env (wo_db w) (la_mail l)))
     \<and> (16 < stage (la_phase l) \<longrightarrow> marketing_ok env (la_mail l) (la_headers l))
     \<and> (20 < stage (la_phase l) \<longrightarrow> (\<exists>w \<in> set ws. wanted (wk_lib env) (wo_db w) (la_mail l))))"

lemma strip_mail_same [simp]:
  "sw_broadcastId (strip_mail s e) = sw_broadcastId e" "ma_domainId (strip_mail s e) = ma_domainId e"
  "ma_tags (strip_mail s e) = ma_tags e" "er_from (strip_mail s e) = er_from e"
  by (simp_all add: strip_mail_def)

lemma strip_gates [simp]:
  "standing_open db (strip_mail s e) = standing_open db e" "rates_open db (strip_mail s e) = rates_open db e"
  "domain_of db (strip_mail s e) = domain_of db e"
  by (simp_all add: standing_open_def rates_open_def domain_of_def system_kind_def cong: option.case_cong)

lemma cleared_more: "cleared env ws l \<Longrightarrow> set ws \<subseteq> set vs \<Longrightarrow> cleared env vs l"
  unfolding cleared_def by blast

lemma cleared_late: "23 < stage (la_phase l) \<Longrightarrow> cleared env ws l"
  by (simp add: cleared_def)

text \<open>A phase that only moves on, to one with no gate in between.\<close>

lemma cleared_goto:
  assumes "cleared env ws l" "la_mail l' = la_mail l" "la_domain l' = la_domain l" "la_headers l' = la_headers l"
    and "stage (la_phase l) \<le> 23" "1 < stage (la_phase l') \<Longrightarrow> 1 < stage (la_phase l)"
    and "2 < stage (la_phase l') \<Longrightarrow> 2 < stage (la_phase l)" "3 < stage (la_phase l') \<Longrightarrow> 3 < stage (la_phase l)"
    and "5 < stage (la_phase l') \<Longrightarrow> 5 < stage (la_phase l)" "9 < stage (la_phase l') \<Longrightarrow> 9 < stage (la_phase l)"
    and "16 < stage (la_phase l') \<Longrightarrow> 16 < stage (la_phase l)" "20 < stage (la_phase l') \<Longrightarrow> 20 < stage (la_phase l)"
  shows "cleared env ws l'"
  using assms unfolding cleared_def by metis

lemma cleared_phase:
  assumes r: "run_phase env ask (wo_db w) l (la_phase l) = (db', l', ms)" and c: "cleared env ws l" and w: "w \<in> set ws"
  shows "cleared env ws l'"
proof (cases "23 < stage (la_phase l')")
  case True
  then show ?thesis by (rule cleared_late)
next
  case late: False
  show ?thesis
  proof (cases "la_phase l")
    case Schedule
    then have "l' = goto Standing l" using r late by (auto split: option.splits if_splits)
    then show ?thesis by (simp add: cleared_def)
  next
    case Standing
    then have "l' = goto Hold l" "standing_open (wo_db w) (la_mail l)"
      using r late by (auto simp: standing_open_def split: option.splits if_splits)
    then show ?thesis using w by (auto simp: cleared_def)
  next
    case Hold
    then have "l' = goto LoadDomain l" "sw_broadcastId (la_mail l) = None \<Longrightarrow> rates_open (wo_db w) (la_mail l)"
      using r late by (auto simp: rates_open_def split: if_splits)
    then show ?thesis using w c Hold by (auto simp: cleared_def)
  next
    case LoadDomain
    then have "l' = l\<lparr>la_domain := domain_of (wo_db w) (la_mail l),
        la_phase := (if sw_broadcastId (la_mail l) \<noteq> None then BroadcastGate else SesRoom)\<rparr>" using r by auto
    then show ?thesis using w c LoadDomain by (auto simp: cleared_def)
  next
    case BroadcastGate
    then have "l' = goto BulkHold l" using r late by (auto split: option.splits if_splits)
    then show ?thesis using c BroadcastGate by (auto simp: cleared_def)
  next
    case BulkHold
    then have "l' = goto SesRoom l" "rates_open (wo_db w) (la_mail l)"
      using r late by (auto simp: rates_open_def split: if_splits)
    then show ?thesis using w c BulkHold by (auto simp: cleared_def)
  next
    case SesRoom
    then have "l' = goto FirstCheck l" using r late by (auto split: if_splits)
    then show ?thesis using c SesRoom by (auto intro: cleared_goto)
  next
    case FirstCheck
    then obtain t s where "l' = l\<lparr>la_topic := t, la_phase := (if s = [] then Sender else FirstStrip s)\<rparr>"
      using r late by (auto split: option.splits eligibility.splits)
    then show ?thesis using c FirstCheck by (auto intro: cleared_goto)
  next
    case (FirstStrip s)
    then have "l' = l\<lparr>la_mail := strip_mail s (la_mail l), la_phase := Sender\<rparr>" using r by auto
    then show ?thesis using c FirstStrip by (simp add: cleared_def)
  next
    case Sender
    then have s: "l' = goto SharedSwitch l" "onboarding env (la_mail l) \<or> sharedSend env (la_mail l)
        \<or> map_option do_status (la_domain l) = Some DomVerified"
      using r late by (auto split: if_splits)
    obtain v where v: "v \<in> set ws" "la_domain l = domain_of (wo_db v) (la_mail l)"
      using c Sender by (auto simp: cleared_def)
    have "sender_open env (wo_db v) (la_mail l)"
      using s(2) v(2) by (auto simp: sender_open_def domain_of_def find_Some_iff split: option.splits)
    then show ?thesis using c Sender s(1) v(1) by (auto simp: cleared_def)
  next
    case SharedSwitch
    then have "la_mail l' = la_mail l" "la_domain l' = la_domain l" "la_headers l' = la_headers l" "la_phase l' = PoolOwner"
      using r late by (auto simp: Let_def split: option.splits if_splits bool.splits)
    then show ?thesis using c SharedSwitch by (auto intro: cleared_goto)
  next
    case PoolOwner
    then have "la_mail l' = la_mail l" "la_domain l' = la_domain l" "la_headers l' = la_headers l" "la_phase l' = Burst"
      using r late by (auto split: option.splits team_quota.splits)
    then show ?thesis using c PoolOwner by (auto intro: cleared_goto)
  next
    case Burst
    then have "l' = goto Fuse l" using r late by (auto split: option.splits if_splits prod.splits)
    then show ?thesis using c Burst by (auto intro: cleared_goto)
  next
    case Fuse
    then have "l' = goto Body l" using r late by (auto split: if_splits)
    then show ?thesis using c Fuse by (auto intro: cleared_goto)
  next
    case Body
    then have "la_mail l' = la_mail l" "la_domain l' = la_domain l" "la_headers l' = la_headers l" "la_phase l' = Screen"
      using r late by (auto split: option.splits body_answer.splits if_splits)
    then show ?thesis using c Body by (auto intro: cleared_goto)
  next
    case Screen
    then have "l' = goto Compose l" using r late by (auto split: option.splits screen_answer.splits if_splits)
    then show ?thesis using c Screen by (auto intro: cleared_goto)
  next
    case Compose
    then obtain h where "la_mail l' = la_mail l" "la_domain l' = la_domain l" "la_phase l' = Tenant"
      "marketing_ok env (la_mail l) (la_headers l')"
      using r late by (auto simp: Let_def dest: send_headers_marketing split: option.splits)
    then show ?thesis using c Compose by (simp add: cleared_def)
  next
    case Tenant
    then have "l' = l\<lparr>la_tenant := tenant_of env ask (wo_db w) l, la_phase := Throttle\<rparr>" using r by auto
    then show ?thesis using c Tenant by (auto intro: cleared_goto)
  next
    case Throttle
    then have "l' = goto LastCheck l" using r by simp
    then show ?thesis using c Throttle by (auto intro: cleared_goto)
  next
    case LastCheck
    show ?thesis
    proof (cases "la_phase l' = Claim")
      case True
      then obtain t where "checkSendEligibility (wk_lib env) (wo_db w) (la_mail l) = Some (Eligible t [])" "l' = goto Claim l"
        using LastCheck r by (auto split: option.splits eligibility.splits if_splits)
      then have "wanted (wk_lib env) (wo_db w) (la_mail l)" "l' = goto Claim l" using eligible_wanted by auto
      then show ?thesis using w c LastCheck by (auto simp: cleared_def)
    next
      case False
      then obtain s where "l' = goto (LastStrip s) l"
        using LastCheck r late by (auto split: option.splits eligibility.splits if_splits)
      then show ?thesis using c LastCheck by (auto intro: cleared_goto)
    qed
  next
    case Claim
    then have "l' = goto Hand l" using r late by (auto simp: Let_def split: if_splits)
    then show ?thesis using c Claim by (auto intro: cleared_goto)
  next
    case Hand
    then have "l' = goto HandBare l" using r late by (auto split: ses_answer.splits if_splits)
    then show ?thesis using c Hand by (auto intro: cleared_goto)
  next
    case HandBare
    then show ?thesis using r late by (auto split: ses_answer.splits if_splits)
  qed (use r late in \<open>auto split: option.splits if_splits prod.splits\<close>)
qed

lemma cleared_step:
  assumes "lane_step env ask (wo_db w) l = (db', l', ms)" "cleared env ws l" "w \<in> set ws"
  shows "cleared env ws l'"
proof (cases "ak_throws ask \<and> may_throw (la_phase l)")
  case True
  then have "l' = goto (after_throw (la_phase l)) l" using assms(1) by (simp add: lane_step_def)
  then show ?thesis by (intro cleared_late) (simp add: after_throw_def split: phase.splits)
next
  case False
  have r: "run_phase env ask (wo_db w) l (la_phase l) = (db', l', ms)" using assms(1) unfolding lane_step_def if_not_P [OF False] .
  show ?thesis by (rule cleared_phase [OF r assms(2,3)])
qed

text \<open>What SES is handed comes from a lane at the call, with its mail and its headers.\<close>

lemma step_takes:
  assumes "lane_step env ask db l = (db', l', ms)" and "m \<in> set ms"
  shows "(la_phase l = Hand \<or> la_phase l = HandBare) \<and> sm_mail m = la_mail l \<and> sm_headers m = la_headers l"
proof (cases "ak_throws ask \<and> may_throw (la_phase l)")
  case True
  then show ?thesis using assms by (simp add: lane_step_def)
next
  case False
  have r: "run_phase env ask db l (la_phase l) = (db', l', ms)" using assms(1) unfolding lane_step_def if_not_P [OF False] .
  show ?thesis
  proof (cases "special (la_phase l)")
    case False
    then show ?thesis using quiet_phase [OF r] assms(2) by simp
  next
    case True
    then consider "la_phase l = Claim" | "la_phase l = Hand \<or> la_phase l = HandBare" | e where "la_phase l = Refusal e"
      by (auto simp: special_def split: phase.splits)
    then show ?thesis
    proof cases
      case 1
      then show ?thesis using claim_phase [OF r [unfolded 1]] assms(2) by simp
    next
      case 2
      then show ?thesis using r assms(2) by (auto simp: message_of_def split: ses_answer.splits if_splits)
    next
      case 3
      then show ?thesis using release_phase [OF r [unfolded 3]] assms(2) by simp
    qed
  qed
qed

definition sent_clear :: "send_deps \<Rightarrow> send_world list \<Rightarrow> ses_message \<Rightarrow> bool" where
  "sent_clear env ws m \<longleftrightarrow>
     (\<exists>w \<in> set ws. standing_open (wo_db w) (sm_mail m)) \<and> (\<exists>w \<in> set ws. rates_open (wo_db w) (sm_mail m))
     \<and> (\<exists>w \<in> set ws. sender_open env (wo_db w) (sm_mail m)) \<and> (\<exists>w \<in> set ws. wanted (wk_lib env) (wo_db w) (sm_mail m))
     \<and> marketing_ok env (sm_mail m) (sm_headers m)"

lemma sent_clear_more: "sent_clear env ws m \<Longrightarrow> set ws \<subseteq> set vs \<Longrightarrow> sent_clear env vs m"
  unfolding sent_clear_def by blast

lemma cleared_sent:
  assumes "cleared env ws l" "la_phase l = Hand \<or> la_phase l = HandBare" "sm_mail m = la_mail l" "sm_headers m = la_headers l"
  shows "sent_clear env ws m"
proof -
  have "1 < stage (la_phase l)" "5 < stage (la_phase l)" "9 < stage (la_phase l)" "16 < stage (la_phase l)"
    "20 < stage (la_phase l)" "stage (la_phase l) \<le> 23"
    using assms(2) by auto
  then show ?thesis using assms(1) unfolding cleared_def sent_clear_def assms(3,4) by blast
qed

lemma step_cleared:
  assumes s: "send_step env w v" and w: "w \<in> set ws"
    and L: "\<And>l. l \<in> set (wo_lanes w) \<Longrightarrow> cleared env ws l" and M: "\<And>m. m \<in> set (wo_taken w) \<Longrightarrow> sent_clear env ws m"
  shows "(\<forall>l \<in> set (wo_lanes v). cleared env ws l) \<and> (\<forall>m \<in> set (wo_taken v). sent_clear env ws m)"
  using s
proof cases
  case (start i l)
  have "stage (la_phase l) = 0" using start(2) by (auto simp: start_lane_def split: option.splits if_splits)
  then have "cleared env ws l" by (simp add: cleared_def)
  moreover have "set (wo_lanes v) = insert l (set (wo_lanes w))" "wo_taken v = wo_taken w" by (simp_all add: start(1))
  ultimately show ?thesis using L M by simp
next
  case (run j ask db' l' ms)
  have c: "cleared env ws (wo_lanes w ! j)" by (rule L) (simp add: run(2))
  have n: "cleared env ws l'" by (rule cleared_step [OF run(4) c w])
  have m: "sent_clear env ws m" if m: "m \<in> set ms" for m
    by (rule cleared_sent [OF c]) (use step_takes [OF run(4) m] in blast)+
  have sub: "set (wo_lanes v) \<subseteq> insert l' (set (wo_lanes w))" by (simp add: run(1) set_update_subset_insert)
  have "set (wo_taken v) \<subseteq> set (wo_taken w) \<union> set ms" by (simp add: run(1))
  then show ?thesis using L M n m sub by blast
next
  case (crash j)
  have n: "cleared env ws (goto Threw (wo_lanes w ! j))" by (simp add: cleared_late)
  have sub: "set (wo_lanes v) \<subseteq> insert (goto Threw (wo_lanes w ! j)) (set (wo_lanes w))"
    by (simp add: crash(1) set_update_subset_insert)
  have "set (wo_taken v) \<subseteq> set (wo_taken w)" by (simp add: crash(1))
  then show ?thesis using L M n sub by blast
next
  case (mails ms)
  then show ?thesis using L M by simp
next
  case (elsewhere db')
  then show ?thesis using L M by simp
qed

lemma history_inv:
  "history env ws \<Longrightarrow> ws \<noteq> [] \<and> (\<forall>l \<in> set (wo_lanes (last ws)). cleared env ws l)
     \<and> (\<forall>m \<in> set (wo_taken (last ws)). sent_clear env ws m)"
proof (induction rule: history.induct)
  case (first w)
  then show ?case by (simp add: first_world_def)
next
  case (step ws v)
  have w: "last ws \<in> set (ws @ [v])" using step.IH by simp
  have sub: "set ws \<subseteq> set (ws @ [v])" by auto
  have "cleared env (ws @ [v]) l" if "l \<in> set (wo_lanes (last ws))" for l
    using step.IH that cleared_more [OF _ sub] by blast
  moreover have "sent_clear env (ws @ [v]) m" if "m \<in> set (wo_taken (last ws))" for m
    using step.IH that sent_clear_more [OF _ sub] by blast
  ultimately have "(\<forall>l \<in> set (wo_lanes v). cleared env (ws @ [v]) l) \<and> (\<forall>m \<in> set (wo_taken v). sent_clear env (ws @ [v]) m)"
    by (rule step_cleared [OF step.hyps(2) w])
  then show ?case by simp
qed

end
