(* ===== verification/SendProps.thy ===== *)
theory SendProps
  imports SendWorker
begin

text \<open>
  What the send worker promises, over the worlds of \<open>SendWorker\<close>, with a run of the whole handler as their common
  instance.
\<close>

section \<open>An instance\<close>

lemma history_exists:
  "(send_step env)\<^sup>*\<^sup>* w w' \<Longrightarrow> first_world w \<Longrightarrow> \<exists>ws. history env ws \<and> last ws = w'"
proof (induction rule: rtranclp_induct)
  case base
  then show ?case by (metis history.first last.simps)
next
  case (step y z)
  then obtain ws where "history env ws" "last ws = y" by blast
  then have "history env (ws @ [z])" using step.hyps(2) by (intro history.step) simp_all
  then show ?case by (metis last_snoc)
qed

definition demo_deps :: send_deps where
  "demo_deps = \<lparr>wk_lib = demo_text, wk_isCloud = True, wk_defaultConfigurationSet = None, wk_onboardingEmailFrom = None,
     wk_sharedInboxDomain = None, wk_freeBurst = True, wk_sesQuota = True, wk_monitor = True,
     wk_unsubscribe = Some ''https://m.io'', wk_resolve = (\<lambda>path base. base @ path), wk_token = (\<lambda>c t e. c @ e),
     wk_tracking = None, wk_rewrite = (\<lambda>e base b skip html. html)\<rparr>"

definition demo_send_team :: org_team where
  "demo_send_team = \<lparr>ot_row = \<lparr>tr_plan = System, tr_planQuota = None, tr_planStatus = SNone, tr_currentPeriodStart = None,
       tr_currentPeriodEnd = None, tr_overageEnabled = False, tr_dailySendCeiling = None, tr_poolOwnerId = None\<rparr>,
     ot_suspendedAt = None, ot_suspensionReason = None, ot_suspensionNote = None, ot_broadcastsPausedByOperatorAt = None\<rparr>"

definition demo_send_mail :: send_row where
  "demo_send_mail = \<lparr>er_id = ''e1'', er_teamId = ''t1'', er_latestStatus = Queued, er_sentAt = None, er_parkReason = None,
     er_sesMessageId = None, er_from = ''a@b.c'', er_to = [''d@e.f''], er_subject = ''hi'', ma_domainId = Some ''d1'',
     ma_apiKeyId = None, ma_contactId = Some ''c1'', ma_topicId = None, ma_cc = None, ma_bcc = None, ma_replyTo = None,
     ma_tags = None, ma_headers = None, ma_body = Some ''sealed'', ma_attachments = None, ma_bodyPurgedAt = None,
     ma_scheduledAt = None, ma_parkedAt = None, ma_inboxId = None, ma_threadId = None, ma_firstContact = False,
     sw_broadcastId = Some ''b1'', sw_freeBurstAt = None, sw_createdAt = 0\<rparr>"

definition demo_send_db :: send_db where
  "demo_send_db = \<lparr>sx_mails = [demo_send_mail],
     sx_org = \<lparr>og_teams = [''t1'' \<mapsto> demo_send_team], og_counters = [], og_pool = [], og_emails = [], og_members = [],
       og_users = [], og_signups = [], og_contacts = [], og_activity = [], og_audit = [], og_flags = []\<rparr>,
     sx_usage = \<lparr>ud_counters = Map.empty, ud_pool = Map.empty, ud_periods = Map.empty, ud_hourly = Map.empty, ud_bursts = Map.empty\<rparr>,
     sx_sent = Map.empty, sx_suppressions = [],
     sx_topics = \<lparr>td_topics = [], td_subs = [],
       td_contacts = [\<lparr>ct_id = ''c1'', ct_teamId = ''t1'', ct_email = ''d@e.f'', ct_unsubscribed = False,
         ct_unsubscribedAt = None, ct_updatedAt = 0\<rparr>], td_broadcasts = [], td_mails = []\<rparr>,
     sx_broadcasts = [\<lparr>bc_id = ''b1'', bc_teamId = ''t1'', bc_topicId = None, bc_status = BcSending\<rparr>],
     sx_domains = [\<lparr>do_id = ''d1'', do_teamId = ''t1'', do_name = ''b.c'', do_status = DomVerified, do_configurationSet = None,
       do_region = ''us'', do_clickTracking = True, do_openTracking = True, do_trackingSubdomain = None,
       do_trackingSubdomainSetAt = None, do_tenantAssociatedAt = None, do_tenantConfigSet = None\<rparr>],
     sx_tenants = Map.empty, sx_inboxes = Map.empty, sx_events = [], sx_endpoints = [], sx_deliveries = [], sx_codes = [],
     sx_jobs = []\<rparr>"

definition demo_send_ask :: send_ask where
  "demo_send_ask = \<lparr>ak_now = 1000, ak_later = 1001, ak_throws = False, ak_exhausted = False, ak_bulkExhausted = False,
     ak_paused = False, ak_settings = None, ak_fuseHolds = False, ak_body = BodyRead (Some ''<p>'') None,
     ak_screen = ScreenGo, ak_sharedTenant = None, ak_ses = SesTook ''ses-1'', ak_refresh = False,
     ak_draw = (\<lambda>t n. (t, t))\<rparr>"

definition demo_lane :: lane where
  "demo_lane = the (start_lane demo_send_db ''e1'')"

lemma demo_lane_starts: "start_lane demo_send_db ''e1'' = Some demo_lane"
  by (simp add: demo_lane_def start_lane_def demo_send_db_def demo_send_mail_def)

definition demo_world :: "send_db \<Rightarrow> lane list \<Rightarrow> ses_message list \<Rightarrow> send_world" where
  "demo_world db ls ms = \<lparr>wo_db = db, wo_lanes = ls, wo_taken = ms\<rparr>"

lemma demo_run:
  "\<exists>db l m. lane_run demo_deps (replicate 36 demo_send_ask) demo_send_db demo_lane = (db, l, [m])
     \<and> la_phase l = Done Accepted \<and> sm_mail m = demo_send_mail"
proof -
  have "(case lane_run demo_deps (replicate 36 demo_send_ask) demo_send_db demo_lane of
     (db, l, ms) \<Rightarrow> la_phase l = Done Accepted \<and> map sm_mail ms = [demo_send_mail])"
    by code_simp
  then show ?thesis by (auto split: prod.splits)
qed

text \<open>Two jobs for one email start; the first runs to its end.\<close>

lemma demo_reached:
  "\<exists>db l m. first_world (demo_world demo_send_db [] [])
     \<and> (send_step demo_deps)\<^sup>*\<^sup>* (demo_world demo_send_db [] []) (demo_world db [l, demo_lane] [m])
     \<and> la_phase l = Done Accepted \<and> sm_mail m = demo_send_mail"
proof -
  obtain db l m where r: "lane_run demo_deps (replicate 36 demo_send_ask) demo_send_db demo_lane = (db, l, [m])"
    and f: "la_phase l = Done Accepted" "sm_mail m = demo_send_mail"
    using demo_run by blast
  let ?w0 = "demo_world demo_send_db [] []"
  let ?w1 = "demo_world demo_send_db [demo_lane] []"
  let ?w2 = "demo_world demo_send_db [demo_lane, demo_lane] []"
  have "send_step demo_deps ?w0 ?w1" "send_step demo_deps ?w1 ?w2"
    using send_step.start [of ?w0 "''e1''" demo_lane demo_deps] send_step.start [of ?w1 "''e1''" demo_lane demo_deps]
    by (simp_all add: demo_world_def demo_lane_starts)
  moreover have "(send_step demo_deps)\<^sup>*\<^sup>* ?w2 (demo_world db [l, demo_lane] [m])"
    using run_in_world [of demo_deps "replicate 36 demo_send_ask" ?w2 0 db l "[m]"] r
    by (simp add: demo_world_def honest_def demo_send_ask_def)
  ultimately have "(send_step demo_deps)\<^sup>*\<^sup>* ?w0 (demo_world db [l, demo_lane] [m])"
    by (meson converse_rtranclp_into_rtranclp)
  moreover have "first_world ?w0" by (simp add: first_world_def demo_world_def demo_send_db_def)
  ultimately show ?thesis using f by blast
qed

section \<open>Properties\<close>







end
