(* ===== verification/SendBook.thy ===== *)
theory SendBook
  imports SendProps
begin

text \<open>
  What a lane leaves behind: the bookkeeping of a mail SES took, what becomes of one it refused, and the pages of the
  sweep that hands lost mail to the queue again.
\<close>

section \<open>Lemmas\<close>

lemma unthrown: "\<not> ak_throws a \<Longrightarrow> lane_step env a db l = run_phase env a db l (la_phase l)"
  by (simp add: lane_step_def)

lemma hourly_sent:
  "bumpHourlyUsage t at' [USent \<mapsto> 1] u = u\<lparr>ud_hourly := (ud_hourly u)((t, utcHour at') \<mapsto>
     (case ud_hourly u (t, utcHour at') of None \<Rightarrow> (\<lambda>_. 0)(USent := 1) | Some row \<Rightarrow> row(USent := row USent + 1)))\<rparr>"
proof -
  have e: "count_entries USAGE_COUNTERS [USent \<mapsto> 1] = [(USent, 1)]" by (simp add: count_entries_def USAGE_COUNTERS_def)
  show ?thesis by (simp add: bumpHourlyUsage_def e add_entries_def upsert_def split: option.splits)
qed

definition pool_plus :: "int \<Rightarrow> pool_row \<Rightarrow> pool_row" where
  "pool_plus nf r = r\<lparr>pr_sent := pr_sent r + 1, pr_sentNoFeedback := pr_sentNoFeedback r + nf\<rparr>"

lemma pool_sent:
  assumes "ow \<noteq> []"
  shows "bumpFreePoolUsage teams (ByOwner ow) day [PSent \<mapsto> 1, PSentNoFeedback \<mapsto> nf] now u
    = u\<lparr>ud_pool := (ud_pool u)((ow, day) \<mapsto> pool_plus nf (case ud_pool u (ow, day) of None \<Rightarrow> empty_pool_row | Some r \<Rightarrow> r))\<rparr>"
proof -
  have e: "count_entries FREE_POOL_COUNTERS [PSent \<mapsto> 1, PSentNoFeedback \<mapsto> nf]
      = (if nf = 0 then [(PSent, 1)] else [(PSent, 1), (PSentNoFeedback, nf)])"
    by (simp add: count_entries_def FREE_POOL_COUNTERS_def)
  show ?thesis using assms unfolding bumpFreePoolUsage_def Let_def e
    by (cases "nf = 0") (simp_all add: upsert_def pool_plus_def split: option.splits)
qed

definition sent_row :: "lane \<Rightarrow> string \<Rightarrow> instant \<Rightarrow> send_row \<Rightarrow> send_row" where
  "sent_row l mid now r =
     (let s = r\<lparr>er_sesMessageId := Some mid, er_latestStatus := max (er_latestStatus r) Sent\<rparr>
      in if credential (la_mail l) then purgedEmailBodyColumns now s else s)"

lemma purge_frame [simp]:
  "sx_events (purgeCredential e now db) = sx_events db" "sx_sent (purgeCredential e now db) = sx_sent db"
  "sx_usage (purgeCredential e now db) = sx_usage db" "sx_deliveries (purgeCredential e now db) = sx_deliveries db"
  "sx_endpoints (purgeCredential e now db) = sx_endpoints db" "sx_codes (purgeCredential e now db) = sx_codes db"
  "sx_jobs (purgeCredential e now db) = sx_jobs db"
  by (simp_all add: purgeCredential_def)

lemma flip_sent:
  "applyStatusCas i Sent ms = Some (map (\<lambda>r. if er_id r = i then r\<lparr>er_latestStatus := max (er_latestStatus r) Sent\<rparr> else r) ms,
     returning (\<lambda>r. er_id r = i \<and> er_latestStatus r < Sent) (\<lambda>r. r\<lparr>er_latestStatus := Sent\<rparr>) ms \<noteq> [])"
proof -
  obtain ms' b where c: "applyStatusCas i Sent ms = Some (ms', b)" using cas_defined [of Sent i ms] by auto
  moreover have "b = (returning (\<lambda>r. er_id r = i \<and> er_latestStatus r < Sent) (\<lambda>r. r\<lparr>er_latestStatus := Sent\<rparr>) ms \<noteq> [])"
    using c by (simp add: applyStatusCas_def Let_def split: if_splits)
  ultimately show ?thesis using cas_value [OF c] by simp
qed

text \<open>Row by row: the id, the status and the purge of one mail.\<close>

lemma book_rows:
  "sx_mails (purgeCredential (la_mail l) now (db\<lparr>sx_mails := map (\<lambda>r. if er_id r = lane_id l
       then r\<lparr>er_latestStatus := max (er_latestStatus r) Sent\<rparr> else r)
     (update_rows (\<lambda>r. er_id r = lane_id l) (\<lambda>r. r\<lparr>er_sesMessageId := Some mid\<rparr>) ms)\<rparr>))
   = map (\<lambda>r. if er_id r = lane_id l then sent_row l mid now r else r) ms"
  by (auto simp: purgeCredential_def update_rows_def sent_row_def purgedEmailBodyColumns_def Let_def)

definition booked :: "send_deps \<Rightarrow> lane \<Rightarrow> instant \<Rightarrow> usage_db \<Rightarrow> usage_db" where
  "booked env l at' u =
     (let h = (er_teamId (la_mail l), utcHour at');
          u1 = u\<lparr>ud_hourly := (ud_hourly u)(h \<mapsto> (case ud_hourly u h of None \<Rightarrow> (\<lambda>_. 0)(USent := 1)
                 | Some row \<Rightarrow> row(USent := row USent + 1)))\<rparr>
      in case la_pool l of
           None \<Rightarrow> u1
         | Some ow \<Rightarrow> if ow = [] then u1
             else u1\<lparr>ud_pool := (ud_pool u)((ow, utcDay at') \<mapsto> pool_plus (no_feedback (wk_lib env) (la_mail l))
                (case ud_pool u (ow, utcDay at') of None \<Rightarrow> empty_pool_row | Some r \<Rightarrow> r))\<rparr>)"

lemma booked_phases:
  "count_pool env (l\<lparr>la_sentAt := at', la_phase := p\<rparr>) (bumpHourlyUsage (er_teamId (la_mail l)) at' [USent \<mapsto> 1] u)
   = booked env l at' u"
  by (simp add: count_pool_def hourly_sent pool_sent booked_def Let_def split: option.splits)

lemma length9: "length xs = 9 \<Longrightarrow> \<exists>a b c d e f g h i. xs = [a, b, c, d, e, f, g, h, i]"
  by (auto simp: numeral_eq_Suc length_Suc_conv)

lemma length4: "length xs = 4 \<Longrightarrow> \<exists>a b c d. xs = [a, b, c, d]"
  by (auto simp: numeral_eq_Suc length_Suc_conv)

lemma lane_run_Cons:
  "lane_step env a db l = (db1, l1, ms) \<Longrightarrow> lane_run env (a # as) db l =
     (fst (lane_run env as db1 l1), fst (snd (lane_run env as db1 l1)), ms @ snd (snd (lane_run env as db1 l1)))"
  by (simp split: prod.splits)

text \<open>The nine phases after SES took a message, one after the other.\<close>

lemma book_run:
  assumes "la_phase l = Record mid" and "\<forall>a \<in> set [a1, a2, a3, a4, a5, a6, a7, a8, a9]. \<not> ak_throws a"
  shows "\<exists>db' l'. lane_run env [a1, a2, a3, a4, a5, a6, a7, a8, a9] db l = (db', l', []) \<and> la_phase l' = Done Accepted
    \<and> sx_mails db' = map (\<lambda>r. if er_id r = lane_id l then sent_row l mid (ak_now a7) r else r) (sx_mails db)
    \<and> sx_events db' = sx_events db @ [sent_event a3 (la_mail l)]
    \<and> sx_sent db' = count_sent (er_teamId (la_mail l), utcDay (ak_now a4)) (no_feedback (wk_lib env) (la_mail l)) (sx_sent db)
    \<and> sx_usage db' = booked env l (ak_now a4) (sx_usage db)
    \<and> sx_deliveries db' = notify_sent a8 (la_mail l) db \<and> sx_jobs db' = sx_jobs db"
proof -
  let ?ms1 = "update_rows (\<lambda>r. er_id r = lane_id l) (\<lambda>r. r\<lparr>er_sesMessageId := Some mid\<rparr>) (sx_mails db)"
  let ?db1 = "db\<lparr>sx_mails := ?ms1\<rparr>"
  let ?ms2 = "map (\<lambda>r. if er_id r = lane_id l then r\<lparr>er_latestStatus := max (er_latestStatus r) Sent\<rparr> else r) ?ms1"
  let ?db2 = "db\<lparr>sx_mails := ?ms2\<rparr>"
  let ?db3 = "?db2\<lparr>sx_events := sx_events db @ [sent_event a3 (la_mail l)]\<rparr>"
  let ?db4 = "?db3\<lparr>sx_sent := count_sent (er_teamId (la_mail l), utcDay (ak_now a4)) (no_feedback (wk_lib env) (la_mail l)) (sx_sent db)\<rparr>"
  let ?l4 = "l\<lparr>la_sentAt := ak_now a4, la_phase := CountHour\<rparr>"
  let ?l5 = "l\<lparr>la_sentAt := ak_now a4, la_phase := CountPool\<rparr>"
  let ?db5 = "?db4\<lparr>sx_usage := bumpHourlyUsage (er_teamId (la_mail l)) (ak_now a4) [USent \<mapsto> 1] (sx_usage db)\<rparr>"
  let ?db6 = "?db5\<lparr>sx_usage := count_pool env ?l5 (sx_usage ?db5)\<rparr>"
  let ?db7 = "purgeCredential (la_mail l) (ak_now a7) ?db6"
  let ?db8 = "?db7\<lparr>sx_deliveries := notify_sent a8 (la_mail l) ?db7\<rparr>"
  have "lane_step env a1 db l = (?db1, goto Flip l, [])" using assms by (simp add: unthrown)
  moreover have "lane_step env a2 ?db1 (goto Flip l) = (?db2, goto LogSent l, [])"
    using assms(2) by (simp add: unthrown flip_sent goto_def)
  moreover have "lane_step env a3 ?db2 (goto LogSent l) = (?db3, goto Count l, [])"
    using assms(2) by (simp add: unthrown goto_def)
  moreover have "lane_step env a4 ?db3 (goto Count l) = (?db4, ?l4, [])"
    using assms(2) by (simp add: unthrown goto_def)
  moreover have "lane_step env a5 ?db4 ?l4 = (?db5, ?l5, [])" using assms(2) by (simp add: unthrown goto_def)
  moreover have "lane_step env a6 ?db5 ?l5 = (?db6, goto Purge ?l5, [])" using assms(2) by (simp add: unthrown)
  moreover have "lane_step env a7 ?db6 (goto Purge ?l5) = (?db7, goto Notify ?l5, [])"
    using assms(2) by (simp add: unthrown goto_def)
  moreover have "lane_step env a8 ?db7 (goto Notify ?l5) = (?db8, goto (Close Accepted) ?l5, [])"
    using assms(2) by (simp add: unthrown goto_def)
  moreover have "lane_step env a9 ?db8 (goto (Close Accepted) ?l5) = (?db8, goto (Done Accepted) ?l5, [])"
    using assms(2) by (simp add: unthrown goto_def)
  ultimately have run: "lane_run env [a1, a2, a3, a4, a5, a6, a7, a8, a9] db l = (?db8, goto (Done Accepted) ?l5, [])"
    by (simp only: lane_run.simps prod.case append.simps)
  have rows: "sx_mails ?db8 = map (\<lambda>r. if er_id r = lane_id l then sent_row l mid (ak_now a7) r else r) (sx_mails db)"
    by (auto simp: purgeCredential_def update_rows_def sent_row_def purgedEmailBodyColumns_def Let_def)
  have usage: "sx_usage ?db8 = booked env l (ak_now a4) (sx_usage db)" by (simp add: booked_phases)
  have ds: "sx_deliveries ?db8 = notify_sent a8 (la_mail l) db" by (simp add: notify_sent_def)
  show ?thesis
    by (intro exI conjI, rule run, simp, rule rows, simp, simp, rule usage, rule ds, simp)
qed

section \<open>A refusal\<close>

definition row_of :: "ident \<Rightarrow> send_db \<Rightarrow> send_row option" where
  "row_of i db = List.find (\<lambda>r. er_id r = i) (sx_mails db)"

lemma find_unique:
  "distinct (map er_id ms) \<Longrightarrow> r \<in> set ms \<Longrightarrow> er_id r = i \<Longrightarrow> List.find (\<lambda>r. er_id r = i) ms = Some r"
  by (induction ms) (auto intro: rev_image_eqI)

lemma find_updated:
  assumes "List.find (\<lambda>r. er_id r = i) ms = Some r" and "\<And>q. P q \<Longrightarrow> er_id (f q) = er_id q"
  shows "List.find (\<lambda>r. er_id r = i) (update_rows P f ms) = Some (if P r then f r else r)"
  using assms by (induction ms) (auto simp: update_rows_def split: if_splits)

lemma find_id: "List.find (\<lambda>r. er_id r = i) ms = Some r \<Longrightarrow> er_id r = i \<and> r \<in> set ms"
  by (auto simp: find_Some_iff)

lemma unclaim:
  assumes "row_of (lane_id l) db = Some r" and "er_latestStatus r = Queued"
  shows "row_of (lane_id l) (db\<lparr>sx_mails := update_rows (\<lambda>r. er_id r = lane_id l \<and> er_latestStatus r = Queued)
     (\<lambda>r. r\<lparr>er_sentAt := None\<rparr>) (sx_mails db)\<rparr>) = Some (r\<lparr>er_sentAt := None\<rparr>)"
  using assms find_id [of "lane_id l" "sx_mails db" r] by (simp add: row_of_def find_updated)

lemma give_back_row: "give_back t n now db = Some db' \<Longrightarrow> row_of i db' = row_of i db"
  by (simp add: row_of_def give_back_mails)

lemma parked_row:
  assumes p: "parkQueued lib e reason now db = Some db'" and r: "row_of (er_id e) db = Some r"
    and q: "er_latestStatus r = Queued" "er_sentAt r = None"
  shows "row_of (er_id e) db' = Some (r\<lparr>er_latestStatus := QueuedQuota, er_parkReason := reason, ma_parkedAt := Some now\<rparr>)"
proof -
  let ?T = "\<lambda>x. er_id x = er_id e \<and> er_latestStatus x = Queued \<and> er_sentAt x = None"
  let ?t = "\<lambda>x. x\<lparr>er_latestStatus := QueuedQuota\<rparr>"
  let ?P = "\<lambda>x. er_id x = er_id e"
  let ?f = "\<lambda>x. x\<lparr>er_parkReason := reason, ma_parkedAt := Some now\<rparr>"
  have i: "er_id r = er_id e" "r \<in> set (sx_mails db)" using r find_id by (auto simp: row_of_def)
  have t: "transitionQueueState (er_id e) QSQueued QSQueuedQuota (sx_mails db) = (update_rows ?T ?t (sx_mails db), True)"
    using i q by (auto simp: transitionQueueState_def Let_def returning_Nil_iff intro!: bexI [of _ r])
  have f1: "List.find ?P (update_rows ?T ?t (sx_mails db)) = Some (?t r)"
    using find_updated [of "er_id e" "sx_mails db" r ?T ?t] r q i by (simp add: row_of_def)
  have f2: "List.find ?P (update_rows ?P ?f (update_rows ?T ?t (sx_mails db))) = Some (?f (?t r))"
    using find_updated [OF f1, of ?P ?f] i by simp
  have "sx_mails db' = update_rows ?P ?f (update_rows ?T ?t (sx_mails db))"
    using p t by (auto simp: parkQueued_def Let_def dest!: give_back_mails split: list.splits)
  then show ?thesis using f2 by (simp add: row_of_def)
qed

lemma failed_row:
  assumes e: "endQueuedEmail draw i EndFailed reason True now db = (db', b)" and r: "row_of i db = Some r"
    and q: "er_latestStatus r = Queued" "er_sesMessageId r = None"
  shows "b \<and> row_of i db' = Some (r\<lparr>er_latestStatus := Failed, er_sentAt := None\<rparr>)"
proof -
  let ?G = "\<lambda>r. er_id r = i \<and> er_latestStatus r = Queued \<and> (True \<or> er_sentAt r = None)"
  have i: "er_id r = i" "r \<in> set (sx_mails db)" using r find_id by (auto simp: row_of_def)
  have m: "may_end ?G r" using i q by (simp add: may_end_def)
  have n: "0 < length (returning (may_end ?G) (end_row EndFailed) (sx_mails db))"
    using m i by (auto simp: returning_Nil_iff intro!: bexI [of _ r])
  have "sx_mails db' = update_rows (may_end ?G) (end_row EndFailed) (sx_mails db) \<and> b"
    using e n by (auto simp: endQueuedEmail_def end_queued_def endQueuedEmails_def Let_def)
  moreover have "List.find (\<lambda>r. er_id r = i) (update_rows (may_end ?G) (end_row EndFailed) (sx_mails db)) = Some (end_row EndFailed r)"
    using find_updated [of i "sx_mails db" r "may_end ?G" "end_row EndFailed"] r m
    by (simp add: row_of_def end_row_def)
  ultimately show ?thesis by (simp add: row_of_def end_row_def)
qed

lemma close_row [simp]: "row_of i (db\<lparr>sx_codes := c\<rparr>) = row_of i db"
  by (simp add: row_of_def)

lemma refusal_ends:
  assumes "la_phase l = Refusal e" and "cx_name e \<in> set TERMINAL_SES_ERRORS" and "row_of (lane_id l) db = Some r"
    and "er_latestStatus r = Queued" and "er_sesMessageId r = None" and "\<forall>a \<in> set [a1, a2, a3, a4]. \<not> ak_throws a"
    and "lane_run env [a1, a2, a3, a4] db l = (db', l', ms)"
  shows "ms = [] \<and> la_phase l' = Done FailedOut \<and> row_of (lane_id l) db' = Some (r\<lparr>er_latestStatus := Failed, er_sentAt := None\<rparr>)"
proof -
  let ?why = "''ses_'' @ cx_name e"
  obtain db1 b where e: "endQueuedEmail (ak_draw a2) (lane_id l) EndFailed ?why True (ak_now a2) db = (db1, b)" by fastforce
  note f = failed_row [OF e assms(3-5)]
  have "lane_run env [a1, a2, a3, a4] db l
      = (db1\<lparr>sx_codes := noteConsoleCodeUndelivered (la_mail l) (ak_now a3) (sx_codes db1)\<rparr>, goto (Done FailedOut) l, [])"
    using assms(1,2,6) e f by (simp add: unthrown goto_def)
  then show ?thesis using assms(7) f by auto
qed

text \<open>The rows once a refusal has let go of its claim.\<close>

definition let_go :: "lane \<Rightarrow> send_db \<Rightarrow> send_db" where
  "let_go l db = db\<lparr>sx_mails := update_rows (\<lambda>r. er_id r = lane_id l \<and> er_latestStatus r = Queued)
     (\<lambda>r. r\<lparr>er_sentAt := None\<rparr>) (sx_mails db)\<rparr>"

lemma let_go_step:
  "la_phase l = Refusal e \<Longrightarrow> cx_name e \<notin> set TERMINAL_SES_ERRORS \<Longrightarrow> \<not> ak_throws a \<Longrightarrow>
   lane_step env a db l = (let_go l db, goto (Released e) l, [])"
  by (simp add: unthrown let_go_def)

lemma throw_out:
  assumes "la_phase l = Catch" and "\<not> ak_throws a"
  shows "\<exists>db'. lane_step env a db l = (db', goto Threw l, []) \<and> (\<forall>i. row_of i db' = row_of i db)"
  using assms by (simp add: unthrown)

lemma refusal_retries:
  assumes "la_phase l = Refusal e" and "cx_name e \<notin> set TERMINAL_SES_ERRORS" and "row_of (lane_id l) db = Some r"
    and "er_latestStatus r = Queued" and "\<forall>a \<in> set [a1, a2, a3, a4]. \<not> ak_throws a"
    and "lane_run env [a1, a2, a3, a4] db l = (db', l', ms)"
    and "\<not> (isSesQuotaRefusal e \<or> (isSesThrottle e \<and> wk_sesQuota env \<and> ak_refresh a2))"
  shows "ms = [] \<and> la_phase l' = Threw \<and> row_of (lane_id l) db' = Some (r\<lparr>er_sentAt := None\<rparr>)"
proof -
  have s1: "lane_step env a1 db l = (let_go l db, goto (Released e) l, [])" using assms by (intro let_go_step) simp_all
  have s2: "lane_step env a2 (let_go l db) (goto (Released e) l) = (let_go l db, goto Catch l, [])"
    using assms(5,7) by (simp add: unthrown goto_def)
  obtain db1 where s3: "lane_step env a3 (let_go l db) (goto Catch l) = (db1, goto Threw l, [])"
    and rows: "\<forall>i. row_of i db1 = row_of i (let_go l db)"
    using throw_out [of "goto Catch l" a3 env "let_go l db"] assms(5) by (auto simp: goto_def)
  have s4: "lane_step env a4 db1 (goto Threw l) = (db1, goto Threw l, [])" using assms(5) by (simp add: unthrown)
  have "lane_run env [a1, a2, a3, a4] db l = (db1, goto Threw l, [])"
    by (simp only: lane_run.simps s1 s2 s3 s4 prod.case append_Nil)
  then show ?thesis using assms(6) rows unclaim [OF assms(3,4)] by (auto simp: let_go_def)
qed

lemma refusal_parks:
  assumes "la_phase l = Refusal e" and "cx_name e \<notin> set TERMINAL_SES_ERRORS" and "row_of (lane_id l) db = Some r"
    and "er_latestStatus r = Queued" and "\<forall>a \<in> set [a1, a2, a3, a4]. \<not> ak_throws a"
    and "lane_run env [a1, a2, a3, a4] db l = (db', l', ms)"
    and "isSesQuotaRefusal e \<or> (isSesThrottle e \<and> wk_sesQuota env \<and> ak_refresh a2)"
  shows "ms = [] \<and> (\<exists>r'. row_of (lane_id l) db' = Some r' \<and> er_sentAt r' = None
    \<and> (la_phase l' = Done ParkedOut \<and> er_latestStatus r' = QueuedQuota \<or> la_phase l' = Threw \<and> er_latestStatus r' = Queued))"
proof -
  let ?db = "let_go l db"
  have row: "row_of (lane_id l) ?db = Some (r\<lparr>er_sentAt := None\<rparr>)" using unclaim [OF assms(3,4)] by (simp add: let_go_def)
  have s1: "lane_step env a1 db l = (?db, goto (Released e) l, [])" using assms by (intro let_go_step) simp_all
  have s2: "lane_step env a2 ?db (goto (Released e) l) = (?db, goto (Park None) l, [])"
    using assms(5,7) by (auto simp: unthrown goto_def)
  show ?thesis
  proof (cases "parkQueued (wk_lib env) (la_mail l) None (ak_now a3) ?db")
    case None
    have s3: "lane_step env a3 ?db (goto (Park None) l) = (?db, goto Catch l, [])"
      using assms(5) None by (simp add: unthrown goto_def)
    obtain db1 where s4: "lane_step env a4 ?db (goto Catch l) = (db1, goto Threw l, [])"
      and rows: "\<forall>i. row_of i db1 = row_of i ?db"
      using throw_out [of "goto Catch l" a4 env ?db] assms(5) by (auto simp: goto_def)
    have "lane_run env [a1, a2, a3, a4] db l = (db1, goto Threw l, [])"
      by (simp only: lane_run.simps s1 s2 s3 s4 prod.case append_Nil)
    then show ?thesis using assms(4,6) rows row by auto
  next
    case (Some db1)
    note pr = parked_row [OF Some row]
    have s3: "lane_step env a3 ?db (goto (Park None) l) = (db1, goto (Close ParkedOut) l, [])"
      using assms(5) Some by (simp add: unthrown goto_def)
    obtain c where s4: "lane_step env a4 db1 (goto (Close ParkedOut) l) = (db1\<lparr>sx_codes := c\<rparr>, goto (Done ParkedOut) l, [])"
      using assms(5) by (simp add: unthrown goto_def)
    have "lane_run env [a1, a2, a3, a4] db l = (db1\<lparr>sx_codes := c\<rparr>, goto (Done ParkedOut) l, [])"
      by (simp only: lane_run.simps s1 s2 s3 s4 prod.case append_Nil)
    then show ?thesis using assms(4,6) pr by auto
  qed
qed

section \<open>The pages of the sweep\<close>

definition page_key :: "send_row \<Rightarrow> instant \<times> ident" where
  "page_key e = (sw_createdAt e, er_id e)"

definition stalled_order :: "instant \<Rightarrow> send_row list \<Rightarrow> send_row list" where
  "stalled_order now mails = sort_key page_key (filter (stalled now) mails)"

lemma stalled_order_strict: "distinct (map er_id mails) \<Longrightarrow> sorted_wrt (<) (map page_key (stalled_order now mails))"
proof -
  assume d: "distinct (map er_id mails)"
  have "distinct (map page_key mails)" using d by (auto simp: distinct_map inj_on_def page_key_def)
  then have "distinct (map page_key (stalled_order now mails))"
    by (auto simp: stalled_order_def distinct_map inj_on_def)
  moreover have "sorted (map page_key (stalled_order now mails))" by (simp add: stalled_order_def)
  ultimately show ?thesis by (simp add: strict_sorted_iff)
qed

lemma filter_above:
  fixes f :: "'a \<Rightarrow> 'b :: linorder"
  assumes "sorted_wrt (<) (map f xs)" and "k < length xs"
  shows "filter (\<lambda>e. f (xs ! k) < f e) xs = drop (Suc k) xs"
proof -
  have lt: "f (xs ! i) < f (xs ! j)" if "i < j" "j < length xs" for i j
    using assms(1) that by (simp add: sorted_wrt_iff_nth_less)
  have "\<not> f (xs ! k) < f e" if "e \<in> set (take (Suc k) xs)" for e
  proof -
    obtain i where "i < length (take (Suc k) xs)" "e = take (Suc k) xs ! i" using \<open>e \<in> _\<close> by (metis in_set_conv_nth)
    then show ?thesis using lt [of i k] assms(2) by (cases "i = k") auto
  qed
  moreover have "f (xs ! k) < f e" if "e \<in> set (drop (Suc k) xs)" for e
  proof -
    obtain i where "i < length (drop (Suc k) xs)" "e = drop (Suc k) xs ! i" using \<open>e \<in> _\<close> by (metis in_set_conv_nth)
    then show ?thesis using lt [of k "Suc k + i"] by simp
  qed
  ultimately have "filter (\<lambda>e. f (xs ! k) < f e) (take (Suc k) xs @ drop (Suc k) xs) = drop (Suc k) xs"
    by (simp add: filter_empty_conv del: append_take_drop_id)
  then show ?thesis by simp
qed

definition cursor_at :: "send_row list \<Rightarrow> nat \<Rightarrow> (instant \<times> ident) option" where
  "cursor_at S k = (if k = 0 then None else Some (page_key (S ! (k - 1))))"

lemma page_at:
  assumes "distinct (map er_id mails)" and "k \<le> length (stalled_order now mails)"
  shows "stalled_page now mails (cursor_at (stalled_order now mails) k) n = take n (drop k (stalled_order now mails))"
proof (cases k)
  case 0
  then show ?thesis by (simp add: cursor_at_def stalled_page_def stalled_order_def page_key_def [abs_def])
next
  case (Suc j)
  let ?S = "stalled_order now mails"
  have "filter (\<lambda>e. page_key (?S ! j) < page_key e) ?S = drop k ?S"
    using filter_above [OF stalled_order_strict [OF assms(1)], of j now] assms(2) Suc by simp
  then show ?thesis
    by (simp add: Suc cursor_at_def stalled_page_def stalled_order_def filter_sort page_key_def [abs_def] conj_commute)
qed

lemma pages_from:
  assumes "distinct (map er_id mails)" and "k \<le> length (stalled_order now mails)"
  shows "concat (requeue_pages now mails (cursor_at (stalled_order now mails) k) k)
     = map page_job (take (RECONCILE_MAX_PER_RUN - k) (drop k (stalled_order now mails)))"
  using assms(2)
proof (induction "RECONCILE_MAX_PER_RUN - k" arbitrary: k rule: less_induct)
  case less
  let ?S = "stalled_order now mails"
  let ?n = "min RECONCILE_BATCH (RECONCILE_MAX_PER_RUN - k)"
  let ?page = "take ?n (drop k ?S)"
  note p = page_at [OF assms(1) less.prems, of ?n]
  show ?case
  proof (cases "RECONCILE_MAX_PER_RUN \<le> k \<or> ?page = []")
    case True
    then show ?thesis using p by (auto simp: requeue_pages.simps [of _ _ _ k] RECONCILE_BATCH_def Let_def)
  next
    case False
    show ?thesis
    proof (cases "length ?page < RECONCILE_BATCH")
      case True
      then have "take (RECONCILE_MAX_PER_RUN - k) (drop k ?S) = ?page" by (auto simp: min_def split: if_splits)
      then show ?thesis using False True p by (simp add: requeue_pages.simps [of _ _ _ k] Let_def)
    next
      case full: False
      have len: "length ?page = RECONCILE_BATCH" using full by simp
      have le: "k + RECONCILE_BATCH \<le> length ?S" "k + RECONCILE_BATCH \<le> RECONCILE_MAX_PER_RUN"
        using len less.prems by (auto simp: RECONCILE_BATCH_def)
      have last: "last ?page = ?S ! (k + RECONCILE_BATCH - 1)"
        using len le by (simp add: last_conv_nth RECONCILE_BATCH_def add.commute)
      have c: "Some (sw_createdAt (last ?page), er_id (last ?page)) = cursor_at ?S (k + RECONCILE_BATCH)"
        by (simp only: last) (simp add: cursor_at_def page_key_def RECONCILE_BATCH_def)
      have "concat (requeue_pages now mails (cursor_at ?S (k + RECONCILE_BATCH)) (k + RECONCILE_BATCH))
          = map page_job (take (RECONCILE_MAX_PER_RUN - (k + RECONCILE_BATCH)) (drop (k + RECONCILE_BATCH) ?S))"
        using le by (intro less.hyps) (simp_all add: RECONCILE_BATCH_def)
      moreover have "requeue_pages now mails (cursor_at ?S k) k
          = map page_job ?page # requeue_pages now mails (cursor_at ?S (k + RECONCILE_BATCH)) (k + RECONCILE_BATCH)"
        using False full p len unfolding requeue_pages.simps [of _ _ _ k] Let_def p c [symmetric] by (simp only: if_False not_le) simp
      moreover have "take (RECONCILE_MAX_PER_RUN - k) (drop k ?S)
          = ?page @ take (RECONCILE_MAX_PER_RUN - (k + RECONCILE_BATCH)) (drop (k + RECONCILE_BATCH) ?S)"
      proof -
        have "RECONCILE_MAX_PER_RUN - k = RECONCILE_BATCH + (RECONCILE_MAX_PER_RUN - (k + RECONCILE_BATCH))"
          and "?n = RECONCILE_BATCH" using le by auto
        then show ?thesis by (metis take_add drop_drop add.commute)
      qed
      ultimately show ?thesis by simp
    qed
  qed
qed

lemma page_sizes: "p \<in> set (requeue_pages now mails c k) \<Longrightarrow> p \<noteq> [] \<and> length p \<le> RECONCILE_BATCH"
  by (induction now mails c k rule: requeue_pages.induct)
    (subst (asm) requeue_pages.simps, auto simp: Let_def stalled_page_def split: if_splits)

definition interrupted :: "instant \<Rightarrow> send_row \<Rightarrow> bool" where
  "interrupted now r \<longleftrightarrow> er_latestStatus r = Queued \<and> er_sesMessageId r = None
     \<and> (case er_sentAt r of Some s \<Rightarrow> s < now - STALL_MS | None \<Rightarrow> False)"

lemma swept_rows:
  "sx_mails (sweep_claims draw now db)
   = map (\<lambda>r. if interrupted now r then r\<lparr>er_latestStatus := Failed, er_sentAt := None\<rparr> else r) (sx_mails db)"
proof -
  let ?G = "\<lambda>r. er_latestStatus r = Queued \<and> (case er_sentAt r of Some s \<Rightarrow> s < now - STALL_MS | None \<Rightarrow> False)"
  have "sx_mails (sweep_claims draw now db) = update_rows (may_end ?G) (end_row EndFailed) (sx_mails db)"
    by (simp add: sweep_claims_def end_queued_def endQueuedEmails_def Let_def)
  moreover have "may_end ?G = interrupted now" by (rule ext) (auto simp: may_end_def interrupted_def)
  moreover have "end_row EndFailed r = r\<lparr>er_latestStatus := Failed, er_sentAt := None\<rparr>" for r :: send_row by (simp add: end_row_def)
  ultimately show ?thesis by (simp add: update_rows_def)
qed

lemma swept_stalled: "filter (stalled now) (sx_mails (sweep_claims draw now db)) = filter (stalled now) (sx_mails db)"
proof -
  have "filter (stalled now) (map (\<lambda>r. if interrupted now r then r\<lparr>er_latestStatus := Failed, er_sentAt := None\<rparr> else r) ms)
      = filter (stalled now) ms" for ms
    by (induction ms) (auto simp: interrupted_def stalled_def)
  then show ?thesis by (simp add: swept_rows)
qed

section \<open>Properties\<close>




definition demo_refusal :: caught where
  "demo_refusal = \<lparr>cx_name = ''MessageRejected'', cx_message = [], cx_syscall = False, cx_fault = None, cx_retryable = False,
     cx_httpStatus = Some 400\<rparr>"

definition demo_claimed :: send_row where
  "demo_claimed = demo_send_mail\<lparr>er_sentAt := Some 900\<rparr>"


text \<open>
  C40: the sweep for lost sends. A claim that stood for 15 minutes without an answer ends as failed; and the mails
  it hands to the queue, page after page, are exactly the unclaimed ones that waited as long, in the order of their
  creation, up to 20000 a run and none twice.
\<close>

theorem reconcile_exact:
  assumes "distinct (map er_id (sx_mails db))" and "reconcileStalledSends draw now db = (db', pages)"
  shows "sx_mails db' = map (\<lambda>r. if interrupted now r then r\<lparr>er_latestStatus := Failed, er_sentAt := None\<rparr> else r) (sx_mails db)
    \<and> concat pages = map page_job (take RECONCILE_MAX_PER_RUN (sort_key page_key (filter (stalled now) (sx_mails db))))
    \<and> (\<forall>p \<in> set pages. p \<noteq> [] \<and> length p \<le> RECONCILE_BATCH)"
proof -
  have r: "db' = sweep_claims draw now db" "pages = requeue_pages now (sx_mails db') None 0"
    using assms(2) by (auto simp: reconcileStalledSends_def Let_def)
  have d: "distinct (map er_id (sx_mails db'))" using assms(1) by (simp add: r(1) swept_rows comp_def if_distrib cong: if_cong)
  have "concat pages = map page_job (take RECONCILE_MAX_PER_RUN (stalled_order now (sx_mails db')))"
    using pages_from [OF d, of 0 now] by (simp add: r(2) cursor_at_def)
  moreover have "\<forall>p \<in> set pages. p \<noteq> [] \<and> length p \<le> RECONCILE_BATCH" using page_sizes by (auto simp: r(2))
  moreover have "stalled_order now (sx_mails db') = sort_key page_key (filter (stalled now) (sx_mails db))"
    by (simp add: r(1) stalled_order_def swept_stalled)
  ultimately show ?thesis by (simp add: r(1) swept_rows)
qed

theorem reconcile_exact_witness:
  "distinct (map er_id (sx_mails demo_send_db))
    \<and> concat (snd (reconcileStalledSends (\<lambda>_ _. ([], [])) 1000000 demo_send_db)) = [page_job demo_send_mail]"
proof -
  have d: "distinct (map er_id (sx_mails demo_send_db))" by (simp add: demo_send_db_def)
  have "concat (snd (reconcileStalledSends (\<lambda>_ _. ([], [])) 1000000 demo_send_db))
      = map page_job (take RECONCILE_MAX_PER_RUN (sort_key page_key (filter (stalled 1000000) (sx_mails demo_send_db))))"
    using reconcile_exact [OF d surjective_pairing] by blast
  also have "\<dots> = [page_job demo_send_mail]"
    by (simp add: demo_send_db_def stalled_def demo_send_mail_def STALL_MS_def RECONCILE_MAX_PER_RUN_def)
  finally show ?thesis using d by simp
qed

end
