(* ===== verification/Spec2Isabelle.thy ===== *)
theory Spec2Isabelle
  imports QuotaProps Idempotency Traffic DomainStatus TeamStanding WarmupRamp NewDomainLimit SesEvents AcceptEmail SendBook
begin

text \<open>
  MillionSend is a service that sends e-mail for teams over Amazon SES. This library verifies the
  part of \<open>packages/core/src\<close> that decides what a team may send: how much, when, from which
  domain and in which standing; and the handlers of \<open>apps/worker/src\<close> that carry a row of mail from
  the queue to SES, take in what SES says of it and tell the team's webhooks.

  The parts and how they interact.

  A send enters through an accept surface, which first claims an idempotency key and a place under
  the request rate, parses the sender and checks that its domain is verified. The team's standing
  may refuse it (a suspension, a deliverability pause). Its recipients are then charged to the
  counters of the team's plan, and a domain that is new has a limit of its own beside them. A mail
  that finds no room parks, and a drain charges it later. A queued mail is a job of the worker, which reads the row, checks
  once more what may have changed since, claims the row and hands the message to SES. Events from SES move the row's status,
  count bounces and complaints, and these decide the standing again. A domain that warms up a large
  broadcast releases it a day at a time.

  Where each part is modelled.

  \<^item> \<open>Prelude\<close>: the collections \<open>consts_defs\<close>, \<open>frame_simps\<close> and \<open>invar_intros\<close>, lemmas on lists, options, partial maps and
    tables that the parts share, and \<open>js_trim\<close>, the whitespace trim of JavaScript strings.
  \<^item> \<open>JsDate\<close>: instants in milliseconds as integers, the Gregorian calendar of JavaScript dates and
    \<open>utc-day.ts\<close>.
  \<^item> \<open>Plans\<close>: \<open>plans.ts\<close>, from the plan and its period to the quota a team has (\<open>teamQuota\<close>), with
    the rung ladder, the operator's ceiling and the limits of a plan.
  \<^item> \<open>Quota\<close> and \<open>QuotaProps\<close>: \<open>quota.ts\<close> and \<open>usage-hourly.ts\<close>. The state is one table per counter (a
    team's days and periods, a Free pool's days, a Free pool's burst slot). The locales \<open>capped_take\<close> and
    \<open>capped_counter\<close> state what a guarded increment promises; they are interpreted on the model's own
    \<open>take_team\<close>, \<open>take_pool\<close> and \<open>take_period\<close>, and the refinement to a set of caps rests on them.
  \<^item> \<open>Idempotency\<close>: \<open>idempotency.ts\<close>, a table of claims and records under the key.
  \<^item> \<open>Traffic\<close>: \<open>rate-limit.ts\<close> and \<open>concurrency.ts\<close>, the two fixed window counters under one locale,
    the FIFO semaphore as a step relation and the stream that releases its slot.
  \<^item> \<open>EmailStatus\<close>: \<open>status.ts\<close>, the ladder of \<open>email_status\<close> and the writes that climb it.
  \<^item> \<open>Deliverability\<close>: \<open>deliverability.ts\<close>, the guardrail over exact rationals, the sums it reads and
    the rule for lifting a pause.
  \<^item> \<open>DomainStatus\<close>: \<open>domain-status.ts\<close>.
  \<^item> \<open>TeamPlan\<close> and \<open>TeamStanding\<close>: \<open>team-plan.ts\<close>, \<open>team-standing.ts\<close>, the audit actor of
    \<open>audit.ts\<close> and what a suspension does to \<open>system-contacts.ts\<close>. A transaction is a function from the
    rows it reads to the rows it leaves.
  \<^item> \<open>Doubles\<close>: binary64 arithmetic where the code divides: the nearest double of an exact quotient, with
    ties to even, and the bounds the warm-up needs.
  \<^item> \<open>WarmupMoves\<close> and \<open>WarmupRamp\<close>: \<open>warmup-ramp.ts\<close>, first its pure part (moves, signals, plan), then
    the stored state machine. The day check reads a row and commits it later; the model keeps the two
    apart, so that an operator's change in between is a behaviour of the model.
  \<^item> \<open>NewDomainLimit\<close>: \<open>domain-warmup.ts\<close>, \<open>limit-rules.ts\<close> and \<open>limit-requests.ts\<close>.
  \<^item> \<open>Mailbox\<close>: \<open>sender-address.ts\<close>, the one parser of addresses.
  \<^item> \<open>Recipients\<close>: \<open>suppressions.ts\<close> and \<open>topics.ts\<close>, who may not be written to. Unicode forms and the hash
    are a record of functions, \<open>text_lib\<close>.
  \<^item> \<open>Webhooks\<close>: \<open>webhooks.ts\<close>, the events an endpoint takes, their payloads, the fan-out to delivery
    rows, the rotation of a secret and the retry schedule.
  \<^item> \<open>WebhookDrain\<close>: \<open>deliver-webhook.ts\<close> of the worker. A pass over an endpoint's due deliveries is a step
    relation (\<open>pass_step\<close>), and \<open>drain_step\<close> interleaves passes with fan-outs, disables, crashes and time.
  \<^item> \<open>SesEvents\<close>: \<open>process-ses-event.ts\<close> of the worker, what a verified event of SES does to the row, the
    counters, the suppressions and the webhooks, in one transaction behind the SNS gate.
  \<^item> \<open>InboxPolicy\<close>: the pure rules of inboxes (\<open>send-policy.ts\<close>, \<open>shared-mode.ts\<close>, \<open>safety.ts\<close>, \<open>compose.ts\<close>,
    \<open>activity.ts\<close>, \<open>trust.ts\<close>): who an agent may write to, what a shared address may do, whom a message is
    trusted to be from, and the headers and recipients of a reply.
  \<^item> \<open>InboxSend\<close>: \<open>inboxes/send.ts\<close> and \<open>inbox-routing.ts\<close>, the send decision over the tables, the gate of the
    generic surfaces, and the charge, refund and finish of a send inside the accept transaction.
  \<^item> \<open>RecipientDomains\<close>: \<open>recipient-domains.ts\<close>, the recipients that can never receive mail.
  \<^item> \<open>AcceptEmail\<close>: \<open>accept-email.ts\<close>, the pipeline that composes the parts above: standing, sizes, recipients,
    the inbox gate, suppression, then one transaction over quota, new-domain limit, row and inbox. Its state
    is the product of theirs (\<open>accept_db\<close>) and its clock the record of the reads the code makes.
  \<^item> \<open>SendEmail\<close>: \<open>send-email.ts\<close> of the worker. A job is a lane; \<open>run_phase\<close> is the handler cut at the moments
    where another job can run, and \<open>send_ask\<close> what a step learns from the clock and the services.
  \<^item> \<open>SendWorker\<close>: the sweep \<open>reconcileStalledSends\<close> of \<open>cron.ts\<close>, and the worlds in which any number of lanes
    interleave, crash and run beside every other write to the emails table (\<open>send_step\<close>, \<open>mail_write\<close>).
  \<^item> \<open>SendProps\<close> and \<open>SendBook\<close>: what these promise, and what a lane leaves behind: the books of an acceptance, the
    row after a refusal, the pages of the sweep.

  What the groups of lemmas show. The quota lemmas lead to a refinement (a reservation is granted exactly
  when the send fits under every cap and is then counted once), to the invariant that no counter passes
  its cap, and to the round trip of a reservation and its release. Status writes only climb and do not
  depend on the order of events. An idempotency key has one owner at a time. The standing lemmas say what a
  suspension and a review hold change and what they leave. The warm-up lemmas give reachability
  invariants, the termination of the day check and the days a ramp takes. The lemmas on the new domain limit
  say that a reservation is all or nothing and that the steps shown to a user are true. The mailbox
  lemmas say that what the parser accepts is unambiguous and survives its own formatting. A suppression
  covers every spelling of its address, and a topic's deletion strands no mail. The drain lemmas keep two
  invariants over all interleavings: \<open>world_ok\<close>, that leases keep passes apart, and \<open>world_fine\<close>, what a
  delivery and the clock of its next attempt look like. The inbox lemmas say what an agent sends without a
  person, whom the shared domain reaches, that its caps hold and that a refund restores the charge. The accept lemmas
  carry the refinements of the parts through their composition: what an accepted send is charged, that a
  refused one leaves nothing, and whom it reaches. The send lemmas show that SES takes at most one message for an
  email in every interleaving, that what it took had passed each check at a moment of the run, that every job ends,
  that an acceptance is booked exactly once and a refusal never leaves a row claimed.

  Bounds and fuel. A lane ends within 36 of its steps because every phase leads to a later one; the sweep's pages end
  because each takes at least one row of the \<open>RECONCILE_MAX_PER_RUN\<close> a run allows. The plan of a send walks at most \<open>PLAN_MAX_DAYS\<close> (366) days because the code does;
  the lemmas on the plan and \<open>warmup_reaches_target\<close> show when the bound is not what ends it. The loop of
  the day check terminates by the days left before the current one, and needs no fuel. Quotients are exact
  doubles of rationals; counts are integers, as JavaScript counts below \<open>2 ^ 53\<close> are.

  Parameters. The owner of a domain, the standing in the abuse monitor and the resolved settings are
  arguments where a part reads them from code outside this library, as are the clock and the facts a SQL
  aggregate returns (\<open>send_facts\<close>). The decrypted body, the verdict of the screening, the Free fuse, the SES quota and
  SES's own answer come with each step of a lane. Of the SES client one thing is assumed (\<open>honest\<close>): an error other than its own
  deadline means that SES did not take the message. Strings are Latin-1.

  Concurrency. An operation the code runs in one transaction or one guarded statement is one step here.
  Where it reads first and writes under a guard later, both halves are definitions of their own and the
  properties quantify over what runs between them.

  Not modelled: the MIME composer, the insights on a message, the monitor's draw of samples and the token bucket of the
  worker, which change nothing a lane decides; the other sweeps of \<open>cron.ts\<close>; the screening and the monitor, of
  which only the answers are used; the HTTP, SMTP and MX surfaces, the console and the command line, which marshal the
  operations above; the schema and its migrations; billing with its payment provider; the judge, whose
  verdicts come from a model service; cryptography and key management; the SES and DNS clients. The
  manifest lists them with their reasons.
\<close>

end
